(* ===== verification/Prelude.thy ===== *)
theory Prelude
  imports Main "HOL-Library.Word" "HOL-Library.List_Lexorder" "HOL-Library.Char_ord"
begin

text \<open>
  What the component theories share.  It holds the result type of code that may throw and its
  sequencing operation, the reading of \<^verbatim>\<open>std::istringstream\<close> through \<^verbatim>\<open>std::getline\<close>, decimal
  printing and \<^verbatim>\<open>std::stoi\<close>, the conversion of an integer to the width of the \<^verbatim>\<open>int\<close> it is stored
  in, and the generic facts about lists the components use.  The collections \<open>res_simps\<close>
  (results), \<open>str_simps\<close> (strings and their tokens) and \<open>width_simps\<close> (machine integers) carry
  most component proofs.
\<close>

named_theorems res_simps \<open>sequencing of results that may be errors\<close>
named_theorems str_simps \<open>tokens, decimal numerals and paths\<close>
named_theorems width_simps \<open>integers at their machine width\<close>

section \<open>Results that may be errors\<close>

fun rbind :: "'e + 'a \<Rightarrow> ('a \<Rightarrow> 'e + 'b) \<Rightarrow> 'e + 'b" where
  "rbind (Inl e) f = Inl e"
| "rbind (Inr x) f = f x"

fun rmap :: "('a \<Rightarrow> 'b) \<Rightarrow> 'e + 'a \<Rightarrow> 'e + 'b" where
  "rmap f (Inl e) = Inl e"
| "rmap f (Inr x) = Inr (f x)"

text \<open>A loop whose body may throw: the results of the iterations, or the first error.\<close>

fun rmapM :: "('a \<Rightarrow> 'e + 'b) \<Rightarrow> 'a list \<Rightarrow> 'e + 'b list" where
  "rmapM f [] = Inr []"
| "rmapM f (x # xs) = rbind (f x) (\<lambda>y. rmap (\<lambda>ys. y # ys) (rmapM f xs))"

section \<open>Character streams and numerals\<close>

text \<open>
  \<^verbatim>\<open>while (getline(ss, token, d))\<close>: the tokens up to each delimiter; a delimiter at the very end of
  the stream opens no further token, since the next \<^verbatim>\<open>getline\<close> meets the end of the file at once.
\<close>

function getlines :: "char \<Rightarrow> string \<Rightarrow> string list" where
  "getlines d s =
     (if s = [] then []
      else takeWhile (\<lambda>c. c \<noteq> d) s # getlines d (tl (dropWhile (\<lambda>c. c \<noteq> d) s)))"
  by pat_completeness auto
termination
proof (relation "measure (\<lambda>(d, s). length s)")
  show "wf (measure (\<lambda>(d, s). length s))" by simp
next
  fix d :: char and s :: string
  assume "s \<noteq> []"
  then have "0 < length s" by simp
  moreover have "length (dropWhile (\<lambda>c. c \<noteq> d) s) \<le> length s"
    by (rule length_dropWhile_le)
  ultimately have "length (dropWhile (\<lambda>c. c \<noteq> d) s) - 1 < length s" by linarith
  then show "((d, tl (dropWhile (\<lambda>c. c \<noteq> d) s)), (d, s)) \<in> measure (\<lambda>(d, s). length s)"
    by simp
qed

declare getlines.simps [simp del]

text \<open>One \<^verbatim>\<open>getline\<close>: the token and what is left in the stream, without the delimiter.\<close>

definition getline1 :: "char \<Rightarrow> string \<Rightarrow> string \<times> string" where
  "getline1 d s = (takeWhile (\<lambda>c. c \<noteq> d) s, tl (dropWhile (\<lambda>c. c \<noteq> d) s))"

definition digit_char :: "nat \<Rightarrow> char" where
  "digit_char n = char_of (48 + n)"

definition is_digit :: "char \<Rightarrow> bool" where
  "is_digit c \<longleftrightarrow> 48 \<le> (of_char c :: nat) \<and> (of_char c :: nat) \<le> 57"

definition digit_val :: "char \<Rightarrow> nat" where
  "digit_val c = of_char c - 48"

text \<open>\<^verbatim>\<open>std::to_string\<close> of a non-negative and of any integer.\<close>

fun string_of_nat :: "nat \<Rightarrow> string" where
  "string_of_nat n =
     (if n < 10 then [digit_char n] else string_of_nat (n div 10) @ [digit_char (n mod 10)])"

declare string_of_nat.simps [simp del]

definition string_of_int :: "int \<Rightarrow> string" where
  "string_of_int i = (if i < 0 then CHR ''-'' # string_of_nat (nat (- i)) else string_of_nat (nat i))"

definition nat_of_digits :: "string \<Rightarrow> nat" where
  "nat_of_digits s = foldl (\<lambda>n c. 10 * n + digit_val c) 0 s"

text \<open>
  \<^verbatim>\<open>std::stoi\<close>: leading white space, an optional sign, the longest run of digits; it throws
  \<^verbatim>\<open>std::invalid_argument\<close> without a digit and \<^verbatim>\<open>std::out_of_range\<close> outside the range of \<^verbatim>\<open>int\<close>.
\<close>

datatype stoi_error = StoiInvalid | StoiRange

definition is_space :: "char \<Rightarrow> bool" where
  "is_space c \<longleftrightarrow> (of_char c :: nat) \<in> {9, 10, 11, 12, 13, 32}"

definition stoi :: "string \<Rightarrow> stoi_error + int" where
  "stoi s =
     (let t = dropWhile is_space s;
          neg = (t \<noteq> [] \<and> hd t = CHR ''-'');
          u = (if t \<noteq> [] \<and> (hd t = CHR ''-'' \<or> hd t = CHR ''+'') then tl t else t);
          ds = takeWhile is_digit u;
          v = (if neg then - int (nat_of_digits ds) else int (nat_of_digits ds))
      in if ds = [] then Inl StoiInvalid
         else if v < - (2 ^ 31) \<or> 2 ^ 31 \<le> v then Inl StoiRange
         else Inr v)"

section \<open>Machine integers\<close>

text \<open>The value an \<^verbatim>\<open>int\<close> holds after an integer is converted to it: 32 bits, two's complement.\<close>

definition to_int32 :: "int \<Rightarrow> int" where
  "to_int32 x = signed_take_bit 31 x"

text \<open>C++ division of \<^verbatim>\<open>int\<close> truncates towards zero.\<close>

definition cdiv :: "int \<Rightarrow> int \<Rightarrow> int" where
  "cdiv a b = sgn a * sgn b * (\<bar>a\<bar> div \<bar>b\<bar>)"

section \<open>Facts\<close>

lemma rbind_Inr_iff [res_simps]: "rbind r f = Inr y \<longleftrightarrow> (\<exists>x. r = Inr x \<and> f x = Inr y)"
  by (cases r) auto

lemma rbind_Inl_iff [res_simps]:
  "rbind r f = Inl e \<longleftrightarrow> r = Inl e \<or> (\<exists>x. r = Inr x \<and> f x = Inl e)"
  by (cases r) auto

lemma rmap_Inr_iff [res_simps]: "rmap f r = Inr y \<longleftrightarrow> (\<exists>x. r = Inr x \<and> y = f x)"
  by (cases r) auto

lemma rmap_Inl_iff [res_simps]: "rmap f r = Inl e \<longleftrightarrow> r = Inl e"
  by (cases r) auto

lemma rmap_isl [res_simps, simp]: "isl (rmap f r) = isl r"
  by (cases r) auto

lemma rmapM_Inr:
  "(\<And>x. x \<in> set xs \<Longrightarrow> f x = Inr (g x)) \<Longrightarrow> rmapM f xs = Inr (map g xs)"
  by (induction xs) auto

lemma rmapM_length: "rmapM f xs = Inr ys \<Longrightarrow> length ys = length xs"
  by (induction xs arbitrary: ys) (auto simp: res_simps)

lemma getlines_Nil [str_simps, simp]: "getlines d [] = []"
  by (simp add: getlines.simps)

lemma takeWhile_delim: "d \<notin> set t \<Longrightarrow> takeWhile (\<lambda>c. c \<noteq> d) (t @ d # s) = t"
  by (induction t) auto

lemma dropWhile_delim: "d \<notin> set t \<Longrightarrow> dropWhile (\<lambda>c. c \<noteq> d) (t @ d # s) = d # s"
  by (induction t) auto

lemma takeWhile_no_delim: "d \<notin> set t \<Longrightarrow> takeWhile (\<lambda>c. c \<noteq> d) t = t"
  by (induction t) auto

lemma dropWhile_no_delim: "d \<notin> set t \<Longrightarrow> dropWhile (\<lambda>c. c \<noteq> d) t = []"
  by (induction t) auto

lemmas delim_simps = takeWhile_delim dropWhile_delim takeWhile_no_delim dropWhile_no_delim

lemma getlines_delim [str_simps]:
  "d \<notin> set t \<Longrightarrow> getlines d (t @ d # s) = t # getlines d s"
  by (subst getlines.simps) (simp add: delim_simps)

lemma getlines_last [str_simps]: "d \<notin> set t \<Longrightarrow> t \<noteq> [] \<Longrightarrow> getlines d t = [t]"
  by (subst getlines.simps) (simp add: delim_simps)

lemma getline1_delim [str_simps]: "d \<notin> set t \<Longrightarrow> getline1 d (t @ d # s) = (t, s)"
  by (simp add: getline1_def delim_simps)

lemma getline1_last [str_simps]: "d \<notin> set t \<Longrightarrow> getline1 d t = (t, [])"
  by (simp add: getline1_def delim_simps)

subsection \<open>Decimal numerals\<close>

lemma of_char_digit_char: "n < 10 \<Longrightarrow> (of_char (digit_char n) :: nat) = 48 + n"
  by (simp add: digit_char_def)

lemma is_digit_digit_char [str_simps]: "n < 10 \<Longrightarrow> is_digit (digit_char n)"
  by (simp add: is_digit_def of_char_digit_char)

lemma digit_val_digit_char [str_simps]: "n < 10 \<Longrightarrow> digit_val (digit_char n) = n"
  by (simp add: digit_val_def of_char_digit_char)

lemma string_of_nat_not_Nil [str_simps, simp]: "string_of_nat n \<noteq> []"
  by (subst string_of_nat.simps) simp

lemma string_of_nat_digits [str_simps]: "\<forall>c \<in> set (string_of_nat n). is_digit c"
proof (induction n rule: string_of_nat.induct)
  case (1 n)
  then show ?case
    by (subst string_of_nat.simps) (auto simp: is_digit_digit_char)
qed

lemma nat_of_digits_snoc: "nat_of_digits (s @ [c]) = 10 * nat_of_digits s + digit_val c"
  by (simp add: nat_of_digits_def)

lemma nat_of_digits_string_of_nat [str_simps]: "nat_of_digits (string_of_nat n) = n"
proof (induction n rule: string_of_nat.induct)
  case (1 n)
  show ?case
  proof (cases "n < 10")
    case True
    then show ?thesis
      by (subst string_of_nat.simps) (simp add: nat_of_digits_def digit_val_digit_char)
  next
    case False
    with 1 have "nat_of_digits (string_of_nat (n div 10)) = n div 10" by simp
    with False show ?thesis
      by (subst string_of_nat.simps) (simp add: nat_of_digits_snoc digit_val_digit_char)
  qed
qed

lemma digit_not_special [str_simps]:
  assumes "is_digit c"
  shows "c \<noteq> CHR ''-''" "c \<noteq> CHR ''+''" "c \<noteq> CHR '',''" "c \<noteq> CHR ''>''" "c \<noteq> CHR '':''"
    "c \<noteq> CHR 0x0A" "\<not> is_space c"
  using assms by (auto simp: is_digit_def is_space_def)

lemma string_of_nat_free [str_simps]:
  "CHR '','' \<notin> set (string_of_nat n)" "CHR '':'' \<notin> set (string_of_nat n)"
  "CHR 0x0A \<notin> set (string_of_nat n)"
  using string_of_nat_digits [of n] by (auto dest: digit_not_special)

lemma takeWhile_digits_append [str_simps]:
  "(\<forall>c \<in> set ds. is_digit c) \<Longrightarrow> \<not> is_digit d \<Longrightarrow> takeWhile is_digit (ds @ d # s) = ds"
  "(\<forall>c \<in> set ds. is_digit c) \<Longrightarrow> \<not> is_digit d \<Longrightarrow> dropWhile is_digit (ds @ d # s) = d # s"
  by (induction ds) auto

lemma takeWhile_all_digits [str_simps]:
  "(\<forall>c \<in> set ds. is_digit c) \<Longrightarrow> takeWhile is_digit ds = ds"
  by (induction ds) auto

lemma stoi_digits:
  assumes "\<forall>c \<in> set ds. is_digit c" and "ds \<noteq> []"
  shows "stoi ds = (if nat_of_digits ds < 2 ^ 31 then Inr (int (nat_of_digits ds)) else Inl StoiRange)"
proof -
  from assms obtain c cs where ds: "ds = c # cs" and c: "is_digit c" by (cases ds) auto
  then have "dropWhile is_space ds = ds"
    by (simp add: digit_not_special)
  moreover have "takeWhile is_digit ds = ds" using assms(1) by (rule takeWhile_all_digits)
  ultimately show ?thesis
    using ds digit_not_special [OF c] by (auto simp: stoi_def Let_def)
qed

lemma stoi_string_of_nat [str_simps]:
  "n < 2 ^ 31 \<Longrightarrow> stoi (string_of_nat n) = Inr (int n)"
  by (simp add: stoi_digits string_of_nat_digits nat_of_digits_string_of_nat)

lemma stoi_string_of_int:
  assumes "- (2 ^ 31) \<le> i" and "i < 2 ^ 31"
  shows "stoi (string_of_int i) = Inr i"
proof (cases "i < 0")
  case True
  have "\<not> is_space (CHR ''-'')" by (simp add: is_space_def)
  then show ?thesis
    using True assms
    by (simp add: stoi_def string_of_int_def nat_of_digits_string_of_nat takeWhile_all_digits
        string_of_nat_digits)
next
  case False
  then show ?thesis
    using assms by (simp add: string_of_int_def stoi_string_of_nat nat_less_iff)
qed

lemma stoi_range: "stoi s = Inr i \<Longrightarrow> - (2 ^ 31) \<le> i \<and> i < 2 ^ 31"
  by (auto simp: stoi_def Let_def split: if_splits)

subsection \<open>Widths\<close>

lemma to_int32_id [width_simps]: "- (2 ^ 31) \<le> x \<Longrightarrow> x < 2 ^ 31 \<Longrightarrow> to_int32 x = x"
  by (simp add: to_int32_def signed_take_bit_int_eq_self)

lemma to_int32_range [width_simps]: "- (2 ^ 31) \<le> to_int32 x" "to_int32 x < 2 ^ 31"
  using signed_take_bit_int_greater_eq_minus_exp [of 31 x] signed_take_bit_int_less_exp [of 31 x]
  by (simp_all add: to_int32_def)

lemma cdiv_nonneg [width_simps]: "0 \<le> a \<Longrightarrow> 0 < b \<Longrightarrow> cdiv a b = a div b"
  by (cases "a = 0") (auto simp: cdiv_def)

end
