(* ===== verification/Service.thy ===== *)
theory Service
  imports Prelude
begin

text \<open>
  The protocol's error codes and responses (\<^verbatim>\<open>service.proto\<close>), the exceptions of the program
  (\<^verbatim>\<open>include/common/exception.h\<close>), and how a service handler turns a caught exception into a
  response (\<^verbatim>\<open>fail_response\<close> of \<^verbatim>\<open>namenode.cpp\<close>).
\<close>

datatype error_code =
    COMMON_EXCEPTION
  | PATH_EXISTS_EXCEPTION
  | PATH_NOT_EXISTS_EXCEPTION
  | EXPECTED_FILE_EXCEPTION
  | EXPECTED_DIR_EXCEPTION
  | EXPECTED_LOCK_CONFLICT
  | REDIRECT_TO_MASTER
  | OUT_OF_RANGE_EXCEPTION

record error_message =
  err_code :: error_code
  err_message :: string

record response =
  success :: bool
  fail_info :: error_message

text \<open>
  What leaves a function other than its result: a \<open>MessageException\<close>, any other
  \<^verbatim>\<open>std::exception\<close> (with what \<^verbatim>\<open>what()\<close> returns), or the end of the process (a failed
  \<^verbatim>\<open>assert\<close>, a hardware trap, an exception that leaves a thread), undefined behaviour, or a wait for a
  lock nobody will release; no handler catches one of the last three.
\<close>

datatype exn =
    MessageException error_message
  | StdException string
  | Abort string
  | Undefined string
  | Hang string

type_synonym 'a res = "exn + 'a"

definition message_exception :: "error_code \<Rightarrow> string \<Rightarrow> exn" where
  "message_exception c info = MessageException \<lparr>err_code = c, err_message = info\<rparr>"

definition no_error :: error_message where
  "no_error = \<lparr>err_code = COMMON_EXCEPTION, err_message = []\<rparr>"

definition empty_response :: response where
  "empty_response = \<lparr>success = False, fail_info = no_error\<rparr>"

definition succ_response :: "response \<Rightarrow> response" where
  "succ_response r = r\<lparr>success := True\<rparr>"

fun fail_response :: "exn \<Rightarrow> response \<Rightarrow> response res" where
  "fail_response (MessageException m) r = Inr (r\<lparr>success := False, fail_info := m\<rparr>)"
| "fail_response (StdException w) r =
     Inr (r\<lparr>success := False, fail_info := \<lparr>err_code = COMMON_EXCEPTION, err_message = w\<rparr>\<rparr>)"
| "fail_response (Abort w) r = Inl (Abort w)"
| "fail_response (Undefined w) r = Inl (Undefined w)"
| "fail_response (Hang w) r = Inl (Hang w)"

text \<open>\<^verbatim>\<open>CommonServiceImpl::echo\<close>, which the node scans call.\<close>

definition echo :: response where
  "echo = succ_response empty_response"

text \<open>Whether a handler's \<^verbatim>\<open>catch (const std::exception&)\<close> catches it.\<close>

fun catchable :: "exn \<Rightarrow> bool" where
  "catchable (MessageException m) = True"
| "catchable (StdException w) = True"
| "catchable (Abort w) = False"
| "catchable (Undefined w) = False"
| "catchable (Hang w) = False"

definition stoi_res :: "string \<Rightarrow> int res" where
  "stoi_res s = (case stoi s of Inl _ \<Rightarrow> Inl (StdException ''stoi'') | Inr i \<Rightarrow> Inr i)"

fun_cases fail_response_InrE: "fail_response e r = Inr r'"

lemma fail_response_catchable: "catchable e \<longleftrightarrow> (\<exists>r'. fail_response e r = Inr r')"
  by (cases e) auto

lemma fail_response_not_success: "fail_response e r = Inr r' \<Longrightarrow> \<not> success r'"
  by (auto elim: fail_response_InrE)

lemma stoi_res_string_of_int:
  "- (2 ^ 31) \<le> i \<Longrightarrow> i < 2 ^ 31 \<Longrightarrow> stoi_res (string_of_int i) = Inr i"
  by (simp add: stoi_res_def stoi_string_of_int)

lemma stoi_res_range: "stoi_res s = Inr i \<Longrightarrow> - (2 ^ 31) \<le> i \<and> i < 2 ^ 31"
  by (auto simp: stoi_res_def dest: stoi_range split: sum.splits)

section \<open>Code that never ends the process\<close>

definition no_crash :: "'a res \<Rightarrow> bool" where
  "no_crash x \<longleftrightarrow> (\<forall>e. x = Inl e \<longrightarrow> catchable e)"

named_theorems no_crash_rules \<open>sequencing keeps code free of crashes\<close>

lemma no_crash_simps [simp]: "no_crash (Inr x)" "no_crash (Inl e) = catchable e"
  by (auto simp: no_crash_def)

lemma no_crash_rbind [no_crash_rules]:
  "no_crash x \<Longrightarrow> (\<And>y. x = Inr y \<Longrightarrow> no_crash (f y)) \<Longrightarrow> no_crash (rbind x f)"
  by (cases x) auto

lemma no_crash_rmap [no_crash_rules, simp]: "no_crash (rmap f x) = no_crash x"
  by (cases x) auto

lemma no_crash_rmapM [no_crash_rules]: "(\<And>x. x \<in> set xs \<Longrightarrow> no_crash (f x)) \<Longrightarrow> no_crash (rmapM f xs)"
  by (induction xs) (auto intro!: no_crash_rbind)

lemma no_crash_if [no_crash_rules]:
  "(b \<Longrightarrow> no_crash x) \<Longrightarrow> (\<not> b \<Longrightarrow> no_crash y) \<Longrightarrow> no_crash (if b then x else y)"
  by simp

lemma catchable_message_exception [simp]: "catchable (message_exception c s)"
  by (simp add: message_exception_def)

lemma fail_response_no_crash: "no_crash (fail_response e r) = catchable e"
  by (cases e) auto

lemma no_crash_stoi_res [simp]: "no_crash (stoi_res s)"
  by (simp add: stoi_res_def split: sum.splits)

end
