(* ===== verification/Paths.thy ===== *)
theory Paths
  imports Prelude
begin

text \<open>
  The part of \<^verbatim>\<open>std::filesystem::path\<close> the program uses, on POSIX pathnames, and
  \<^verbatim>\<open>simplify_path\<close> of \<^verbatim>\<open>src/common/utils.cpp\<close> over it: every inode key of the namespace is the
  result of \<open>simplify_path\<close>.  The section of facts gives the normal form of such a key
  (\<open>render\<close> of a list of components), the idempotence of \<open>simplify_path\<close>, and the parent and
  the last component of a key.
\<close>

section \<open>Pathnames\<close>

abbreviation slash :: char where
  "slash \<equiv> CHR ''/''"

text \<open>The text between the slashes, empty pieces included.\<close>

fun segments :: "string \<Rightarrow> string list" where
  "segments [] = [[]]"
| "segments (c # s) =
     (if c = slash then [] # segments s
      else (case segments s of [] \<Rightarrow> [[c]] | t # ts \<Rightarrow> (c # t) # ts))"

fun join :: "string list \<Rightarrow> string" where
  "join [] = []"
| "join [t] = t"
| "join (t # ts) = t @ slash # join ts"

definition has_root :: "string \<Rightarrow> bool" where
  "has_root s \<longleftrightarrow> s \<noteq> [] \<and> hd s = slash"

definition components :: "string \<Rightarrow> string list" where
  "components s = filter (\<lambda>t. t \<noteq> []) (segments s)"

text \<open>
  \<^verbatim>\<open>path::lexically_normal\<close>: dots vanish, a name followed by dot-dot vanishes with it, dot-dot
  directly below the root vanishes, a trailing separator stays except after dot-dot, and an empty
  result becomes a dot.  The names kept so far are a stack; the flag says that the text so far ends
  with a separator.
\<close>

fun norm_step :: "bool \<Rightarrow> string list \<times> bool \<Rightarrow> string \<Rightarrow> string list \<times> bool" where
  "norm_step root (st, tr) c =
     (if c = ''.'' then (st, True)
      else if c = ''..'' then
        (case st of
           [] \<Rightarrow> if root then ([], True) else ([''..''], False)
         | t # st' \<Rightarrow> if t = ''..'' then (''..'' # st, False) else (st', True))
      else (c # st, False))"

definition render :: "bool \<Rightarrow> string list \<Rightarrow> string" where
  "render root cs = (if root then [slash] else []) @ join cs"

definition lexically_normal :: "string \<Rightarrow> string" where
  "lexically_normal s =
     (if s = [] then []
      else let root = has_root s;
               (st, tr) = foldl (norm_step root) ([], False) (components s);
               trailing = (tr \<or> last (segments s) = [])
           in if st = [] then (if root then [slash] else ''.'')
              else render root (rev st) @ (if trailing \<and> hd st \<noteq> ''..'' then [slash] else []))"

definition simplify_path :: "string \<Rightarrow> string" where
  "simplify_path path =
     (let res = lexically_normal path
      in if 1 < length res \<and> last res = slash then butlast res else res)"

text \<open>\<^verbatim>\<open>path::filename\<close>: what follows the last separator.\<close>

definition path_filename :: "string \<Rightarrow> string" where
  "path_filename s = last (segments s)"

text \<open>
  \<^verbatim>\<open>path::parent_path\<close>: a path with no name in it is its own parent; otherwise the text before the
  last piece, without the separators that end it unless they are the root.
\<close>

definition strip_slashes :: "string \<Rightarrow> string" where
  "strip_slashes s = rev (dropWhile (\<lambda>c. c = slash) (rev s))"

definition path_parent :: "string \<Rightarrow> string" where
  "path_parent s =
     (if components s = [] then s
      else let pre = take (length s - length (path_filename s)) s
           in if components pre = [] then pre else strip_slashes pre)"

section \<open>Normal forms\<close>

text \<open>
  A stack of names that \<open>norm_step\<close> leaves alone: no empty name, no separator inside a name, no
  dot, and dot-dot only at the bottom and never below a root.
\<close>

fun dotdot_bottom :: "string list \<Rightarrow> bool" where
  "dotdot_bottom [] = True"
| "dotdot_bottom (c # st) = (if c = ''..'' then (\<forall>x \<in> set st. x = ''..'') else dotdot_bottom st)"

definition plain_name :: "string \<Rightarrow> bool" where
  "plain_name c \<longleftrightarrow> c \<noteq> [] \<and> slash \<notin> set c \<and> c \<noteq> ''.''"

definition norm_stack :: "bool \<Rightarrow> string list \<Rightarrow> bool" where
  "norm_stack root st \<longleftrightarrow>
     (\<forall>c \<in> set st. plain_name c) \<and> dotdot_bottom st \<and> (root \<longrightarrow> ''..'' \<notin> set st)"

definition norm_of :: "string \<Rightarrow> string list" where
  "norm_of s = fst (foldl (norm_step (has_root s)) ([], False) (components s))"

text \<open>The keys of the namespace: absolute paths of proper names, and relative ones.\<close>

definition names_ok :: "string list \<Rightarrow> bool" where
  "names_ok cs \<longleftrightarrow> (\<forall>c \<in> set cs. plain_name c \<and> c \<noteq> ''..'')"

section \<open>Facts\<close>

subsection \<open>Pieces of a pathname\<close>

lemma segments_not_Nil [simp]: "segments s \<noteq> []"
  by (induction s) (auto split: list.splits)

lemma segments_free: "slash \<notin> set t \<Longrightarrow> segments t = [t]"
  by (induction t) auto

lemma segments_append: "slash \<notin> set t \<Longrightarrow> segments (t @ slash # s) = t # segments s"
  by (induction t) auto

lemma segments_pieces_free: "\<forall>t \<in> set (segments s). slash \<notin> set t"
  by (induction s) (auto split: list.splits)

lemma segments_join:
  "ts \<noteq> [] \<Longrightarrow> (\<forall>t \<in> set ts. slash \<notin> set t) \<Longrightarrow> segments (join ts) = ts"
  by (induction ts rule: join.induct) (auto simp: segments_free segments_append)

lemma join_snoc: "cs \<noteq> [] \<Longrightarrow> join (cs @ [c]) = join cs @ slash # c"
  by (induction cs rule: join.induct) auto

lemma join_eq_Nil: "(\<forall>c \<in> set cs. c \<noteq> []) \<Longrightarrow> join cs = [] \<longleftrightarrow> cs = []"
  by (cases cs rule: join.cases) auto

lemma segments_snoc_slash: "segments (s @ [slash]) = segments s @ [[]]"
  by (induction s) (auto split: list.splits)

lemma plain_nameD:
  assumes "plain_name c"
  shows "c \<noteq> []" "slash \<notin> set c" "c \<noteq> ''.''"
  using assms by (auto simp: plain_name_def)

lemma segments_render:
  assumes "\<forall>c \<in> set cs. plain_name c" and "cs \<noteq> []"
  shows "segments (render root cs) = (if root then [] # cs else cs)"
  using assms by (simp add: render_def segments_join plain_name_def)

lemma components_render:
  assumes "\<forall>c \<in> set cs. plain_name c"
  shows "components (render root cs) = cs"
proof (cases "cs = []")
  case True
  then show ?thesis by (simp add: components_def render_def)
next
  case False
  with assms have "filter (\<lambda>t. t \<noteq> []) cs = cs"
    by (simp add: plain_name_def)
  with assms False show ?thesis by (simp add: components_def segments_render)
qed

lemma has_root_render:
  assumes "\<forall>c \<in> set cs. plain_name c"
  shows "has_root (render root cs) = root"
proof (cases cs rule: join.cases)
  case 1
  then show ?thesis by (simp add: has_root_def render_def)
next
  case (2 t)
  with assms show ?thesis by (cases t) (auto simp: has_root_def render_def plain_name_def)
next
  case (3 t u us)
  with assms show ?thesis by (cases t) (auto simp: has_root_def render_def plain_name_def)
qed

lemma last_join: "cs \<noteq> [] \<Longrightarrow> last cs \<noteq> [] \<Longrightarrow> last (join cs) = last (last cs)"
  by (induction cs rule: join.induct) (auto simp: join_eq_Nil neq_Nil_conv)

lemma last_render:
  assumes "\<forall>c \<in> set cs. plain_name c" and "cs \<noteq> []"
  shows "last (render root cs) \<noteq> slash" and "render root cs \<noteq> []"
proof -
  from assms have j: "join cs \<noteq> []" by (subst join_eq_Nil) (auto simp: plain_name_def)
  from assms have "plain_name (last cs)" by simp
  then have "last (last cs) \<in> set (last cs)" and "last cs \<noteq> []" by (auto simp: plain_name_def)
  with assms(2) \<open>plain_name (last cs)\<close> have "last (join cs) \<noteq> slash"
    by (metis last_join plain_nameD(2))
  with j show "last (render root cs) \<noteq> slash" and "render root cs \<noteq> []"
    by (auto simp: render_def)
qed

subsection \<open>The stack of names\<close>

lemma dotdot_bottom_append: "dotdot_bottom (xs @ ys) \<Longrightarrow> dotdot_bottom ys"
proof (induction xs)
  case (Cons x xs)
  have all_dd: "(\<forall>z \<in> set zs. z = ''..'') \<Longrightarrow> dotdot_bottom zs" for zs
    by (induction zs) auto
  from Cons show ?case by (auto intro: all_dd split: if_splits)
qed simp

lemma norm_stack_Cons: "norm_stack root (c # st) \<Longrightarrow> norm_stack root st"
  using dotdot_bottom_append [of "[c]" st] by (auto simp: norm_stack_def)

lemma norm_stack_append: "norm_stack root (xs @ ys) \<Longrightarrow> norm_stack root ys"
  by (induction xs) (auto dest: norm_stack_Cons)

lemma norm_step_keeps:
  assumes st: "norm_stack root st" and c: "c \<noteq> []" "slash \<notin> set c"
  shows "norm_stack root (fst (norm_step root (st, tr) c))"
proof (cases "c = ''.'' \<or> c = ''..''")
  case False
  with st c show ?thesis by (auto simp: norm_stack_def plain_name_def)
next
  case True
  have pop: "norm_stack root st'" if "st = t # st'" for t st'
    using st that norm_stack_Cons by blast
  have dd: "plain_name ''..''" by (simp add: plain_name_def)
  from True st pop dd show ?thesis
    by (cases st) (auto simp: norm_stack_def)
qed

lemma norm_fold_keeps:
  assumes "norm_stack root (fst p)" and "\<forall>c \<in> set cs. c \<noteq> [] \<and> slash \<notin> set c"
  shows "norm_stack root (fst (foldl (norm_step root) p cs))"
  using assms
proof (induction cs arbitrary: p)
  case (Cons c cs)
  have "norm_stack root (fst (norm_step root p c))"
    using Cons.prems norm_step_keeps [of root "fst p" c "snd p"] by (cases p) simp
  with Cons show ?case by simp
qed simp

lemma norm_of_stack: "norm_stack (has_root s) (norm_of s)"
  unfolding norm_of_def
  by (rule norm_fold_keeps)
    (use segments_pieces_free [of s] in \<open>auto simp: norm_stack_def components_def\<close>)

lemma norm_step_push:
  assumes "norm_stack root (c # st)"
  shows "fst (norm_step root (st, tr) c) = c # st"
  using assms by (cases st) (auto simp: norm_stack_def plain_name_def)

lemma norm_fold_fixed:
  assumes "norm_stack root (rev cs @ fst p)"
  shows "fst (foldl (norm_step root) p cs) = rev cs @ fst p"
  using assms
proof (induction cs arbitrary: p)
  case (Cons c cs)
  from Cons.prems have "norm_stack root (c # fst p)"
    by (auto dest: norm_stack_append)
  then have "fst (norm_step root p c) = c # fst p"
    using norm_step_push [of root c "fst p" "snd p"] by simp
  with Cons show ?case by simp
qed simp

lemma norm_of_render:
  assumes "norm_stack root (rev cs)"
  shows "norm_of (render root cs) = rev cs"
proof -
  from assms have "\<forall>c \<in> set cs. plain_name c" by (simp add: norm_stack_def)
  with assms show ?thesis
    by (simp add: norm_of_def components_render has_root_render norm_fold_fixed)
qed

subsection \<open>The simplified path\<close>

lemma simplify_path_Nil [simp]: "simplify_path [] = []"
  by (simp add: simplify_path_def lexically_normal_def)

lemma simplify_path_norm_of:
  assumes "s \<noteq> []"
  shows "simplify_path s =
    (if norm_of s = [] then (if has_root s then [slash] else ''.'')
     else render (has_root s) (rev (norm_of s)))"
proof -
  obtain st tr where fold: "foldl (norm_step (has_root s)) ([], False) (components s) = (st, tr)"
    by (cases "foldl (norm_step (has_root s)) ([], False) (components s)") auto
  then have st: "norm_of s = st" by (simp add: norm_of_def)
  show ?thesis
  proof (cases "st = []")
    case True
    with assms fold st show ?thesis
      by (simp add: simplify_path_def lexically_normal_def)
  next
    case False
    have "\<forall>c \<in> set (rev st). plain_name c"
      using norm_of_stack [of s] st by (simp add: norm_stack_def)
    with False have last: "last (render (has_root s) (rev st)) \<noteq> slash"
        "render (has_root s) (rev st) \<noteq> []"
      using last_render [of "rev st" "has_root s"] by auto
    with assms fold st False show ?thesis
      by (auto simp: simplify_path_def lexically_normal_def Let_def neq_Nil_conv)
  qed
qed

lemma simplify_path_render:
  assumes "norm_stack root (rev cs)" and "root \<or> cs \<noteq> []"
  shows "simplify_path (render root cs) = render root cs"
proof -
  from assms(1) have names: "\<forall>c \<in> set cs. plain_name c" by (simp add: norm_stack_def)
  have ne: "render root cs \<noteq> []"
    using assms(2) last_render(2) [OF names] by (cases "cs = []") (auto simp: render_def)
  have "render root [] = (if root then [slash] else [])" by (simp add: render_def)
  with ne assms names show ?thesis
    by (simp only: simplify_path_norm_of [OF ne] norm_of_render has_root_render)
      (auto simp del: rev_is_Nil_conv simp add: rev_is_Nil_conv)
qed

lemma simplify_path_idem [simp]: "simplify_path (simplify_path s) = simplify_path s"
proof (cases "s = []")
  case False
  show ?thesis
  proof (cases "norm_of s = []")
    case True
    with False have "simplify_path s = [slash] \<or> simplify_path s = ''.''"
      by (simp add: simplify_path_norm_of)
    then show ?thesis
      by (elim disjE) (simp_all add: simplify_path_def lexically_normal_def has_root_def
          components_def)
  next
    case ne: False
    then show ?thesis
      using False norm_of_stack [of s] by (simp add: simplify_path_norm_of simplify_path_render)
  qed
qed simp

subsection \<open>Absolute keys\<close>

lemma names_ok_norm: "names_ok cs \<Longrightarrow> norm_stack root (rev cs)"
proof -
  assume ok: "names_ok cs"
  have "dotdot_bottom st" if "''..'' \<notin> set st" for st
    using that by (induction st) auto
  with ok show ?thesis by (force simp: names_ok_def norm_stack_def)
qed

lemma names_ok_plain: "names_ok cs \<Longrightarrow> \<forall>c \<in> set cs. plain_name c"
  by (simp add: names_ok_def)

lemma names_ok_snoc: "names_ok (cs @ [c]) \<longleftrightarrow> names_ok cs \<and> plain_name c \<and> c \<noteq> ''..''"
  by (auto simp: names_ok_def)

lemma simplify_path_abs [simp]: "names_ok cs \<Longrightarrow> simplify_path (render True cs) = render True cs"
  by (rule simplify_path_render) (simp_all add: names_ok_norm)

lemma simplify_path_absE:
  assumes "has_root s"
  obtains cs where "names_ok cs" and "simplify_path s = render True cs"
proof -
  have "names_ok (rev (norm_of s))"
    using norm_of_stack [of s] assms by (auto simp: norm_stack_def names_ok_def)
  moreover from assms have "s \<noteq> []" by (auto simp: has_root_def)
  then have "simplify_path s = render True (rev (norm_of s))"
    using assms by (auto simp: simplify_path_norm_of render_def)
  ultimately show thesis by (rule that)
qed

lemma render_inject:
  assumes "names_ok cs" and "names_ok ds"
  shows "render True cs = render True ds \<longleftrightarrow> cs = ds"
  using components_render [OF names_ok_plain [OF assms(1)]]
    components_render [OF names_ok_plain [OF assms(2)]] by metis

lemma render_root: "render True [] = [slash]"
  by (simp add: render_def)

lemma path_filename_render:
  assumes "names_ok cs" and "cs \<noteq> []"
  shows "path_filename (render True cs) = last cs"
  using assms by (simp add: path_filename_def segments_render names_ok_plain)

lemma path_filename_root: "path_filename [slash] = []"
  by (simp add: path_filename_def)

lemma strip_slashes_snoc: "s \<noteq> [] \<Longrightarrow> last s \<noteq> slash \<Longrightarrow> strip_slashes (s @ [slash]) = s"
  by (cases s rule: rev_cases) (auto simp: strip_slashes_def)

lemma components_snoc_slash: "components (s @ [slash]) = components s"
  by (simp add: components_def segments_snoc_slash)

lemma path_parent_render:
  assumes ok: "names_ok (cs @ [c])"
  shows "path_parent (render True (cs @ [c])) = render True cs"
proof -
  have comps: "components (render True (cs @ [c])) \<noteq> []"
    using components_render [OF names_ok_plain [OF ok]] by simp
  have fname: "path_filename (render True (cs @ [c])) = c"
    using ok by (simp add: path_filename_render)
  show ?thesis
  proof (cases "cs = []")
    case True
    then show ?thesis
      using comps fname by (simp add: path_parent_def render_def components_def)
  next
    case False
    from ok have cs: "names_ok cs" by (simp add: names_ok_snoc)
    have "render True (cs @ [c]) = (render True cs @ [slash]) @ c"
      using False by (simp add: render_def join_snoc)
    moreover have "components (render True cs @ [slash]) \<noteq> []"
      using False components_render [OF names_ok_plain [OF cs]] by (simp add: components_snoc_slash)
    ultimately show ?thesis
      using comps fname last_render [OF names_ok_plain [OF cs] False]
      by (simp add: path_parent_def strip_slashes_snoc)
  qed
qed

lemma path_parent_root: "path_parent [slash] = [slash]"
  by (simp add: path_parent_def components_def)

lemma path_parent_neq:
  "names_ok (cs @ [c]) \<Longrightarrow> path_parent (render True (cs @ [c])) \<noteq> render True (cs @ [c])"
  by (simp add: path_parent_render render_inject names_ok_snoc)

lemmas path_simps = path_filename_render path_filename_root path_parent_render path_parent_root

section \<open>Properties\<close>



end
