(* ===== verification/Json.thy ===== *)
theory Json
  imports Service
begin

text \<open>
  The JSON values the program builds and reads with \<^verbatim>\<open>nlohmann::json\<close>: objects keep their keys
  sorted and distinct, as the library's \<^verbatim>\<open>std::map\<close> does.  The program creates no floating-point
  number, so the type has none.  \<^verbatim>\<open>dump\<close> and \<^verbatim>\<open>parse\<close> are parameters, the fields of \<open>json_lib\<close>;
  the locale \<open>json_codec\<close> states what the program relies on, that parsing a dumped text gives the
  value back.  The last section is a codec that satisfies it, a printer of compact JSON text with
  its recursive-descent parser.
\<close>

section \<open>Values and their access\<close>

datatype json =
    JNull
  | JBool bool
  | JInt int
  | JStr string
  | JArr "json list"
  | JObj "(string \<times> json) list"

type_synonym json_object = "(string \<times> json) list"

text \<open>\<^verbatim>\<open>j[k] = v\<close> on an object.\<close>

fun jset :: "string \<Rightarrow> json \<Rightarrow> json_object \<Rightarrow> json_object" where
  "jset k v [] = [(k, v)]"
| "jset k v ((k', v') # kvs) =
     (if k < k' then (k, v) # (k', v') # kvs
      else if k = k' then (k, v) # kvs
      else (k', v') # jset k v kvs)"

definition jobject :: "(string \<times> json) list \<Rightarrow> json_object" where
  "jobject kvs = foldl (\<lambda>ob (k, v). jset k v ob) [] kvs"

definition json_error :: "string \<Rightarrow> exn" where
  "json_error w = StdException (''[json.exception] '' @ w)"

text \<open>\<^verbatim>\<open>j.at(k)\<close>, \<^verbatim>\<open>j.find(k)\<close> and \<^verbatim>\<open>get<T>()\<close>.\<close>

fun json_at :: "json \<Rightarrow> string \<Rightarrow> json res" where
  "json_at (JObj kvs) k =
     (case map_of kvs k of None \<Rightarrow> Inl (json_error ''out_of_range'') | Some v \<Rightarrow> Inr v)"
| "json_at j k = Inl (json_error ''type_error'')"

fun json_find :: "json \<Rightarrow> string \<Rightarrow> json option" where
  "json_find (JObj kvs) k = map_of kvs k"
| "json_find j k = None"

fun get_string :: "json \<Rightarrow> string res" where
  "get_string (JStr s) = Inr s"
| "get_string j = Inl (json_error ''type_error'')"

fun get_bool :: "json \<Rightarrow> bool res" where
  "get_bool (JBool b) = Inr b"
| "get_bool j = Inl (json_error ''type_error'')"

fun get_int :: "json \<Rightarrow> int res" where
  "get_int (JInt i) = Inr (to_int32 i)"
| "get_int (JBool b) = Inr (if b then 1 else 0)"
| "get_int j = Inl (json_error ''type_error'')"

fun get_uint64 :: "json \<Rightarrow> 64 word res" where
  "get_uint64 (JInt i) = Inr (word_of_int i)"
| "get_uint64 j = Inl (json_error ''type_error'')"

fun get_array :: "json \<Rightarrow> json list res" where
  "get_array (JArr js) = Inr js"
| "get_array j = Inl (json_error ''type_error'')"

definition get_strings :: "json \<Rightarrow> string list res" where
  "get_strings j = rbind (get_array j) (rmapM get_string)"

text \<open>The library's values: every object inside has sorted, distinct keys.\<close>

fun json_canon :: "json \<Rightarrow> bool" where
  "json_canon (JArr js) = (\<forall>j \<in> set js. json_canon j)"
| "json_canon (JObj kvs) =
     (sorted_wrt (<) (map fst kvs) \<and> (\<forall>kv \<in> set kvs. json_canon (snd kv)))"
| "json_canon j = True"

section \<open>The library's text format\<close>

record json_lib =
  jdump :: "json \<Rightarrow> string res"
  jparse :: "string \<Rightarrow> json res"

locale json_codec =
  fixes J :: json_lib
  assumes parse_dump: "json_canon j \<Longrightarrow> jdump J j = Inr s \<Longrightarrow> jparse J s = Inr j"
    and dump_throws: "jdump J j = Inl e \<Longrightarrow> catchable e"
    and parse_throws: "jparse J s = Inl e \<Longrightarrow> catchable e"
    and dump_not_empty: "jdump J j = Inr s \<Longrightarrow> s \<noteq> []"
begin

lemma dump_inject:
  "json_canon i \<Longrightarrow> json_canon j \<Longrightarrow> jdump J i = Inr s \<Longrightarrow> jdump J j = Inr s \<Longrightarrow> i = j"
  using parse_dump by (metis sum.inject(2))

end

section \<open>Facts about values\<close>

lemma map_of_jset [simp]: "map_of (jset k v kvs) = (map_of kvs)(k \<mapsto> v)"
  by (induction k v kvs rule: jset.induct) auto

lemma set_fst_jset: "set (map fst (jset k v kvs)) = insert k (set (map fst kvs))"
  by (induction k v kvs rule: jset.induct) auto

lemma sorted_jset: "sorted_wrt (<) (map fst kvs) \<Longrightarrow> sorted_wrt (<) (map fst (jset k v kvs))"
proof (induction k v kvs rule: jset.induct)
  case (2 k v k' v' kvs)
  then show ?case
    using set_fst_jset [of k v kvs] by (force simp del: set_map)
qed simp

lemma canon_jset:
  "json_canon (JObj kvs) \<Longrightarrow> json_canon v \<Longrightarrow> json_canon (JObj (jset k v kvs))"
proof -
  assume kvs: "json_canon (JObj kvs)" and v: "json_canon v"
  have "snd ` set (jset k v kvs) \<subseteq> insert v (snd ` set kvs)"
    by (induction k v kvs rule: jset.induct) auto
  with kvs v sorted_jset [of kvs k v] show ?thesis by fastforce
qed

lemma canon_foldl_jset:
  assumes "json_canon (JObj ob)" and "\<forall>kv \<in> set kvs. json_canon (snd kv)"
  shows "json_canon (JObj (foldl (\<lambda>ob (k, v). jset k v ob) ob kvs))"
  using assms
proof (induction kvs arbitrary: ob)
  case (Cons kv kvs)
  obtain k v where "kv = (k, v)" by (cases kv)
  with Cons.prems canon_jset [of ob v k] have "json_canon (JObj (jset k v ob))"
    by (simp del: json_canon.simps)
  with \<open>kv = (k, v)\<close> Cons.prems Cons.IH show ?case by (simp del: json_canon.simps)
qed simp

lemma canon_jobject: "\<forall>kv \<in> set kvs. json_canon (snd kv) \<Longrightarrow> json_canon (JObj (jobject kvs))"
  unfolding jobject_def by (rule canon_foldl_jset) simp_all

lemma json_find_at: "json_find j k = Some v \<longleftrightarrow> json_at j k = Inr v"
  by (cases j) (auto split: option.splits)

section \<open>A codec\<close>

text \<open>
  Compact JSON text with escaped quotes and backslashes; a string with a character outside the
  printable ASCII range is refused, where the library refuses text that is not UTF-8.
\<close>

abbreviation quote :: char where
  "quote \<equiv> CHR 0x22"

abbreviation backslash :: char where
  "backslash \<equiv> CHR 0x5C"

fun escape :: "string \<Rightarrow> string" where
  "escape [] = []"
| "escape (c # s) =
     (if c = quote \<or> c = backslash then backslash # c # escape s else c # escape s)"

fun commas :: "string list \<Rightarrow> string" where
  "commas [] = []"
| "commas [t] = t"
| "commas (t # ts) = t @ CHR '','' # commas ts"

fun show_json :: "json \<Rightarrow> string" where
  "show_json JNull = ''null''"
| "show_json (JBool b) = (if b then ''true'' else ''false'')"
| "show_json (JInt i) = string_of_int i"
| "show_json (JStr s) = quote # escape s @ [quote]"
| "show_json (JArr js) = CHR ''['' # commas (map show_json js) @ '']''"
| "show_json (JObj kvs) =
     CHR ''{'' # commas (map (\<lambda>kv. quote # escape (fst kv) @ quote # CHR '':'' # show_json (snd kv)) kvs) @ ''}''"

fun printable :: "json \<Rightarrow> bool" where
  "printable (JStr s) = (\<forall>c \<in> set s. 32 \<le> (of_char c :: nat) \<and> (of_char c :: nat) < 127)"
| "printable (JArr js) = (\<forall>j \<in> set js. printable j)"
| "printable (JObj kvs) = (\<forall>kv \<in> set kvs. printable (JStr (fst kv)) \<and> printable (snd kv))"
| "printable j = True"

fun read_string :: "string \<Rightarrow> (string \<times> string) option" where
  "read_string [] = None"
| "read_string (c # s) =
     (if c = quote then Some ([], s)
      else if c = backslash then
        (case s of [] \<Rightarrow> None | d # r \<Rightarrow> map_option (\<lambda>(t, r'). (d # t, r')) (read_string r))
      else map_option (\<lambda>(t, r'). (c # t, r')) (read_string s))"

definition read_int :: "string \<Rightarrow> (json \<times> string) option" where
  "read_int s =
     (let neg = (s \<noteq> [] \<and> hd s = CHR ''-''); u = (if neg then tl s else s);
          ds = takeWhile is_digit u
      in if ds = [] then None
         else Some (JInt (if neg then - int (nat_of_digits ds) else int (nat_of_digits ds)),
                    dropWhile is_digit u))"

text \<open>
  One unit of fuel per nested value and per list element: the length of the text is enough.
\<close>

fun read_value :: "nat \<Rightarrow> string \<Rightarrow> (json \<times> string) option"
  and read_items :: "nat \<Rightarrow> string \<Rightarrow> (json list \<times> string) option"
  and read_fields :: "nat \<Rightarrow> string \<Rightarrow> ((string \<times> json) list \<times> string) option"
where
  "read_value 0 s = None"
| "read_value (Suc n) s =
     (if s = [] then None
      else if hd s = quote then map_option (\<lambda>(t, r). (JStr t, r)) (read_string (tl s))
      else if hd s = CHR ''['' then
        (if take 1 (tl s) = '']'' then Some (JArr [], drop 2 s)
         else map_option (\<lambda>(js, r). (JArr js, r)) (read_items n (tl s)))
      else if hd s = CHR ''{'' then
        (if take 1 (tl s) = ''}'' then Some (JObj [], drop 2 s)
         else map_option (\<lambda>(kvs, r). (JObj kvs, r)) (read_fields n (tl s)))
      else if take 4 s = ''null'' then Some (JNull, drop 4 s)
      else if take 4 s = ''true'' then Some (JBool True, drop 4 s)
      else if take 5 s = ''false'' then Some (JBool False, drop 5 s)
      else read_int s)"
| "read_items 0 s = None"
| "read_items (Suc n) s =
     (case read_value n s of
        None \<Rightarrow> None
      | Some (j, r) \<Rightarrow>
          if take 1 r = '','' then map_option (\<lambda>(js, r'). (j # js, r')) (read_items n (tl r))
          else if take 1 r = '']'' then Some ([j], tl r)
          else None)"
| "read_fields 0 s = None"
| "read_fields (Suc n) s =
     (if take 1 s \<noteq> [quote] then None
      else case read_string (tl s) of
        None \<Rightarrow> None
      | Some (k, r) \<Rightarrow>
          if take 1 r \<noteq> '':'' then None
          else case read_value n (tl r) of
            None \<Rightarrow> None
          | Some (j, r') \<Rightarrow>
              if take 1 r' = '','' then
                map_option (\<lambda>(kvs, r''). ((k, j) # kvs, r'')) (read_fields n (tl r'))
              else if take 1 r' = ''}'' then Some ([(k, j)], tl r')
              else None)"

definition text_json :: json_lib where
  "text_json =
     \<lparr>jdump = (\<lambda>j. if printable j then Inr (show_json j) else Inl (json_error ''type_error'')),
      jparse = (\<lambda>s. case read_value (Suc (length s)) s of
                       Some (j, []) \<Rightarrow> Inr j
                     | _ \<Rightarrow> Inl (json_error ''parse_error''))\<rparr>"

lemma read_string_escape: "read_string (escape s @ quote # r) = Some (s, r)"
  by (induction s) auto

lemma show_json_not_Nil [simp]: "show_json j \<noteq> []"
  by (cases j) (auto simp: string_of_int_def)

text \<open>What may follow a value inside a text.\<close>

definition value_end :: "string \<Rightarrow> bool" where
  "value_end r \<longleftrightarrow> r = [] \<or> hd r \<in> {CHR '','', CHR '']'', CHR ''}''}"

lemma value_end_simps [simp]:
  "value_end []" "value_end (CHR '','' # r)" "value_end (CHR '']'' # r)" "value_end (CHR ''}'' # r)"
  by (simp_all add: value_end_def)

lemma value_end_not_digit: "value_end (c # r) \<Longrightarrow> \<not> is_digit c"
  by (auto simp: value_end_def is_digit_def)

lemma read_int_string_of_int:
  assumes "value_end r"
  shows "read_int (string_of_int i @ r) = Some (JInt i, r)"
proof -
  have digits: "takeWhile is_digit (string_of_nat n @ r) = string_of_nat n"
      "dropWhile is_digit (string_of_nat n @ r) = r" for n
    using assms string_of_nat_digits [of n]
    by (cases r; simp add: takeWhile_append dropWhile_append value_end_not_digit)+
  have hd: "is_digit (hd (string_of_nat n @ r))" for n
    using string_of_nat_digits [of n] by (cases "string_of_nat n") auto
  show ?thesis
    using digits hd [of "nat i"] digit_not_special(1) [OF hd [of "nat i"]]
    by (auto simp: read_int_def string_of_int_def Let_def nat_of_digits_string_of_nat)
qed

lemma string_of_int_hd:
  "hd (string_of_int i @ r) = CHR ''-'' \<or> is_digit (hd (string_of_int i @ r))"
  using string_of_nat_digits [of "nat i"] string_of_nat_not_Nil [of "nat i"]
  by (cases "string_of_nat (nat i)") (auto simp: string_of_int_def)

lemma is_digit_not_json:
  assumes "is_digit c"
  shows "c \<noteq> quote" "c \<noteq> CHR ''[''" "c \<noteq> CHR ''{''" "c \<noteq> CHR '']''" "c \<noteq> CHR ''n''"
    "c \<noteq> CHR ''t''" "c \<noteq> CHR ''f''"
  using assms by (auto simp: is_digit_def)

lemma take_hd_neq: "hd s \<noteq> c \<Longrightarrow> take n s \<noteq> c # t"
  by (cases s; cases n) auto

lemma show_json_hd: "take 1 (show_json j @ r) \<noteq> '']''"
proof (cases j)
  case (JInt i)
  have "hd (string_of_int i @ r) \<noteq> CHR '']''"
    using string_of_int_hd [of i r] by (auto dest: is_digit_not_json)
  with JInt show ?thesis by (simp only: show_json.simps) (rule take_hd_neq)
qed auto

lemma read_value_int:
  assumes r: "value_end r"
  shows "read_value (Suc n) (string_of_int i @ r) = Some (JInt i, r)"
proof -
  define s where "s = string_of_int i @ r"
  have ne: "s \<noteq> []" using show_json_not_Nil [of "JInt i"] by (simp add: s_def)
  have hd: "hd s \<noteq> quote" "hd s \<noteq> CHR ''[''" "hd s \<noteq> CHR ''{''" "hd s \<noteq> CHR ''n''"
      "hd s \<noteq> CHR ''t''" "hd s \<noteq> CHR ''f''"
    using string_of_int_hd [of i r] unfolding s_def by (auto dest: is_digit_not_json)
  have "read_value (Suc n) s = read_int s"
    using ne hd by (simp add: take_hd_neq)
  then show ?thesis using read_int_string_of_int [OF r] by (simp add: s_def)
qed

text \<open>The text of every part of a value is read back, with fuel for the length of that text.\<close>

definition reads_back :: "json \<Rightarrow> bool" where
  "reads_back j \<longleftrightarrow>
     (\<forall>n r. value_end r \<longrightarrow> length (show_json j) \<le> n \<longrightarrow>
        read_value (Suc n) (show_json j @ r) = Some (j, r))"

lemma reads_backD:
  "reads_back j \<Longrightarrow> value_end r \<Longrightarrow> length (show_json j) \<le> n \<Longrightarrow>
     read_value (Suc n) (show_json j @ r) = Some (j, r)"
  by (simp add: reads_back_def del: read_value.simps)

declare read_value.simps(2) [simp del]

lemma read_items_show:
  assumes "js \<noteq> []" and "\<forall>j \<in> set js. reads_back j" and "length (commas (map show_json js)) < n"
  shows "read_items (Suc n) (commas (map show_json js) @ CHR '']'' # r) = Some (js, r)"
  using assms
proof (induction js arbitrary: n)
  case (Cons j js)
  from Cons.prems(3) obtain m where n: "n = Suc m" by (cases n) auto
  have len: "length (show_json j) \<le> m"
    using Cons.prems(3) n by (cases js) auto
  then have j: "read_value n (show_json j @ u) = Some (j, u)" if "value_end u" for u
    using Cons.prems(2) that n by (simp add: reads_backD)
  show ?case
  proof (cases js)
    case Nil
    then show ?thesis using j by simp
  next
    case (Cons j' js')
    with Cons.prems n Cons.IH [of m]
    have "read_items n (commas (map show_json js) @ CHR '']'' # r) = Some (js, r)" by simp
    with Cons show ?thesis using j by simp
  qed
qed simp

lemma read_fields_show:
  assumes "kvs \<noteq> []" and "\<forall>kv \<in> set kvs. reads_back (snd kv)"
    and "length (commas (map (\<lambda>kv. quote # escape (fst kv) @ quote # CHR '':'' # show_json (snd kv)) kvs)) < n"
  shows "read_fields (Suc n)
      (commas (map (\<lambda>kv. quote # escape (fst kv) @ quote # CHR '':'' # show_json (snd kv)) kvs) @ CHR ''}'' # r)
    = Some (kvs, r)"
  using assms
proof (induction kvs arbitrary: n)
  case (Cons kv kvs)
  obtain k j where kv: "kv = (k, j)" by (cases kv)
  from Cons.prems(3) obtain m where n: "n = Suc m" by (cases n) auto
  have len: "length (show_json j) \<le> m"
    using Cons.prems(3) n kv by (cases kvs) auto
  then have j: "read_value n (show_json j @ u) = Some (j, u)" if "value_end u" for u
    using Cons.prems(2) that n kv by (simp add: reads_backD)
  show ?case
  proof (cases kvs)
    case Nil
    then show ?thesis using j kv by (simp add: read_string_escape)
  next
    case (Cons kv' kvs')
    with Cons.prems n kv Cons.IH [of m]
    have "read_fields n (commas (map (\<lambda>kv. quote # escape (fst kv) @ quote # CHR '':'' # show_json (snd kv)) kvs)
        @ CHR ''}'' # r) = Some (kvs, r)" by simp
    with Cons show ?thesis using j kv by (simp add: read_string_escape)
  qed
qed simp

lemma show_reads_back: "reads_back j"
proof (induction j)
  case (JArr js)
  show ?case
  proof (cases "js = []")
    case True
    then show ?thesis by (simp add: reads_back_def read_value.simps)
  next
    case False
    have "read_value (Suc n) (show_json (JArr js) @ r) = Some (JArr js, r)"
      if n: "length (show_json (JArr js)) \<le> n" for n r
    proof -
      from n obtain m where m: "n = Suc m" by (cases n) auto
      with n have "read_items n (commas (map show_json js) @ CHR '']'' # r) = Some (js, r)"
        using read_items_show [of js m r] False JArr by simp
      moreover have "take 1 (commas (map show_json js) @ CHR '']'' # r) \<noteq> '']''"
        using False show_json_hd by (cases js rule: remdups_adj.cases) auto
      ultimately show ?thesis by (simp add: read_value.simps)
    qed
    then show ?thesis by (simp add: reads_back_def)
  qed
next
  case (JObj kvs)
  then have IH: "\<forall>kv \<in> set kvs. reads_back (snd kv)" by (metis prod_set_simps(2) singletonI snds.cases snds.intros)
  show ?case
  proof (cases "kvs = []")
    case True
    then show ?thesis by (simp add: reads_back_def read_value.simps)
  next
    case False
    have "read_value (Suc n) (show_json (JObj kvs) @ r) = Some (JObj kvs, r)"
      if n: "length (show_json (JObj kvs)) \<le> n" for n r
    proof -
      let ?body = "commas (map (\<lambda>kv. quote # escape (fst kv) @ quote # CHR '':'' # show_json (snd kv)) kvs)"
      from n obtain m where m: "n = Suc m" by (cases n) auto
      with n have "read_fields n (?body @ CHR ''}'' # r) = Some (kvs, r)"
        using read_fields_show [of kvs m r] False IH by simp
      moreover have "take 1 (?body @ CHR ''}'' # r) \<noteq> ''}''"
        using False by (cases kvs rule: remdups_adj.cases) auto
      ultimately show ?thesis by (simp add: read_value.simps)
    qed
    then show ?thesis by (simp add: reads_back_def)
  qed
next
  case (JInt i)
  show ?case by (simp add: reads_back_def read_value_int)
qed (auto simp: reads_back_def read_string_escape read_value.simps)

lemma parse_show: "jparse text_json (show_json j) = Inr j"
proof -
  have "read_value (Suc (length (show_json j))) (show_json j) = Some (j, [])"
    using show_reads_back [of j] unfolding reads_back_def
    by (metis append_Nil2 order_refl value_end_simps(1))
  then show ?thesis by (simp add: text_json_def)
qed

interpretation text_codec: json_codec text_json
proof
  fix j s
  assume "jdump text_json j = Inr s"
  then have "s = show_json j" by (simp add: text_json_def split: if_splits)
  then show "jparse text_json s = Inr j" by (simp add: parse_show)
qed (auto simp: text_json_def json_error_def split: if_splits option.splits prod.splits list.splits)

end
