(* ===== verification/Utils.thy ===== *)
theory Utils
  imports Service
begin

text \<open>
  \<^verbatim>\<open>include/common/utils.h\<close> and \<^verbatim>\<open>src/common/utils.cpp\<close> apart from the paths: block index
  arithmetic on \<^verbatim>\<open>int\<close>, the shifted clock, the choice of a node's own address, and the interval
  timer's thread as a step relation.
\<close>

section \<open>Block indices\<close>

definition int_div :: "int \<Rightarrow> int \<Rightarrow> int res" where
  "int_div a b = (if b = 0 then Inl (Abort ''SIGFPE'') else Inr (to_int32 (cdiv a b)))"

definition align_index_up :: "int \<Rightarrow> int \<Rightarrow> int res" where
  "align_index_up n alignment = rmap (\<lambda>q. to_int32 (q + 1)) (int_div n alignment)"

definition align_index_down :: "int \<Rightarrow> int \<Rightarrow> int res" where
  "align_index_down n alignment = int_div n alignment"

definition align_up :: "int \<Rightarrow> int \<Rightarrow> int res" where
  "align_up n alignment = int_div (to_int32 (to_int32 (n + alignment) - 1)) alignment"

definition align_down :: "int \<Rightarrow> int \<Rightarrow> int res" where
  "align_down n alignment = align_index_down n alignment"

section \<open>The shifted clock\<close>

type_synonym u64 = "64 word"

text \<open>\<open>time_shifting\<close> is the signed global; addition and subtraction are those of 64 bits.\<close>

definition get_time :: "u64 \<Rightarrow> u64 \<Rightarrow> u64" where
  "get_time time_shifting clock = time_shifting + clock"

definition set_time :: "u64 \<Rightarrow> u64 \<Rightarrow> u64" where
  "set_time expected clock = expected - clock"

section \<open>The node's own address\<close>

text \<open>A \<^verbatim>\<open>std::set<string>\<close> in iteration order, and \<^verbatim>\<open>std::set_intersection\<close> of two of them.\<close>

definition std_set :: "string list \<Rightarrow> string list" where
  "std_set xs = sort (remdups xs)"

fun set_intersection :: "string list \<Rightarrow> string list \<Rightarrow> string list" where
  "set_intersection (x # xs) (y # ys) =
     (if x < y then set_intersection xs (y # ys)
      else if y < x then set_intersection (x # xs) ys
      else x # set_intersection xs ys)"
| "set_intersection xs ys = []"

definition get_my_ip :: "string list \<Rightarrow> string list \<Rightarrow> string res" where
  "get_my_ip node_ips all_ips =
     (case set_intersection (std_set node_ips) (std_set all_ips) of
        [] \<Rightarrow> Inl (StdException ''cannot find equal ips'')
      | ip # _ \<Rightarrow> Inr ip)"

section \<open>The interval timer\<close>

text \<open>
  The timer's thread waits with the mutex released, wakes after the interval or at \<^verbatim>\<open>notify_one\<close>
  (or spuriously), runs the callback with the mutex held while \<open>running\<close> holds, and ends when it is
  not, or after the timeout callback when the run threw a \<^verbatim>\<open>TimeoutException\<close>.  \<open>stop\<close> clears the
  flag under the mutex, so not during a run, and joins the thread.  \<open>calls\<close> counts the runs of the
  callback and \<open>timeouts\<close> those of the timeout callback.
\<close>

datatype timer_pc = TimerWaiting | TimerRunning | TimerEnded

record timer =
  running :: bool
  pc :: timer_pc
  calls :: nat
  timeouts :: nat

definition timer_start :: timer where
  "timer_start = \<lparr>running = True, pc = TimerWaiting, calls = 0, timeouts = 0\<rparr>"

inductive timer_step :: "timer \<Rightarrow> timer \<Rightarrow> bool" where
  wake_run: "pc t = TimerWaiting \<Longrightarrow> running t \<Longrightarrow>
     timer_step t (t\<lparr>pc := TimerRunning, calls := Suc (calls t)\<rparr>)"
| wake_end: "pc t = TimerWaiting \<Longrightarrow> \<not> running t \<Longrightarrow> timer_step t (t\<lparr>pc := TimerEnded\<rparr>)"
| run_done: "pc t = TimerRunning \<Longrightarrow> timer_step t (t\<lparr>pc := TimerWaiting\<rparr>)"
| run_timeout: "pc t = TimerRunning \<Longrightarrow>
     timer_step t (t\<lparr>pc := TimerEnded, timeouts := Suc (timeouts t)\<rparr>)"
| stop: "pc t \<noteq> TimerRunning \<Longrightarrow> timer_step t (t\<lparr>running := False\<rparr>)"

inductive_cases timer_stepE: "timer_step t t'"

inductive_simps timer_step_ended: "timer_step \<lparr>running = r, pc = TimerEnded, calls = c, timeouts = n\<rparr> t'"

section \<open>Facts\<close>

subsection \<open>Indices\<close>

lemma div_range: "0 \<le> n \<Longrightarrow> 0 < bs \<Longrightarrow> 0 \<le> n div bs \<and> n div bs \<le> n" for n bs :: int
  using zdiv_mono2 [of n 1 bs] by (simp add: pos_imp_zdiv_nonneg_iff)

lemma int_div_nonneg [width_simps]:
  "0 \<le> n \<Longrightarrow> n < 2 ^ 31 \<Longrightarrow> 0 < bs \<Longrightarrow> int_div n bs = Inr (n div bs)"
  using div_range [of n bs] by (simp add: int_div_def cdiv_nonneg to_int32_id)

lemma align_index_down_div [width_simps]:
  "0 \<le> n \<Longrightarrow> n < 2 ^ 31 \<Longrightarrow> 0 < bs \<Longrightarrow> align_index_down n bs = Inr (n div bs)"
  by (simp add: align_index_down_def int_div_nonneg)

lemma align_index_up_div [width_simps]:
  assumes "0 \<le> n" "n < 2 ^ 31" "1 < bs"
  shows "align_index_up n bs = Inr (n div bs + 1)"
proof -
  have "n div bs \<le> n div 2" using assms zdiv_mono2 [of n 2 bs] by simp
  with assms have "n div bs + 1 < 2 ^ 31" by simp
  moreover have "0 \<le> n div bs" using assms by (simp add: pos_imp_zdiv_nonneg_iff)
  ultimately show ?thesis
    using assms by (simp add: align_index_up_def int_div_nonneg to_int32_id)
qed

lemma align_up_ceil [width_simps]:
  assumes "0 \<le> n" "0 < bs" "n + bs \<le> 2 ^ 31 - 1"
  shows "align_up n bs = Inr ((n + bs - 1) div bs)"
  using assms by (simp add: align_up_def int_div_nonneg to_int32_id)

text \<open>The blocks \<open>align_up\<close> counts are exactly enough for \<open>n\<close> bytes.\<close>

lemma ceil_div_bounds:
  fixes n bs :: int
  assumes "0 < bs"
  shows "n \<le> ((n + bs - 1) div bs) * bs" and "((n + bs - 1) div bs) * bs < n + bs"
proof -
  have e: "n + bs - 1 = ((n + bs - 1) div bs) * bs + (n + bs - 1) mod bs"
    by (simp add: div_mult_mod_eq)
  moreover have "0 \<le> (n + bs - 1) mod bs" "(n + bs - 1) mod bs < bs"
    using assms by auto
  ultimately show "n \<le> ((n + bs - 1) div bs) * bs" "((n + bs - 1) div bs) * bs < n + bs"
    by linarith+
qed

subsection \<open>Addresses\<close>

lemma set_std_set [simp]: "set (std_set xs) = set xs"
  by (simp add: std_set_def)

lemma sorted_std_set: "sorted_wrt (<) (std_set xs)"
  by (simp add: std_set_def strict_sorted_iff)

lemma set_set_intersection:
  assumes "sorted_wrt (<) xs" and "sorted_wrt (<) ys"
  shows "set (set_intersection xs ys) = set xs \<inter> set ys"
  using assms by (induction xs ys rule: set_intersection.induct) (auto simp: not_less_iff_gr_or_eq)

lemma sorted_set_intersection:
  assumes "sorted_wrt (<) xs" and "sorted_wrt (<) ys"
  shows "sorted_wrt (<) (set_intersection xs ys)"
  using assms
  by (induction xs ys rule: set_intersection.induct) (auto simp: set_set_intersection)

lemma get_my_ip_Inr:
  "get_my_ip ns ls = Inr ip \<longleftrightarrow>
     ip \<in> set ns \<inter> set ls \<and> (\<forall>ip' \<in> set ns \<inter> set ls. ip \<le> ip')"
proof -
  let ?i = "set_intersection (std_set ns) (std_set ls)"
  have set: "set ?i = set ns \<inter> set ls"
    by (simp add: set_set_intersection sorted_std_set)
  have sorted: "sorted_wrt (<) ?i" by (simp add: sorted_set_intersection sorted_std_set)
  show ?thesis
  proof (cases ?i)
    case Nil
    with set show ?thesis by (auto simp: get_my_ip_def)
  next
    case (Cons x xs)
    with sorted have least: "\<forall>y \<in> set ?i. x \<le> y" by auto
    from Cons have x: "x \<in> set ?i" and res: "get_my_ip ns ls = Inr x"
      by (simp_all add: get_my_ip_def)
    then have "ip = x \<longleftrightarrow> ip \<in> set ?i \<and> (\<forall>ip' \<in> set ?i. ip \<le> ip')"
      using least by (auto intro: order.antisym)
    with res show ?thesis unfolding set by auto
  qed
qed

lemma get_my_ip_Inl:
  "(\<exists>e. get_my_ip ns ls = Inl e) \<longleftrightarrow> set ns \<inter> set ls = {}"
proof -
  have "set (set_intersection (std_set ns) (std_set ls)) = set ns \<inter> set ls"
    by (simp add: set_set_intersection sorted_std_set)
  then show ?thesis
    by (cases "set_intersection (std_set ns) (std_set ls)") (auto simp: get_my_ip_def)
qed

subsection \<open>The timer\<close>

lemma timer_stopped_step:
  assumes "timer_step t t'" and "\<not> running t" and "pc t \<noteq> TimerRunning"
  shows "\<not> running t' \<and> pc t' \<noteq> TimerRunning \<and> calls t' = calls t \<and> timeouts t' = timeouts t"
  using assms by (auto elim: timer_stepE)

lemma timer_stopped_steps:
  assumes "timer_step\<^sup>*\<^sup>* t t'" and "\<not> running t" and "pc t \<noteq> TimerRunning"
  shows "\<not> running t' \<and> pc t' \<noteq> TimerRunning \<and> calls t' = calls t \<and> timeouts t' = timeouts t"
  using assms by (induction rule: rtranclp_induct) (auto dest: timer_stopped_step)

lemma timer_ended_step:
  "timer_step t t' \<Longrightarrow> pc t = TimerEnded \<Longrightarrow>
     pc t' = TimerEnded \<and> calls t' = calls t \<and> timeouts t' = timeouts t"
  by (auto elim: timer_stepE)

lemma timer_timeouts_le: "timer_step\<^sup>*\<^sup>* timer_start t \<Longrightarrow> timeouts t \<le> 1 \<and> (timeouts t = 1 \<longrightarrow> pc t = TimerEnded)"
  by (induction rule: rtranclp_induct) (auto simp: timer_start_def elim!: timer_stepE)

section \<open>Properties\<close>

text \<open>
C23: Block counting is exact within the range of \<^verbatim>\<open>int\<close>: \<open>align_up\<close> gives the least number of blocks
that hold \<open>n\<close> bytes, and \<open>align_index_down\<close> and \<open>align_index_up\<close> bracket the byte \<open>n\<close>.
\<close>

theorem align_exact:
  assumes "0 \<le> n" and "1 < bs" and "n + bs < 2 ^ 31"
  shows "\<exists>u d. align_up n bs = Inr u \<and> align_index_down n bs = Inr d \<and> align_index_up n bs = Inr (d + 1) \<and>
    n \<le> u * bs \<and> (u - 1) * bs < n \<and> d * bs \<le> n \<and> n < (d + 1) * bs"
proof -
  have "align_up n bs = Inr ((n + bs - 1) div bs)" "align_index_down n bs = Inr (n div bs)"
    "align_index_up n bs = Inr (n div bs + 1)"
    using assms by (simp_all add: width_simps)
  moreover have "n \<le> (n + bs - 1) div bs * bs" "((n + bs - 1) div bs - 1) * bs < n"
    using ceil_div_bounds [of bs n] assms by (simp_all add: left_diff_distrib)
  moreover have "n div bs * bs \<le> n" "n < (n div bs + 1) * bs"
    using assms div_mult_mod_eq [of n bs] pos_mod_bound [of bs n] pos_mod_sign [of bs n]
    by (simp_all only: distrib_right) linarith+
  ultimately show ?thesis by blast
qed

theorem align_exact_witness:
  "\<exists>u d. align_up 1048577 1048576 = Inr u \<and> align_index_down 1048577 1048576 = Inr d \<and>
    1048577 \<le> u * 1048576 \<and> 1048577 < (d + 1) * 1048576"
  using align_exact [of 1048577 1048576] by auto



end
