(* ===== verification/Node.thy ===== *)
theory Node
  imports Json
begin

text \<open>
  \<^verbatim>\<open>include/common/node.h\<close> and \<^verbatim>\<open>src/common/node.cpp\<close>: cluster nodes, their text and JSON forms,
  the order and the binary search on them, and node discovery.  The outcome of the echo call to a
  node is a parameter.
\<close>

section \<open>Nodes and their text\<close>

datatype node_status = ONLINE | OFFLINE | UNKNOWN

record node =
  ip :: string
  port :: int
  nodeStatus :: node_status

text \<open>
  \<^verbatim>\<open>from_string(node_str, node)\<close>: the address up to the colon, then a port if there is one; without
  one the node keeps the port it had.
\<close>

definition node_from_string :: "string \<Rightarrow> node \<Rightarrow> node res" where
  "node_from_string node_str n =
     (let (i, rest) = getline1 (CHR '':'') node_str;
          (portStr, _) = getline1 (CHR 0x0A) rest
      in if portStr = [] then Inr (n\<lparr>ip := i\<rparr>)
         else rmap (\<lambda>p. n\<lparr>ip := i, port := p\<rparr>) (stoi_res portStr))"

definition new_node :: "string \<Rightarrow> int \<Rightarrow> node_status \<Rightarrow> node res" where
  "new_node i p st = node_from_string i \<lparr>ip = i, port = p, nodeStatus = st\<rparr>"

definition default_node :: node where
  "default_node = \<lparr>ip = [], port = 0, nodeStatus = UNKNOWN\<rparr>"

definition INVALID_NODE :: node where
  "INVALID_NODE = \<lparr>ip = ''0.0.0.0'', port = 0, nodeStatus = UNKNOWN\<rparr>"

definition node_eq :: "node \<Rightarrow> node \<Rightarrow> bool" where
  "node_eq a b \<longleftrightarrow> ip a = ip b"

definition node_lt :: "node \<Rightarrow> node \<Rightarrow> bool" where
  "node_lt a b \<longleftrightarrow> ip a < ip b"

definition node_valid :: "node \<Rightarrow> bool" where
  "node_valid n \<longleftrightarrow> \<not> node_eq n INVALID_NODE"

definition node_to_string :: "node \<Rightarrow> string" where
  "node_to_string n = ip n @ CHR '':'' # string_of_int (port n)"

text \<open>\<^verbatim>\<open>to_string(nodes)\<close> drops the last comma; on an empty string \<^verbatim>\<open>pop_back\<close> is undefined.\<close>

definition nodes_to_string :: "node list \<Rightarrow> string res" where
  "nodes_to_string nodes =
     (let s = concat (map (\<lambda>n. node_to_string n @ '','') nodes)
      in if s = [] then Inl (Undefined ''pop_back on an empty string'') else Inr (butlast s))"

text \<open>\<^verbatim>\<open>parse_nodes\<close>: one \<^verbatim>\<open>Node\<close> variable serves all tokens.\<close>

fun parse_tokens :: "node \<Rightarrow> string list \<Rightarrow> node list res" where
  "parse_tokens n [] = Inr []"
| "parse_tokens n (t # ts) =
     rbind (node_from_string t n) (\<lambda>n'. rmap (\<lambda>ns. n' # ns) (parse_tokens n' ts))"

definition parse_nodes :: "string \<Rightarrow> node list res" where
  "parse_nodes nodes_str = parse_tokens default_node (getlines (CHR '','') nodes_str)"

section \<open>JSON\<close>

definition node_to_json :: "node \<Rightarrow> json" where
  "node_to_json n = JObj (jobject [(''ip'', JStr (ip n)), (''port'', JInt (port n))])"

definition node_from_json :: "json \<Rightarrow> node \<Rightarrow> node res" where
  "node_from_json j n =
     rbind (rbind (json_at j ''ip'') get_string) (\<lambda>i.
     rbind (rbind (json_at j ''port'') get_int) (\<lambda>p.
     Inr (n\<lparr>ip := i, port := p\<rparr>)))"

text \<open>\<^verbatim>\<open>_json.get<vector<Node>>()\<close> fills default-constructed nodes.\<close>

definition nodes_from_json :: "json \<Rightarrow> node list res" where
  "nodes_from_json j = rbind (get_array j) (rmapM (\<lambda>e. node_from_json e default_node))"

definition nodes_to_json :: "node list \<Rightarrow> json" where
  "nodes_to_json ns = JArr (map node_to_json ns)"

section \<open>Search and discovery\<close>

text \<open>\<^verbatim>\<open>std::lower_bound\<close> on \<open>len\<close> elements from \<open>first\<close>, and \<^verbatim>\<open>std::binary_search\<close>.\<close>

function lower_bound :: "node list \<Rightarrow> node \<Rightarrow> nat \<Rightarrow> nat \<Rightarrow> nat" where
  "lower_bound xs v first len =
     (if len = 0 then first
      else let half = len div 2; mid = first + half
           in if node_lt (xs ! mid) v then lower_bound xs v (mid + 1) (len - half - 1)
              else lower_bound xs v first half)"
  by pat_completeness auto
termination
  by (relation "measure (\<lambda>(xs, v, first, len). len)") auto

declare lower_bound.simps [simp del]

definition binary_search :: "node list \<Rightarrow> node \<Rightarrow> bool" where
  "binary_search xs v =
     (let i = lower_bound xs v 0 (length xs) in i < length xs \<and> \<not> node_lt v (xs ! i))"

text \<open>
  \<^verbatim>\<open>Node::scan\<close>: a channel that cannot be initialised throws; else the outcome of the echo call
  decides.  In \<^verbatim>\<open>node_discovery\<close> each scan runs in a thread of its own, so its exception ends the
  process.
\<close>

datatype echo_outcome = ChannelInitFailed | RpcFailed | RpcOk

fun scan :: "(node \<Rightarrow> echo_outcome) \<Rightarrow> node \<Rightarrow> node res" where
  "scan net n =
     (case net n of
        ChannelInitFailed \<Rightarrow> Inl (StdException ''channel init failed'')
      | RpcFailed \<Rightarrow> Inr (n\<lparr>nodeStatus := OFFLINE\<rparr>)
      | RpcOk \<Rightarrow> Inr (n\<lparr>nodeStatus := ONLINE\<rparr>))"

definition node_discovery :: "(node \<Rightarrow> echo_outcome) \<Rightarrow> node list \<Rightarrow> node list res" where
  "node_discovery net nodes =
     (case rmapM (scan net) nodes of
        Inl e \<Rightarrow> Inl (Abort ''terminate'')
      | Inr ns \<Rightarrow> Inr ns)"

section \<open>Facts\<close>

subsection \<open>Text\<close>

lemma is_space_facts [simp]: "\<not> is_space (CHR '':'')" "\<not> is_space (CHR '','')"
  by (simp_all add: is_space_def)

lemma string_of_int_free:
  "CHR '','' \<notin> set (string_of_int i)" "CHR '':'' \<notin> set (string_of_int i)"
  "CHR 0x0A \<notin> set (string_of_int i)" "string_of_int i \<noteq> []"
  by (auto simp: string_of_int_def str_simps)

definition addr_ok :: "node \<Rightarrow> bool" where
  "addr_ok n \<longleftrightarrow>
     CHR '':'' \<notin> set (ip n) \<and> CHR '','' \<notin> set (ip n) \<and> - (2 ^ 31) \<le> port n \<and> port n < 2 ^ 31"

lemma node_from_string_to_string:
  assumes "addr_ok n"
  shows "node_from_string (node_to_string n) n' = Inr (n'\<lparr>ip := ip n, port := port n\<rparr>)"
  using assms
  by (simp add: addr_ok_def node_from_string_def node_to_string_def getline1_delim getline1_last
      string_of_int_free stoi_res_string_of_int)

lemma node_to_string_no_comma: "addr_ok n \<Longrightarrow> CHR '','' \<notin> set (node_to_string n)"
  by (simp add: addr_ok_def node_to_string_def string_of_int_free)

lemma getlines_butlast:
  "d \<notin> set t \<Longrightarrow> t \<noteq> [] \<Longrightarrow> getlines d (butlast (t @ d # s)) = getlines d (t @ d # butlast s)"
  by (cases "s = []") (simp_all add: butlast_append getlines_last getlines_delim)

lemma getlines_nodes:
  assumes "\<forall>n \<in> set nodes. addr_ok n"
  shows "getlines (CHR '','') (butlast (concat (map (\<lambda>n. node_to_string n @ '','') nodes)))
    = map node_to_string nodes"
  using assms
proof (induction nodes)
  case (Cons n nodes)
  let ?rest = "concat (map (\<lambda>n. node_to_string n @ '','') nodes)"
  have t: "CHR '','' \<notin> set (node_to_string n)" "node_to_string n \<noteq> []"
    using Cons.prems node_to_string_no_comma by (auto simp: node_to_string_def)
  have "getlines (CHR '','') (butlast (node_to_string n @ CHR '','' # ?rest))
      = node_to_string n # getlines (CHR '','') (butlast ?rest)"
    using getlines_butlast [OF t] getlines_delim [OF t(1)] by simp
  with Cons show ?case by simp
qed simp

lemma parse_tokens_nodes:
  assumes "\<forall>n \<in> set nodes. addr_ok n"
  shows "parse_tokens n0 (map node_to_string nodes) =
    Inr (map (\<lambda>n. n\<lparr>nodeStatus := nodeStatus n0\<rparr>) nodes)"
  using assms
proof (induction nodes arbitrary: n0)
  case (Cons n nodes)
  have "n0\<lparr>ip := ip n, port := port n\<rparr> = n\<lparr>nodeStatus := nodeStatus n0\<rparr>" by simp
  with Cons show ?case by (simp add: node_from_string_to_string)
qed simp

lemma parse_nodes_to_string:
  assumes "\<forall>n \<in> set nodes. addr_ok n" and "nodes \<noteq> []"
  shows "rbind (nodes_to_string nodes) parse_nodes =
    Inr (map (\<lambda>n. n\<lparr>nodeStatus := UNKNOWN\<rparr>) nodes)"
proof -
  have "concat (map (\<lambda>n. node_to_string n @ '','') nodes) \<noteq> []"
    using assms(2) by (cases nodes) auto
  then show ?thesis
    using assms(1)
    by (simp add: nodes_to_string_def parse_nodes_def getlines_nodes parse_tokens_nodes default_node_def)
qed

subsection \<open>JSON\<close>

lemma canon_nodes_to_json: "json_canon (nodes_to_json ns)"
  by (auto simp: nodes_to_json_def node_to_json_def simp del: json_canon.simps(2)
      intro!: canon_jobject)

lemma node_json_roundtrip:
  assumes "- (2 ^ 31) \<le> port n" and "port n < 2 ^ 31"
  shows "node_from_json (node_to_json n) n' = Inr (n'\<lparr>ip := ip n, port := port n\<rparr>)"
  using assms by (simp add: node_from_json_def node_to_json_def jobject_def to_int32_id)

lemma nodes_json_roundtrip:
  assumes "\<forall>n \<in> set ns. - (2 ^ 31) \<le> port n \<and> port n < 2 ^ 31"
  shows "nodes_from_json (nodes_to_json ns) = Inr (map (\<lambda>n. n\<lparr>nodeStatus := UNKNOWN\<rparr>) ns)"
proof -
  have "rmapM (\<lambda>e. node_from_json e default_node) (map node_to_json ns)
      = Inr (map (\<lambda>n. n\<lparr>nodeStatus := UNKNOWN\<rparr>) ns)"
    using assms by (induction ns) (auto simp: node_json_roundtrip default_node_def)
  then show ?thesis by (simp add: nodes_from_json_def nodes_to_json_def)
qed

subsection \<open>Search\<close>

text \<open>
  The part of the range before \<open>first\<close> is below the value, the part from the end of the range on
  is not.
\<close>

lemma lower_bound_partition:
  assumes "sorted (map ip xs)" and "first + len \<le> length xs"
    and "\<forall>i < first. node_lt (xs ! i) v"
    and "\<forall>i. first + len \<le> i \<longrightarrow> i < length xs \<longrightarrow> \<not> node_lt (xs ! i) v"
  shows "lower_bound xs v first len \<le> length xs \<and>
    (\<forall>i < lower_bound xs v first len. node_lt (xs ! i) v) \<and>
    (\<forall>i. lower_bound xs v first len \<le> i \<longrightarrow> i < length xs \<longrightarrow> \<not> node_lt (xs ! i) v)"
  using assms
proof (induction xs v first len rule: lower_bound.induct)
  case (1 xs v first len)
  let ?mid = "first + len div 2"
  have mono: "ip (xs ! i) \<le> ip (xs ! j)" if "i \<le> j" "j < length xs" for i j
    using sorted_nth_mono [OF "1.prems"(1), of i j] that by simp
  show ?case
  proof (cases "len = 0")
    case True
    with "1.prems" show ?thesis by (simp add: lower_bound.simps [of xs v first 0])
  next
    case False
    then have mid: "?mid < length xs" using "1.prems"(2) by auto
    show ?thesis
    proof (cases "node_lt (xs ! ?mid) v")
      case True
      have below: "\<forall>i < ?mid + 1. node_lt (xs ! i) v"
      proof (intro allI impI)
        fix i assume "i < ?mid + 1"
        then have "ip (xs ! i) \<le> ip (xs ! ?mid)" using mono [of i ?mid] mid by simp
        with True show "node_lt (xs ! i) v" by (auto simp: node_lt_def)
      qed
      have end': "?mid + 1 + (len - len div 2 - 1) = first + len" using False by simp
      have eq: "lower_bound xs v first len = lower_bound xs v (?mid + 1) (len - len div 2 - 1)"
        using False True by (subst lower_bound.simps) (simp only: Let_def if_True if_False)
      show ?thesis
        unfolding eq
        by (rule "1.IH"(1) [OF False refl refl True "1.prems"(1) _ below])
          (unfold end', use "1.prems"(2,4) in \<open>simp_all only:\<close>)
    next
      case False': False
      have above: "\<forall>i. first + len div 2 \<le> i \<longrightarrow> i < length xs \<longrightarrow> \<not> node_lt (xs ! i) v"
      proof (intro allI impI)
        fix i assume "first + len div 2 \<le> i" and "i < length xs"
        then have "ip (xs ! ?mid) \<le> ip (xs ! i)" using mono by simp
        with False' show "\<not> node_lt (xs ! i) v" by (auto simp: node_lt_def)
      qed
      have eq: "lower_bound xs v first len = lower_bound xs v first (len div 2)"
        using False False' by (subst lower_bound.simps) (simp only: Let_def if_False)
      show ?thesis
        unfolding eq
        by (rule "1.IH"(2) [OF False refl refl False' "1.prems"(1) _ "1.prems"(3) above])
          (use mid in simp)
    qed
  qed
qed

lemma binary_search_iff:
  assumes "sorted (map ip xs)"
  shows "binary_search xs v \<longleftrightarrow> ip v \<in> ip ` set xs"
proof -
  let ?r = "lower_bound xs v 0 (length xs)"
  have r: "?r \<le> length xs" "\<forall>i < ?r. node_lt (xs ! i) v"
      "\<forall>i. ?r \<le> i \<longrightarrow> i < length xs \<longrightarrow> \<not> node_lt (xs ! i) v"
    using lower_bound_partition [OF assms, of 0 "length xs" v] by auto
  show ?thesis
  proof
    assume "binary_search xs v"
    with r show "ip v \<in> ip ` set xs"
      by (auto simp: binary_search_def Let_def node_lt_def intro!: image_eqI [of _ _ "xs ! ?r"])
  next
    assume "ip v \<in> ip ` set xs"
    then obtain i where i: "i < length xs" "ip (xs ! i) = ip v" by (auto simp: in_set_conv_nth)
    with r have "?r \<le> i" by (metis node_lt_def less_irrefl not_le)
    with i have "ip (xs ! ?r) \<le> ip v"
      using sorted_nth_mono [OF assms, of ?r i] by simp
    with i \<open>?r \<le> i\<close> show "binary_search xs v"
      by (simp add: binary_search_def Let_def node_lt_def not_less)
  qed
qed

subsection \<open>Discovery\<close>

lemma rmapM_scan:
  assumes "rmapM (scan net) nodes = Inr ns"
  shows "ns = map (\<lambda>n. n\<lparr>nodeStatus := (if net n = RpcOk then ONLINE else OFFLINE)\<rparr>) nodes"
  using assms by (induction nodes arbitrary: ns) (auto simp: res_simps split: echo_outcome.splits)

lemma node_discovery_Inr:
  "node_discovery net nodes = Inr ns \<Longrightarrow>
     ns = map (\<lambda>n. n\<lparr>nodeStatus := (if net n = RpcOk then ONLINE else OFFLINE)\<rparr>) nodes"
  by (auto simp: node_discovery_def dest: rmapM_scan split: sum.splits)

lemma node_discovery_total:
  "\<forall>n \<in> set nodes. net n \<noteq> ChannelInitFailed \<Longrightarrow>
     node_discovery net nodes =
       Inr (map (\<lambda>n. n\<lparr>nodeStatus := (if net n = RpcOk then ONLINE else OFFLINE)\<rparr>) nodes)"
proof -
  assume ok: "\<forall>n \<in> set nodes. net n \<noteq> ChannelInitFailed"
  have "rmapM (scan net) nodes =
      Inr (map (\<lambda>n. n\<lparr>nodeStatus := (if net n = RpcOk then ONLINE else OFFLINE)\<rparr>) nodes)"
    using ok by (intro rmapM_Inr) (auto split: echo_outcome.splits)
  then show ?thesis by (simp add: node_discovery_def)
qed

section \<open>Properties\<close>

text \<open>
C21: Node lists survive their text form: \<open>parse_nodes\<close> of what \<open>to_string\<close> prints for a non-empty
list gives back every address and port, in order, with an unknown status.
\<close>

theorem node_list_text_roundtrip:
  assumes "\<forall>n \<in> set nodes. addr_ok n" and "nodes \<noteq> []"
  shows "rbind (nodes_to_string nodes) parse_nodes = Inr (map (\<lambda>n. n\<lparr>nodeStatus := UNKNOWN\<rparr>) nodes)"
  by (rule parse_nodes_to_string [OF assms])

theorem node_list_text_roundtrip_witness:
  "rbind (nodes_to_string [\<lparr>ip = ''10.0.0.1'', port = 8001, nodeStatus = ONLINE\<rparr>]) parse_nodes =
     Inr [\<lparr>ip = ''10.0.0.1'', port = 8001, nodeStatus = UNKNOWN\<rparr>]"
  using node_list_text_roundtrip [of "[\<lparr>ip = ''10.0.0.1'', port = 8001, nodeStatus = ONLINE\<rparr>]"]
  by (simp add: addr_ok_def)

end
