(* ===== verification/Inode.thy ===== *)
theory Inode
  imports Node Paths Utils "HOL-Library.Sublist"
begin

text \<open>
  \<^verbatim>\<open>include/common/inode.h\<close> and \<^verbatim>\<open>src/common/inode.cpp\<close>: the storage types (Reed-Solomon coding and
  replication) with their text, JSON and block forms, and the inodes of the namespace with their
  lock, names and JSON form.  The erasure-coding library is a parameter, the record \<open>ec_lib\<close>;
  \<open>mds_code\<close> states the property of it the program relies on.  The locale \<open>storage_codec\<close> is the
  contract of the abstract class \<^verbatim>\<open>StorageType\<close> toward its client, the SDK.
\<close>

section \<open>Storage types\<close>

datatype storage_type =
    RS (st_k: int) (st_m: int) (st_b: int)
  | RE (replications: int) (st_b: int)

text \<open>The regular expression of \<^verbatim>\<open>StorageType::from_string\<close>: literals and runs of digits.\<close>

definition re_lit :: "string \<Rightarrow> string \<Rightarrow> string option" where
  "re_lit p s = (if take (length p) s = p then Some (drop (length p) s) else None)"

definition re_digits :: "string \<Rightarrow> (string \<times> string) option" where
  "re_digits s =
     (if takeWhile is_digit s = [] then None else Some (takeWhile is_digit s, dropWhile is_digit s))"

definition match_rs :: "string \<Rightarrow> (string \<times> string \<times> string) option" where
  "match_rs s =
     Option.bind (re_lit ''RS<'' s) (\<lambda>s1.
     Option.bind (re_digits s1) (\<lambda>(k, s2).
     Option.bind (re_lit '','' s2) (\<lambda>s3.
     Option.bind (re_digits s3) (\<lambda>(m, s4).
     Option.bind (re_lit '','' s4) (\<lambda>s5.
     Option.bind (re_digits s5) (\<lambda>(b, s6).
     if s6 = ''>'' then Some (k, m, b) else None))))))"

definition match_re :: "string \<Rightarrow> (string \<times> string) option" where
  "match_re s =
     Option.bind (re_lit ''RE<'' s) (\<lambda>s1.
     Option.bind (re_digits s1) (\<lambda>(r, s2).
     Option.bind (re_lit '','' s2) (\<lambda>s3.
     Option.bind (re_digits s3) (\<lambda>(b, s4).
     if s4 = ''>'' then Some (r, b) else None))))"

definition st_from_string :: "string \<Rightarrow> storage_type res" where
  "st_from_string input =
     (case match_rs input of
        Some (k, m, b) \<Rightarrow>
          rbind (stoi_res k) (\<lambda>k'. rbind (stoi_res m) (\<lambda>m'. rmap (RS k' m') (stoi_res b)))
      | None \<Rightarrow>
          (case match_re input of
             Some (r, b) \<Rightarrow> rbind (stoi_res r) (\<lambda>r'. rmap (RE r') (stoi_res b))
           | None \<Rightarrow> Inl (StdException (''cannot solve '' @ input))))"

text \<open>The methods of \<^verbatim>\<open>REStorageType\<close>; those of \<^verbatim>\<open>RSStorageType\<close> are the first equations of the virtual methods.\<close>

definition re_to_string :: "int \<Rightarrow> int \<Rightarrow> string" where
  "re_to_string r b = ''RE<'' @ string_of_int r @ '','' @ string_of_int b @ ''>''"

definition re_to_json :: "int \<Rightarrow> int \<Rightarrow> json" where
  "re_to_json r b = JObj (jobject [(''type'', JStr ''RE''), (''replications'', JInt r), (''b'', JInt b)])"

definition re_encode :: "int \<Rightarrow> string \<Rightarrow> string list" where
  "re_encode r data = replicate (nat r) data"

definition re_decode :: "string list \<Rightarrow> string res" where
  "re_decode vec = (case vec of [] \<Rightarrow> Inl (Undefined ''front of an empty vector'') | x # _ \<Rightarrow> Inr x)"

definition re_check :: "int \<Rightarrow> bool" where
  "re_check succ_cout \<longleftrightarrow> 1 \<le> succ_cout"

lemmas re_defs [simp] = re_to_string_def re_to_json_def re_encode_def re_decode_def re_check_def

fun st_to_string :: "storage_type \<Rightarrow> string" where
  "st_to_string (RS k m b) =
     ''RS<'' @ string_of_int k @ '','' @ string_of_int m @ '','' @ string_of_int b @ ''>''"
| "st_to_string (RE r b) = re_to_string r b"

fun st_to_json :: "storage_type \<Rightarrow> json" where
  "st_to_json (RS k m b) =
     JObj (jobject [(''type'', JStr ''RS''), (''k'', JInt k), (''m'', JInt m), (''b'', JInt b)])"
| "st_to_json (RE r b) = re_to_json r b"

definition st_from_json :: "json \<Rightarrow> storage_type res" where
  "st_from_json j =
     rbind (rbind (json_at j ''type'') get_string) (\<lambda>type.
       if type = ''RS'' then
         rbind (rbind (json_at j ''k'') get_int) (\<lambda>k.
         rbind (rbind (json_at j ''m'') get_int) (\<lambda>m.
         rmap (RS k m) (rbind (json_at j ''b'') get_int)))
       else if type = ''RE'' then
         rbind (rbind (json_at j ''replications'') get_int) (\<lambda>r.
         rmap (RE r) (rbind (json_at j ''b'') get_int))
       else Inl (StdException ''Unknown StorageType''))"

text \<open>The block size in bytes: an \<^verbatim>\<open>int\<close> product of megabytes.\<close>

definition st_block_size :: "storage_type \<Rightarrow> int" where
  "st_block_size st = to_int32 (to_int32 (st_b st * 1024) * 1024)"

fun getBlocks :: "storage_type \<Rightarrow> int" where
  "getBlocks (RS k m b) = to_int32 (k + m)"
| "getBlocks (RE r b) = r"

fun getDecodeBlocks :: "storage_type \<Rightarrow> int" where
  "getDecodeBlocks (RS k m b) = k"
| "getDecodeBlocks (RE r b) = 1"

fun st_check :: "storage_type \<Rightarrow> int \<Rightarrow> bool" where
  "st_check (RS k m b) succ_cout = (k < succ_cout)"
| "st_check (RE r b) succ_cout = re_check succ_cout"

text \<open>
  \<^verbatim>\<open>liberasurecode\<close>: encoding gives the data and parity fragments or an error number, decoding
  takes fragments and the length of the first one.
\<close>

record ec_lib =
  ec_encode :: "int \<Rightarrow> int \<Rightarrow> string \<Rightarrow> int + (string list \<times> string list)"
  ec_decode :: "int \<Rightarrow> int \<Rightarrow> string list \<Rightarrow> nat \<Rightarrow> int + string"

fun st_encode :: "ec_lib \<Rightarrow> storage_type \<Rightarrow> string \<Rightarrow> string list res" where
  "st_encode E (RS k m b) data =
     (case ec_encode E k m data of
        Inl ret \<Rightarrow> Inl (StdException (''encode error, error code: '' @ string_of_int ret))
      | Inr (ds, ps) \<Rightarrow>
          if to_int32 (k + m) < 0 then Inl (StdException ''cannot create std::vector larger than max_size()'')
          else if k < 0 \<or> m < 0 \<or> length ds < nat k \<or> length ps < nat m then
            Inl (Undefined ''fragment out of range'')
          else Inr (take (nat k) ds @ take (nat m) ps))"
| "st_encode E (RE r b) data = Inr (re_encode r data)"

text \<open>
  The two assertions compare a \<^verbatim>\<open>size_t\<close> with an \<^verbatim>\<open>int\<close>, which is converted to 64 bits first.
\<close>

fun st_decode :: "ec_lib \<Rightarrow> storage_type \<Rightarrow> string list \<Rightarrow> string res" where
  "st_decode E (RS k m b) vec =
     (if \<not> k mod 2 ^ 64 \<le> int (length vec) then Inl (Abort ''assert vec.size() >= k'')
      else if \<not> int (length vec) \<le> to_int32 (k + m) mod 2 ^ 64 then
        Inl (Abort ''assert vec.size() <= k + m'')
      else if k \<le> 0 then Inl (Undefined ''array of no fragments'')
      else (case ec_decode E k m (take (nat k) vec) (length (hd vec)) of
              Inl ret \<Rightarrow> Inl (StdException ''decode error'')
            | Inr out_data \<Rightarrow> Inr out_data))"
| "st_decode E (RE r b) vec = re_decode vec"

section \<open>Inodes\<close>

record inode =
  fullpath :: string
  is_directory :: bool
  filesize :: u64
  storage_type_ptr :: "storage_type option"
  sub :: "string list"
  valid :: bool
  ddl_lock :: u64

text \<open>
  A default-constructed \<^verbatim>\<open>Inode\<close>: the constructor leaves \<open>valid\<close> indeterminate, and the argument
  is the value found there.
\<close>

definition new_inode :: "bool \<Rightarrow> inode" where
  "new_inode garbage =
     \<lparr>fullpath = [], is_directory = False, filesize = 0, storage_type_ptr = None, sub = [],
      valid = garbage, ddl_lock = 0\<rparr>"

definition set_fullpath :: "string \<Rightarrow> inode \<Rightarrow> inode" where
  "set_fullpath p i = i\<lparr>fullpath := simplify_path p\<rparr>"

definition get_default_dir :: "string \<Rightarrow> inode" where
  "get_default_dir path =
     \<lparr>fullpath = simplify_path path, is_directory = True, filesize = 0, storage_type_ptr = None,
      sub = [], valid = True, ddl_lock = 0\<rparr>"

definition LOCK_REFRESH_INTERVAL :: u64 where
  "LOCK_REFRESH_INTERVAL = 60"

definition inode_lock :: "u64 \<Rightarrow> inode \<Rightarrow> inode res" where
  "inode_lock now i =
     (if now \<le> ddl_lock i then
        Inl (message_exception EXPECTED_LOCK_CONFLICT
          (fullpath i @ '' file is being edit! ddl_lock: '' @ string_of_nat (unat (ddl_lock i))
           @ '', now: '' @ string_of_nat (unat now)))
      else Inr (i\<lparr>ddl_lock := now + LOCK_REFRESH_INTERVAL\<rparr>))"

definition inode_unlock :: "inode \<Rightarrow> inode" where
  "inode_unlock i = i\<lparr>ddl_lock := 0\<rparr>"

definition update_ddl_lock :: "u64 \<Rightarrow> inode \<Rightarrow> inode" where
  "update_ddl_lock now i = i\<lparr>ddl_lock := now + LOCK_REFRESH_INTERVAL\<rparr>"

definition inode_filename :: "inode \<Rightarrow> string" where
  "inode_filename i = path_filename (fullpath i) @ (if is_directory i then ''/'' else [])"

definition inode_parent_path :: "inode \<Rightarrow> string" where
  "inode_parent_path i = path_parent (fullpath i)"

definition inode_block_size :: "inode \<Rightarrow> int" where
  "inode_block_size i = (case storage_type_ptr i of None \<Rightarrow> 0 | Some st \<Rightarrow> st_block_size st)"

definition inode_eq :: "inode \<Rightarrow> inode \<Rightarrow> bool" where
  "inode_eq l r \<longleftrightarrow> sub l = sub r \<and> filesize l = filesize r"

text \<open>
  The text of one block's placements.  \<^verbatim>\<open>to_string\<close> of the node's name finds the overload for
  \<^verbatim>\<open>Node\<close> through the converting constructor, so the name is parsed and printed again.
\<close>

definition encode_one_sub :: "(string \<times> string) list \<Rightarrow> string res" where
  "encode_one_sub nodes_hashs =
     rbind (rmapM (\<lambda>(n, h). rmap (\<lambda>nd. node_to_string nd @ ''|'' @ h @ '','') (new_node n 0 UNKNOWN))
              nodes_hashs) (\<lambda>ts.
       if concat ts = [] then Inl (Undefined ''pop_back on an empty string'')
       else Inr (butlast (concat ts)))"

definition decode_one_sub :: "string \<Rightarrow> (string \<times> string) list" where
  "decode_one_sub one_sub =
     map (\<lambda>str. let (nd, rest) = getline1 (CHR ''|'') str in (nd, fst (getline1 (CHR ''|'') rest)))
       (getlines (CHR '','') one_sub)"

definition inode_to_json :: "json_lib \<Rightarrow> inode \<Rightarrow> json res" where
  "inode_to_json J i =
     (let ob = jobject [(''fullpath'', JStr (fullpath i)), (''is_directory'', JBool (is_directory i)),
                        (''filesize'', JInt (uint (filesize i))), (''sub'', JArr (map JStr (sub i))),
                        (''valid'', JBool (valid i)), (''ddl_lock'', JInt (uint (ddl_lock i)))]
      in case storage_type_ptr i of
           None \<Rightarrow> Inr (JObj ob)
         | Some st \<Rightarrow> rmap (\<lambda>s. JObj (jset ''storage_type'' (JStr s) ob)) (jdump J (st_to_json st)))"

definition storage_type_from_json :: "json_lib \<Rightarrow> json \<Rightarrow> storage_type option res" where
  "storage_type_from_json J j =
     (case json_find j ''storage_type'' of
        None \<Rightarrow> Inr None
      | Some v \<Rightarrow> rmap Some (rbind (rbind (get_string v) (jparse J)) st_from_json))"

definition inode_from_json :: "json_lib \<Rightarrow> json \<Rightarrow> inode res" where
  "inode_from_json J j =
     rbind (rbind (json_at j ''fullpath'') get_string) (\<lambda>fp.
     rbind (rbind (json_at j ''is_directory'') get_bool) (\<lambda>dir.
     rbind (rbind (json_at j ''filesize'') get_uint64) (\<lambda>fsz.
     rbind (storage_type_from_json J j) (\<lambda>st.
     rbind (rbind (json_at j ''sub'') get_strings) (\<lambda>sb.
     rbind (rbind (json_at j ''valid'') get_bool) (\<lambda>vld.
     rbind (rbind (json_at j ''ddl_lock'') get_uint64) (\<lambda>ddl.
     Inr \<lparr>fullpath = simplify_path fp, is_directory = dir, filesize = fsz, storage_type_ptr = st,
          sub = sb, valid = vld, ddl_lock = ddl\<rparr>)))))))"

definition inode_value :: "json_lib \<Rightarrow> inode \<Rightarrow> string res" where
  "inode_value J i = rbind (inode_to_json J i) (jdump J)"

text \<open>\<^verbatim>\<open>json::parse(value).get<Inode>()\<close>, as every reader of a stored inode does it.\<close>

definition inode_parse :: "json_lib \<Rightarrow> string \<Rightarrow> inode res" where
  "inode_parse J s = rbind (jparse J s) (inode_from_json J)"

section \<open>The types of a stored document\<close>

text \<open>
  The schema of an inode's document, stated apart from the code that reads it: which fields there have
  to be and of which type.  The library reads a boolean as an \<^verbatim>\<open>int\<close>, but not as an \<^verbatim>\<open>uint64_t\<close>.
\<close>

datatype jtype = TString | TBool | TInt | TUint64 | TStrings

fun is_string :: "json \<Rightarrow> bool" where
  "is_string (JStr s) = True"
| "is_string j = False"

fun has_type :: "json \<Rightarrow> jtype \<Rightarrow> bool" where
  "has_type (JStr s) t = (t = TString)"
| "has_type (JBool b) t = (t = TBool \<or> t = TInt)"
| "has_type (JInt i) t = (t = TInt \<or> t = TUint64)"
| "has_type (JArr js) t = (t = TStrings \<and> list_all is_string js)"
| "has_type j t = False"

definition has_field :: "json \<Rightarrow> string \<times> jtype \<Rightarrow> bool" where
  "has_field j kt = (case json_find j (fst kt) of None \<Rightarrow> False | Some v \<Rightarrow> has_type v (snd kt))"

definition st_fields :: "string \<Rightarrow> (string \<times> jtype) list option" where
  "st_fields type =
     (if type = ''RS'' then Some [(''k'', TInt), (''m'', TInt), (''b'', TInt)]
      else if type = ''RE'' then Some [(''replications'', TInt), (''b'', TInt)] else None)"

definition st_typed :: "json \<Rightarrow> bool" where
  "st_typed j =
     (case json_find j ''type'' of
        Some (JStr type) \<Rightarrow> (case st_fields type of Some fs \<Rightarrow> list_all (has_field j) fs | None \<Rightarrow> False)
      | _ \<Rightarrow> False)"

definition inode_fields :: "(string \<times> jtype) list" where
  "inode_fields =
     [(''fullpath'', TString), (''is_directory'', TBool), (''filesize'', TUint64), (''sub'', TStrings), (''valid'', TBool),
      (''ddl_lock'', TUint64)]"

definition inode_typed :: "json_lib \<Rightarrow> json \<Rightarrow> bool" where
  "inode_typed J j \<longleftrightarrow>
     list_all (has_field j) inode_fields \<and>
     (case json_find j ''storage_type'' of
        None \<Rightarrow> True
      | Some (JStr s) \<Rightarrow> (case jparse J s of Inr v \<Rightarrow> st_typed v | Inl _ \<Rightarrow> False)
      | Some _ \<Rightarrow> False)"

section \<open>The contract of a storage type\<close>

text \<open>
  What the SDK relies on: encoding gives \<open>getBlocks\<close> fragments, and any \<open>getDecodeBlocks\<close> of them,
  in their order, decode to the data.
\<close>

locale storage_codec =
  fixes E :: ec_lib and st :: storage_type
  assumes decode_blocks_pos: "0 < getDecodeBlocks st"
    and encode_length: "st_encode E st data = Inr fs \<Longrightarrow> int (length fs) = getBlocks st"
    and decode_encode: "st_encode E st data = Inr fs \<Longrightarrow> subseq gs fs \<Longrightarrow>
      int (length gs) = getDecodeBlocks st \<Longrightarrow> st_decode E st gs = Inr data"
begin

text \<open>The first fragments alone decode, and the code never needs more than it stores.\<close>

lemma decode_prefix:
  "st_encode E st data = Inr fs \<Longrightarrow> getDecodeBlocks st \<le> getBlocks st \<Longrightarrow>
     st_decode E st (take (nat (getDecodeBlocks st)) fs) = Inr data"
  using decode_blocks_pos encode_length [of data fs] decode_encode [of data fs]
  by (metis int_nat_eq length_take min.absorb2 nat_int nat_mono of_nat_0_less_iff order.strict_implies_order
      prefix_imp_subseq take_is_prefix)

text \<open>Which fragments were read makes no difference.\<close>

lemma decode_unique:
  "st_encode E st data = Inr fs \<Longrightarrow> subseq gs fs \<Longrightarrow> subseq hs fs \<Longrightarrow>
     int (length gs) = getDecodeBlocks st \<Longrightarrow> int (length hs) = getDecodeBlocks st \<Longrightarrow>
     st_decode E st gs = st_decode E st hs"
  using decode_encode by metis

end

text \<open>
  The documented behaviour of the erasure-coding library for \<open>k\<close> data and \<open>m\<close> parity fragments:
  encoding produces that many, and any \<open>k\<close> of them decode.
\<close>

definition mds_code :: "ec_lib \<Rightarrow> int \<Rightarrow> int \<Rightarrow> bool" where
  "mds_code E k m \<longleftrightarrow>
     0 < k \<and> 0 \<le> m \<and> k + m < 2 ^ 31 \<and>
     (\<forall>data ds ps. ec_encode E k m data = Inr (ds, ps) \<longrightarrow>
        int (length ds) = k \<and> int (length ps) = m \<and>
        (\<forall>gs. subseq gs (ds @ ps) \<longrightarrow> int (length gs) = k \<longrightarrow>
           ec_decode E k m gs (length (hd gs)) = Inr data))"

text \<open>A code with that property: every fragment carries the data.\<close>

definition copy_code :: ec_lib where
  "copy_code =
     \<lparr>ec_encode = (\<lambda>k m data. Inr (replicate (nat k) data, replicate (nat m) data)),
      ec_decode = (\<lambda>k m gs n. case gs of [] \<Rightarrow> Inl (-1) | g # _ \<Rightarrow> Inr g)\<rparr>"

section \<open>Facts\<close>

subsection \<open>Storage types\<close>

lemma subseq_set: "subseq xs ys \<Longrightarrow> set xs \<subseteq> set ys"
  by (auto simp: subseq_conv_nths dest: in_set_nthsD)

lemma storage_codec_RE:
  assumes "1 \<le> r"
  shows "storage_codec E (RE r b)"
proof
  fix data fs gs
  assume "st_encode E (RE r b) data = Inr fs" "subseq gs fs" "int (length gs) = getDecodeBlocks (RE r b)"
  then have "set gs \<subseteq> {data}" "length gs = 1"
    using subseq_set [of gs fs] by (auto split: if_splits)
  then show "st_decode E (RE r b) gs = Inr data"
    by (cases gs) auto
qed (use assms in auto)

lemma storage_codec_RS:
  assumes "mds_code E k m"
  shows "storage_codec E (RS k m b)"
proof
  show "0 < getDecodeBlocks (RS k m b)" using assms by (simp add: mds_code_def)
next
  fix data fs
  assume "st_encode E (RS k m b) data = Inr fs"
  then show "int (length fs) = getBlocks (RS k m b)"
    using assms by (auto simp: mds_code_def to_int32_id split: sum.splits if_splits)
next
  fix data fs gs
  assume enc: "st_encode E (RS k m b) data = Inr fs" and gs: "subseq gs fs"
    and len: "int (length gs) = getDecodeBlocks (RS k m b)"
  from enc obtain ds ps where e: "ec_encode E k m data = Inr (ds, ps)"
    by (auto split: sum.splits)
  with assms have l: "int (length ds) = k" "int (length ps) = m" and
    dec: "\<And>gs. subseq gs (ds @ ps) \<Longrightarrow> int (length gs) = k \<Longrightarrow>
      ec_decode E k m gs (length (hd gs)) = Inr data"
    and km: "0 < k" "0 \<le> m" "k + m < 2 ^ 31"
    by (auto simp: mds_code_def)
  from e enc l have fs: "fs = ds @ ps" by (auto split: if_splits)
  have "ec_decode E k m gs (length (hd gs)) = Inr data"
    using dec gs len fs by simp
  with len km show "st_decode E (RS k m b) gs = Inr data"
    by (simp add: to_int32_id)
qed

lemma mds_copy_code: "0 < k \<Longrightarrow> 0 \<le> m \<Longrightarrow> k + m < 2 ^ 31 \<Longrightarrow> mds_code copy_code k m"
proof -
  assume km: "0 < k" "0 \<le> m" "k + m < 2 ^ 31"
  have "ec_decode copy_code k m gs n = Inr data"
    if "subseq gs (replicate a data @ replicate b data)" "int (length gs) = k" for gs a b n data
  proof -
    from that have "set gs \<subseteq> {data}" "gs \<noteq> []"
      using km subseq_set [of gs "replicate a data @ replicate b data"] by (auto split: if_splits)
    then show ?thesis by (cases gs) (auto simp: copy_code_def)
  qed
  with km show ?thesis by (auto simp: mds_code_def copy_code_def)
qed

interpretation rs_3_2: storage_codec copy_code "RS 3 2 64"
  by (rule storage_codec_RS) (rule mds_copy_code, simp_all)

interpretation re_5: storage_codec E "RE 5 64" for E
  by (rule storage_codec_RE) simp

definition st_range :: "storage_type \<Rightarrow> bool" where
  "st_range st \<longleftrightarrow>
     (case st of
        RS k m b \<Rightarrow> (\<forall>x \<in> {k, m, b}. - (2 ^ 31) \<le> x \<and> x < 2 ^ 31)
      | RE r b \<Rightarrow> (\<forall>x \<in> {r, b}. - (2 ^ 31) \<le> x \<and> x < 2 ^ 31))"

lemma st_json_roundtrip: "st_range st \<Longrightarrow> st_from_json (st_to_json st) = Inr st"
  by (cases st) (auto simp: st_range_def st_from_json_def jobject_def to_int32_id)

lemma canon_st_to_json: "json_canon (st_to_json st)"
  by (cases st) (auto simp del: json_canon.simps(2) intro!: canon_jobject)

lemma re_lit_append [simp]: "re_lit p (p @ s) = Some s"
  by (simp add: re_lit_def)

lemma re_digits_append:
  "\<not> is_digit d \<Longrightarrow> re_digits (string_of_nat n @ d # s) = Some (string_of_nat n, d # s)"
  using string_of_nat_digits [of n]
  by (simp add: re_digits_def takeWhile_digits_append)

lemma re_lit_comma: "re_lit '','' (CHR '','' # s) = Some s"
  by (simp add: re_lit_def)

lemma not_digit_seps: "\<not> is_digit (CHR '','')" "\<not> is_digit (CHR ''>'')"
  by (simp_all add: is_digit_def)

lemma string_of_int_nonneg: "0 \<le> i \<Longrightarrow> string_of_int i = string_of_nat (nat i)"
  by (simp add: string_of_int_def)

lemma stoi_res_nat: "n < 2 ^ 31 \<Longrightarrow> stoi_res (string_of_nat n) = Inr (int n)"
  by (simp add: stoi_res_def stoi_string_of_nat)

definition st_printable :: "storage_type \<Rightarrow> bool" where
  "st_printable st \<longleftrightarrow>
     (case st of
        RS k m b \<Rightarrow> (\<forall>x \<in> {k, m, b}. 0 \<le> x \<and> x < 2 ^ 31)
      | RE r b \<Rightarrow> (\<forall>x \<in> {r, b}. 0 \<le> x \<and> x < 2 ^ 31))"

lemma match_rs_RE: "match_rs (CHR ''R'' # CHR ''E'' # s) = None"
  by (simp add: match_rs_def re_lit_def)

lemma st_string_roundtrip:
  assumes "st_printable st"
  shows "st_from_string (st_to_string st) = Inr st"
proof (cases st)
  case (RS k m b)
  with assms have r: "0 \<le> k" "k < 2 ^ 31" "0 \<le> m" "m < 2 ^ 31" "0 \<le> b" "b < 2 ^ 31"
    by (auto simp: st_printable_def)
  have "match_rs (st_to_string st) = Some (string_of_int k, string_of_int m, string_of_int b)"
    using RS r re_lit_append [of "''RS<''"]
    by (simp add: match_rs_def string_of_int_nonneg re_digits_append not_digit_seps re_lit_comma
        del: re_lit_append)
  with RS r show ?thesis
    by (simp add: st_from_string_def string_of_int_nonneg stoi_res_nat nat_less_iff)
next
  case (RE r b)
  with assms have r: "0 \<le> r" "r < 2 ^ 31" "0 \<le> b" "b < 2 ^ 31"
    by (auto simp: st_printable_def)
  have "match_re (st_to_string st) = Some (string_of_int r, string_of_int b)"
    using RE r re_lit_append [of "''RE<''"]
    by (simp add: match_re_def string_of_int_nonneg re_digits_append not_digit_seps re_lit_comma
        del: re_lit_append)
  with RE r match_rs_RE show ?thesis
    by (simp add: st_from_string_def string_of_int_nonneg stoi_res_nat nat_less_iff)
qed

lemma st_from_string_range: "st_from_string s = Inr st \<Longrightarrow> st_range st"
  by (auto simp: st_from_string_def st_range_def res_simps dest!: stoi_res_range
      split: option.splits prod.splits)

text \<open>The block size is positive and exact as long as it fits an \<^verbatim>\<open>int\<close>: up to 2047 MB.\<close>

lemma st_block_size_exact:
  "0 \<le> st_b st \<Longrightarrow> st_b st < 2048 \<Longrightarrow> st_block_size st = st_b st * 1048576"
  by (simp add: st_block_size_def to_int32_id)

subsection \<open>Inodes\<close>

definition inode_ok :: "inode \<Rightarrow> bool" where
  "inode_ok i \<longleftrightarrow>
     simplify_path (fullpath i) = fullpath i \<and> (\<forall>st. storage_type_ptr i = Some st \<longrightarrow> st_range st)"

lemma json_no_crash [simp]:
  "no_crash (json_at j k)" "no_crash (get_string j)" "no_crash (get_bool j)" "no_crash (get_int j)"
  "no_crash (get_uint64 j)" "no_crash (get_array j)"
  by (cases j; simp add: json_error_def split: option.splits)+

lemma get_strings_map_JStr [simp]: "get_strings (JArr (map JStr ss)) = Inr ss"
proof -
  have "rmapM get_string (map JStr ss) = Inr ss" by (induction ss) auto
  then show ?thesis by (simp add: get_strings_def)
qed

lemma inode_to_json_canon:
  assumes "inode_to_json J i = Inr j"
  shows "json_canon j"
proof -
  have ob: "json_canon (JObj (jobject [(''fullpath'', JStr (fullpath i)),
      (''is_directory'', JBool (is_directory i)), (''filesize'', JInt (uint (filesize i))),
      (''sub'', JArr (map JStr (sub i))), (''valid'', JBool (valid i)),
      (''ddl_lock'', JInt (uint (ddl_lock i)))]))"
    by (rule canon_jobject) auto
  show ?thesis
  proof (cases "storage_type_ptr i")
    case None
    with assms ob show ?thesis by (simp add: inode_to_json_def del: json_canon.simps)
  next
    case (Some st)
    with assms obtain s where "j = JObj (jset ''storage_type'' (JStr s) (jobject
      [(''fullpath'', JStr (fullpath i)),
      (''is_directory'', JBool (is_directory i)), (''filesize'', JInt (uint (filesize i))),
      (''sub'', JArr (map JStr (sub i))), (''valid'', JBool (valid i)),
      (''ddl_lock'', JInt (uint (ddl_lock i)))]))"
      by (auto simp: inode_to_json_def res_simps)
    with canon_jset [OF ob, of "JStr s" "''storage_type''"] show ?thesis
      by (simp del: json_canon.simps(2))
  qed
qed

context json_codec
begin

lemma inode_from_to_json:
  assumes "inode_to_json J i = Inr j" and "inode_ok i"
  shows "inode_from_json J j = Inr i"
proof (cases "storage_type_ptr i")
  case None
  with assms show ?thesis
    by (auto simp: inode_to_json_def inode_from_json_def storage_type_from_json_def jobject_def
        inode_ok_def)
next
  case (Some st)
  with assms obtain s where s: "jdump J (st_to_json st) = Inr s"
    and j: "j = JObj (jset ''storage_type'' (JStr s) (jobject
      [(''fullpath'', JStr (fullpath i)), (''is_directory'', JBool (is_directory i)),
       (''filesize'', JInt (uint (filesize i))), (''sub'', JArr (map JStr (sub i))),
       (''valid'', JBool (valid i)), (''ddl_lock'', JInt (uint (ddl_lock i)))]))"
    by (auto simp: inode_to_json_def res_simps)
  have "jparse J s = Inr (st_to_json st)" by (rule parse_dump [OF canon_st_to_json s])
  moreover have "st_from_json (st_to_json st) = Inr st"
    using assms(2) Some by (simp add: inode_ok_def st_json_roundtrip)
  ultimately show ?thesis
    using Some assms(2)
    by (simp add: j inode_from_json_def storage_type_from_json_def jobject_def inode_ok_def)
qed

lemma inode_parse_value:
  assumes "inode_value J i = Inr s" and "inode_ok i"
  shows "inode_parse J s = Inr i"
proof -
  from assms(1) obtain j where j: "inode_to_json J i = Inr j" "jdump J j = Inr s"
    by (auto simp: inode_value_def res_simps)
  have "jparse J s = Inr j" by (rule parse_dump [OF inode_to_json_canon [OF j(1)] j(2)])
  then show ?thesis by (simp add: inode_parse_def inode_from_to_json [OF j(1) assms(2)])
qed

lemma dump_no_crash [simp]: "no_crash (jdump J j)"
  using dump_throws by (auto simp: no_crash_def)

lemma parse_no_crash [simp]: "no_crash (jparse J s)"
  using parse_throws by (auto simp: no_crash_def)

lemma inode_value_no_crash [simp]: "no_crash (inode_value J i)"
  by (auto simp: inode_value_def inode_to_json_def Let_def intro!: no_crash_rules split: option.splits)

lemma inode_parse_no_crash [simp]: "no_crash (inode_parse J s)"
  by (auto simp: inode_parse_def inode_from_json_def storage_type_from_json_def st_from_json_def
      get_strings_def intro!: no_crash_rules split: option.splits)

end

lemma st_from_json_range: "st_from_json j = Inr st \<Longrightarrow> st_range st"
proof -
  have int: "get_int v = Inr x \<Longrightarrow> - (2 ^ 31) \<le> x \<and> x < 2 ^ 31" for v x
    using to_int32_range by (cases v) auto
  show "st_from_json j = Inr st \<Longrightarrow> st_range st"
    by (auto simp: st_from_json_def st_range_def res_simps dest!: int split: if_splits)
qed

text \<open>Whatever is read from the store is in normal form.\<close>

lemma inode_parse_ok: "inode_parse J s = Inr i \<Longrightarrow> inode_ok i"
  by (auto simp: inode_parse_def inode_from_json_def storage_type_from_json_def inode_ok_def res_simps
      split: option.splits) (erule st_from_json_range)

lemma inode_ok_set_fullpath: "inode_ok (set_fullpath p (new_inode u))"
  by (simp add: inode_ok_def set_fullpath_def new_inode_def)

lemma inode_ok_default_dir: "inode_ok (get_default_dir p)"
  by (simp add: inode_ok_def get_default_dir_def)

lemma inode_ok_update [simp]:
  "inode_ok (i\<lparr>is_directory := d\<rparr>) = inode_ok i" "inode_ok (i\<lparr>filesize := f\<rparr>) = inode_ok i"
  "inode_ok (i\<lparr>sub := ss\<rparr>) = inode_ok i" "inode_ok (i\<lparr>valid := v\<rparr>) = inode_ok i"
  "inode_ok (i\<lparr>ddl_lock := l\<rparr>) = inode_ok i"
  by (simp_all add: inode_ok_def)

subsection \<open>Locks\<close>

lemma inode_lock_Inr:
  "inode_lock now i = Inr i' \<longleftrightarrow> ddl_lock i < now \<and> i' = i\<lparr>ddl_lock := now + LOCK_REFRESH_INTERVAL\<rparr>"
  by (auto simp: inode_lock_def not_le)

lemma inode_lock_conflict:
  "now \<le> ddl_lock i \<longleftrightarrow>
     (\<exists>info. inode_lock now i = Inl (message_exception EXPECTED_LOCK_CONFLICT info))"
  by (auto simp: inode_lock_def)

text \<open>
  A lock taken at \<open>now\<close> refuses every further \<open>lock\<close> for the next sixty seconds and none after
  that, as long as the clock does not reach the end of its range.
\<close>

lemma inode_lock_excludes:
  assumes "inode_lock now i = Inr i'" and "unat now + 60 < 2 ^ 64"
  shows "unat t \<le> unat now + 60 \<longleftrightarrow> (\<exists>e. inode_lock t i' = Inl e)"
proof -
  have "unat (now + 60) = unat now + 60"
    using assms(2) by (simp add: unat_word_ariths)
  then have "t \<le> now + 60 \<longleftrightarrow> unat t \<le> unat now + 60"
    by (simp add: word_le_nat_alt)
  with assms(1) show ?thesis
    by (auto simp: inode_lock_def LOCK_REFRESH_INTERVAL_def split: if_splits)
qed

subsection \<open>Placements\<close>

definition placement_ok :: "string \<times> string \<Rightarrow> bool" where
  "placement_ok nh \<longleftrightarrow>
     (\<exists>nd. addr_ok nd \<and> CHR ''|'' \<notin> set (ip nd) \<and> fst nh = node_to_string nd) \<and>
     CHR ''|'' \<notin> set (snd nh) \<and> CHR '','' \<notin> set (snd nh)"

lemma string_of_int_no_bar: "CHR ''|'' \<notin> set (string_of_int i)"
proof -
  have "CHR ''|'' \<notin> set (string_of_nat n)" for n
    using string_of_nat_digits [of n] by (auto simp: is_digit_def)
  then show ?thesis by (simp add: string_of_int_def)
qed

lemma placement_node:
  assumes "placement_ok (n, h)"
  shows "rmap node_to_string (new_node n 0 UNKNOWN) = Inr n"
    and "CHR ''|'' \<notin> set n" and "CHR '','' \<notin> set n"
proof -
  from assms obtain nd where nd: "addr_ok nd" "CHR ''|'' \<notin> set (ip nd)" "n = node_to_string nd"
    by (auto simp: placement_ok_def)
  from nd(1) show "rmap node_to_string (new_node n 0 UNKNOWN) = Inr n"
    unfolding nd(3) by (simp only: new_node_def node_from_string_to_string) (simp add: node_to_string_def)
  from nd show "CHR ''|'' \<notin> set n" and "CHR '','' \<notin> set n"
    using string_of_int_no_bar node_to_string_no_comma by (auto simp: node_to_string_def)
qed

lemma placement_tokens:
  assumes "\<forall>nh \<in> set nhs. placement_ok nh"
  shows "rmapM (\<lambda>(n, h). rmap (\<lambda>nd. node_to_string nd @ ''|'' @ h @ '','') (new_node n 0 UNKNOWN)) nhs
    = Inr (map (\<lambda>(n, h). n @ ''|'' @ h @ '','') nhs)"
proof (rule rmapM_Inr)
  fix nh assume "nh \<in> set nhs"
  moreover obtain n h where nh: "nh = (n, h)" by (cases nh)
  ultimately obtain nd where "new_node n 0 UNKNOWN = Inr nd" "node_to_string nd = n"
    using assms placement_node(1) [of n h] by (auto simp: rmap_Inr_iff)
  with nh show "(case nh of (n, h) \<Rightarrow> rmap (\<lambda>nd. node_to_string nd @ ''|'' @ h @ '','') (new_node n 0 UNKNOWN))
      = Inr (case nh of (n, h) \<Rightarrow> n @ ''|'' @ h @ '','')" by simp
qed

lemma getlines_placements:
  assumes "\<forall>nh \<in> set nhs. placement_ok nh"
  shows "getlines (CHR '','') (butlast (concat (map (\<lambda>(n, h). n @ ''|'' @ h @ '','') nhs)))
    = map (\<lambda>(n, h). n @ CHR ''|'' # h) nhs"
  using assms
proof (induction nhs)
  case (Cons nh nhs)
  obtain n h where nh: "nh = (n, h)" by (cases nh)
  let ?rest = "concat (map (\<lambda>(n, h). n @ ''|'' @ h @ '','') nhs)"
  have t: "CHR '','' \<notin> set (n @ CHR ''|'' # h)" "n @ CHR ''|'' # h \<noteq> []"
    using Cons.prems nh placement_node(3) [of n h] by (auto simp: placement_ok_def)
  have e: "getlines (CHR '','') (butlast ((n @ CHR ''|'' # h) @ CHR '','' # ?rest))
      = (n @ CHR ''|'' # h) # getlines (CHR '','') (butlast ?rest)"
    by (simp only: getlines_butlast [OF t] getlines_delim [OF t(1)])
  have c: "concat (map (\<lambda>(n, h). n @ ''|'' @ h @ '','') (nh # nhs)) = (n @ CHR ''|'' # h) @ CHR '','' # ?rest"
    using nh by simp
  have IH: "getlines (CHR '','') (butlast ?rest) = map (\<lambda>(n, h). n @ CHR ''|'' # h) nhs"
    using Cons.IH Cons.prems by simp
  show ?case unfolding c e IH using nh by simp
qed simp

lemma decode_encode_one_sub:
  assumes "\<forall>nh \<in> set nhs. placement_ok nh" and "nhs \<noteq> []"
  shows "rmap decode_one_sub (encode_one_sub nhs) = Inr nhs"
proof -
  have ne: "concat (map (\<lambda>(n, h). n @ ''|'' @ h @ '','') nhs) \<noteq> []"
    using assms(2) by (cases nhs) auto
  have "map (\<lambda>str. let (nd, rest) = getline1 (CHR ''|'') str in (nd, fst (getline1 (CHR ''|'') rest)))
      (map (\<lambda>(n, h). n @ CHR ''|'' # h) nhs) = nhs"
    unfolding map_map
  proof (rule map_idI)
    fix nh assume "nh \<in> set nhs"
    then have "placement_ok nh" using assms(1) by blast
    then show "((\<lambda>str. let (nd, rest) = getline1 (CHR ''|'') str in (nd, fst (getline1 (CHR ''|'') rest)))
        \<circ> (\<lambda>(n, h). n @ CHR ''|'' # h)) nh = nh"
      using placement_node(2) [of "fst nh" "snd nh"]
      by (cases nh) (simp add: getline1_delim getline1_last placement_ok_def)
  qed
  then show ?thesis
    by (simp only: encode_one_sub_def placement_tokens [OF assms(1)] rbind.simps ne if_False
        rmap.simps decode_one_sub_def getlines_placements [OF assms(1)])
qed

section \<open>Reading by the schema\<close>

lemma rmapM_get_string: "\<not> isl (rmapM get_string js) \<longleftrightarrow> list_all is_string js"
proof (induction js)
  case (Cons j js)
  then show ?case by (cases j; cases "rmapM get_string js") auto
qed simp

lemma field_typed_gen:
  "(\<And>v. \<not> isl (f v) \<longleftrightarrow> has_type v t) \<Longrightarrow> \<not> isl (rbind (json_at j k) f) \<longleftrightarrow> has_field j (k, t)"
  by (cases j) (auto simp: has_field_def split: option.splits)

lemma get_typed:
  "\<not> isl (get_string v) \<longleftrightarrow> has_type v TString" "\<not> isl (get_bool v) \<longleftrightarrow> has_type v TBool"
  "\<not> isl (get_int v) \<longleftrightarrow> has_type v TInt" "\<not> isl (get_uint64 v) \<longleftrightarrow> has_type v TUint64"
  "\<not> isl (get_strings v) \<longleftrightarrow> has_type v TStrings"
  by (cases v; simp add: get_strings_def rmapM_get_string)+

lemmas field_typed = get_typed [THEN field_typed_gen]

lemma not_isl_rbind: "\<not> isl (rbind x f) \<longleftrightarrow> (\<exists>v. x = Inr v \<and> \<not> isl (f v))"
  by (cases x) auto

lemma not_isl_rmap: "\<not> isl (rmap f x) \<longleftrightarrow> \<not> isl x"
  by (cases x) auto

lemma ex_Inr: "(\<exists>v. x = Inr v) \<longleftrightarrow> \<not> isl x"
  by (cases x) auto

lemma string_field: "rbind (json_at j k) get_string = Inr s \<longleftrightarrow> json_find j k = Some (JStr s)"
proof (cases j)
  case (JObj kvs)
  have "get_string v = Inr s \<longleftrightarrow> v = JStr s" for v by (cases v) auto
  with JObj show ?thesis by (auto split: option.splits)
qed auto

lemma st_typed_alt:
  "st_typed j \<longleftrightarrow> (\<exists>type fs. json_find j ''type'' = Some (JStr type) \<and> st_fields type = Some fs \<and> list_all (has_field j) fs)"
  by (auto simp: st_typed_def split: option.split json.split)

lemma st_from_json_typed: "\<not> isl (st_from_json j) \<longleftrightarrow> st_typed j"
proof -
  have "\<not> isl (if type = ''RS'' then
      rbind (rbind (json_at j ''k'') get_int) (\<lambda>k. rbind (rbind (json_at j ''m'') get_int) (\<lambda>m.
        rmap (RS k m) (rbind (json_at j ''b'') get_int)))
    else if type = ''RE'' then rbind (rbind (json_at j ''replications'') get_int) (\<lambda>r. rmap (RE r) (rbind (json_at j ''b'') get_int))
    else Inl (StdException ''Unknown StorageType'')) \<longleftrightarrow> (\<exists>fs. st_fields type = Some fs \<and> list_all (has_field j) fs)" for type
    by (simp add: st_fields_def not_isl_rbind [of "rbind _ get_int"] not_isl_rmap ex_Inr field_typed)
  then show ?thesis
    unfolding st_from_json_def not_isl_rbind [of "rbind (json_at j ''type'') get_string"] string_field st_typed_alt by simp
qed

lemma storage_type_typed:
  "\<not> isl (storage_type_from_json J j) \<longleftrightarrow>
     (case json_find j ''storage_type'' of
        None \<Rightarrow> True
      | Some (JStr s) \<Rightarrow> (case jparse J s of Inr v \<Rightarrow> st_typed v | Inl _ \<Rightarrow> False)
      | Some _ \<Rightarrow> False)"
  by (auto simp: storage_type_from_json_def not_isl_rmap st_from_json_typed split: option.splits json.splits sum.splits)

lemma inode_from_json_typed: "\<not> isl (inode_from_json J j) \<longleftrightarrow> inode_typed J j"
  unfolding inode_from_json_def inode_typed_def storage_type_typed [symmetric]
  by (simp add: inode_fields_def not_isl_rbind [of "rbind _ get_string"] not_isl_rbind [of "rbind _ get_bool"]
      not_isl_rbind [of "rbind _ get_uint64"] not_isl_rbind [of "rbind _ get_strings"]
      not_isl_rbind [of "storage_type_from_json J j"] ex_Inr field_typed) blast

section \<open>Properties\<close>

text \<open>
C19: An inode survives the store: whatever codec the JSON library is, parsing what \<open>value\<close> prints
gives back the same inode, its storage type nested as text included, when its path is in normal form.
\<close>

theorem inode_text_roundtrip:
  assumes "json_codec J" and "inode_ok i" and "inode_value J i = Inr s"
  shows "inode_parse J s = Inr i"
  by (rule json_codec.inode_parse_value [OF assms(1,3,2)])

theorem inode_text_roundtrip_witness:
  "\<exists>s. inode_value text_json ((get_default_dir ''/a'')\<lparr>storage_type_ptr := Some (RS 3 2 64)\<rparr>) = Inr s \<and>
     inode_parse text_json s = Inr ((get_default_dir ''/a'')\<lparr>storage_type_ptr := Some (RS 3 2 64)\<rparr>)"
proof -
  let ?i = "(get_default_dir ''/a'')\<lparr>storage_type_ptr := Some (RS 3 2 64)\<rparr>"
  have "\<not> isl (inode_value text_json ?i)" by code_simp
  then obtain s where s: "inode_value text_json ?i = Inr s" by (cases "inode_value text_json ?i") auto
  have "inode_ok ?i" by (simp add: inode_ok_def get_default_dir_def st_range_def)
  from inode_text_roundtrip [OF text_codec.json_codec_axioms this s] s show ?thesis by blast
qed





end
