(* ===== verification/RocksDB.thy ===== *)
theory RocksDB
  imports Inode
begin

text \<open>
  \<^verbatim>\<open>include/node/rocksdb.h\<close> and \<^verbatim>\<open>src/node/rocksdb.cpp\<close>: the namespace as inodes in a key-value
  store.  The store and its backup engine are third-party code: \<open>kv_lib\<close> holds their operations as
  parameters, and the locales \<open>kv_store\<close>, \<open>kv_reliable\<close> and \<open>kv_snapshots\<close> the documented behaviour
  the code relies on, through a view of the store as a map.  The second half refines the operations
  to a namespace of inodes: \<open>ns_of\<close> reads a store as a map from paths to inodes, and every
  \<^verbatim>\<open>internal_\<close> operation acts on it as the abstract operation of the same name.
\<close>

section \<open>The store\<close>

datatype db_status = StOk | StNotFound | StErr string

fun status_text :: "db_status \<Rightarrow> string" where
  "status_text StOk = ''OK''"
| "status_text StNotFound = ''NotFound: ''"
| "status_text (StErr e) = e"

type_synonym batch = "(string \<times> string) list"

record ('db, 'bk) kv_lib =
  kv_get :: "'db \<Rightarrow> string \<Rightarrow> db_status \<times> string"
  kv_put :: "'db \<Rightarrow> string \<Rightarrow> string \<Rightarrow> 'db \<times> db_status"
  kv_write :: "'db \<Rightarrow> batch \<Rightarrow> 'db \<times> db_status"
  kv_backup :: "'db \<Rightarrow> 'bk \<Rightarrow> 'bk \<times> db_status"
  kv_restore :: "'bk \<Rightarrow> 'db \<Rightarrow> 'db \<times> db_status"
  kv_open :: "'db \<Rightarrow> db_status"

text \<open>
  The object: whether \<^verbatim>\<open>db_ptr\<close> is set, the contents of the origin directory, and the backup
  engine's state.
\<close>

record ('db, 'bk) rocksdb =
  db_ready :: bool
  store :: "'db"
  backups :: "'bk"

definition rdb_open :: "('db, 'bk) kv_lib \<Rightarrow> ('db, 'bk) rocksdb \<Rightarrow> ('db, 'bk) rocksdb res" where
  "rdb_open K r =
     (if kv_open K (store r) = StOk then Inr (r\<lparr>db_ready := True\<rparr>) else Inl (Abort ''assert s.ok()''))"

definition rdb_close :: "('db, 'bk) rocksdb \<Rightarrow> ('db, 'bk) rocksdb" where
  "rdb_close r = r\<lparr>db_ready := False\<rparr>"

definition snapshot :: "('db, 'bk) kv_lib \<Rightarrow> ('db, 'bk) rocksdb \<Rightarrow> ('db, 'bk) rocksdb res" where
  "snapshot K r =
     (if \<not> db_ready r then Inl (StdException ''db not ready'')
      else case kv_backup K (store r) (backups r) of
        (bk, s) \<Rightarrow> if s = StOk then Inr (r\<lparr>backups := bk\<rparr>) else Inl (Abort ''assert s.ok()''))"

definition load_snapshot :: "('db, 'bk) kv_lib \<Rightarrow> ('db, 'bk) rocksdb \<Rightarrow> ('db, 'bk) rocksdb res" where
  "load_snapshot K r =
     (let r1 = rdb_close r
      in case kv_restore K (backups r1) (store r1) of
        (db, s) \<Rightarrow> if s = StOk then rdb_open K (r1\<lparr>store := db\<rparr>) else Inl (Abort ''assert s.ok()''))"

section \<open>Reading\<close>

definition not_ready :: "string \<Rightarrow> exn" where
  "not_ready func = StdException (func @ ''db not ready'')"

definition path_exists :: "json_lib \<Rightarrow> ('db, 'bk) kv_lib \<Rightarrow> ('db, 'bk) rocksdb \<Rightarrow> string \<Rightarrow> bool res" where
  "path_exists J K r path =
     (if path = ''/'' then Inr True
      else if \<not> db_ready r then Inl (not_ready ''path_exists'')
      else case kv_get K (store r) path of
        (StNotFound, v) \<Rightarrow> Inr False
      | (StErr e, v) \<Rightarrow> Inl (StdException ''unknown error rocksdb get()'')
      | (StOk, v) \<Rightarrow> rmap valid (inode_parse J v))"

definition try_to_rm :: "json_lib \<Rightarrow> ('db, 'bk) kv_lib \<Rightarrow> ('db, 'bk) rocksdb \<Rightarrow> inode \<Rightarrow> unit res" where
  "try_to_rm J K r i =
     rbind (path_exists J K r (fullpath i)) (\<lambda>ex.
       if \<not> ex then Inl (message_exception PATH_NOT_EXISTS_EXCEPTION (fullpath i)) else Inr ())"

definition try_to_add :: "json_lib \<Rightarrow> ('db, 'bk) kv_lib \<Rightarrow> ('db, 'bk) rocksdb \<Rightarrow> inode \<Rightarrow> unit res" where
  "try_to_add J K r i =
     rbind (path_exists J K r (inode_parent_path i)) (\<lambda>pex.
       if \<not> pex then Inl (message_exception PATH_NOT_EXISTS_EXCEPTION (inode_parent_path i))
       else rbind (path_exists J K r (fullpath i)) (\<lambda>ex.
         if ex then Inl (message_exception PATH_EXISTS_EXCEPTION (fullpath i)) else Inr ()))"

definition get_inode :: "json_lib \<Rightarrow> ('db, 'bk) kv_lib \<Rightarrow> ('db, 'bk) rocksdb \<Rightarrow> inode \<Rightarrow> inode res" where
  "get_inode J K r i =
     (if \<not> db_ready r then Inl (not_ready ''get_inode'')
      else case kv_get K (store r) (fullpath i) of
        (StNotFound, v) \<Rightarrow>
          if fullpath i = ''/'' then Inr (i\<lparr>is_directory := True, valid := True\<rparr>)
          else Inr (i\<lparr>valid := False\<rparr>)
      | (StErr e, v) \<Rightarrow> Inl (StdException e)
      | (StOk, v) \<Rightarrow> inode_parse J v)"

definition rdb_ls :: "json_lib \<Rightarrow> ('db, 'bk) kv_lib \<Rightarrow> ('db, 'bk) rocksdb \<Rightarrow> inode \<Rightarrow> inode res" where
  "rdb_ls J K r i =
     rbind (get_inode J K r i) (\<lambda>i'.
       if \<not> valid i' then Inl (message_exception PATH_NOT_EXISTS_EXCEPTION (fullpath i')) else Inr i')"

definition rdb_get :: "json_lib \<Rightarrow> ('db, 'bk) kv_lib \<Rightarrow> ('db, 'bk) rocksdb \<Rightarrow> inode \<Rightarrow> inode res" where
  "rdb_get J K r i =
     (if \<not> db_ready r then Inl (not_ready ''get'')
      else rbind (get_inode J K r i) (\<lambda>i'.
        if \<not> valid i' then Inl (message_exception PATH_NOT_EXISTS_EXCEPTION (fullpath i'))
        else if is_directory i' then Inl (StdException ''cannot get directory'')
        else Inr i'))"

section \<open>Preparing a change\<close>

definition prepare_mkdir :: "json_lib \<Rightarrow> ('db, 'bk) kv_lib \<Rightarrow> ('db, 'bk) rocksdb \<Rightarrow> inode \<Rightarrow> inode res" where
  "prepare_mkdir J K r i =
     (if \<not> db_ready r then Inl (not_ready ''prepare_mkdir'') else rmap (\<lambda>_. i) (try_to_add J K r i))"

definition prepare_put ::
    "json_lib \<Rightarrow> ('db, 'bk) kv_lib \<Rightarrow> u64 \<Rightarrow> ('db, 'bk) rocksdb \<Rightarrow> inode \<Rightarrow> inode res" where
  "prepare_put J K now r i =
     (if \<not> db_ready r then Inl (not_ready ''prepare_put'')
      else rbind (get_inode J K r i) (\<lambda>i'.
        if valid i' \<and> is_directory i' then
          Inl (message_exception PATH_EXISTS_EXCEPTION (fullpath i'))
        else inode_lock now (i'\<lparr>is_directory := False, valid := True\<rparr>)))"

definition prepare_put_ok :: "json_lib \<Rightarrow> ('db, 'bk) kv_lib \<Rightarrow> ('db, 'bk) rocksdb \<Rightarrow> inode \<Rightarrow> inode res" where
  "prepare_put_ok J K r i =
     (if \<not> db_ready r then Inl (not_ready ''prepare_put_ok'')
      else rbind (inode_value J i) (\<lambda>_.
           rbind (get_inode J K r i) (\<lambda>i'.
             if \<not> valid i' then Inl (message_exception PATH_NOT_EXISTS_EXCEPTION (fullpath i'))
             else if is_directory i' then Inl (message_exception EXPECTED_FILE_EXCEPTION (fullpath i'))
             else Inr i')))"

definition prepare_rm :: "json_lib \<Rightarrow> ('db, 'bk) kv_lib \<Rightarrow> ('db, 'bk) rocksdb \<Rightarrow> inode \<Rightarrow> inode res" where
  "prepare_rm J K r i = rmap (\<lambda>_. i\<lparr>valid := False\<rparr>) (try_to_rm J K r i)"

section \<open>Applying a change\<close>

definition get_parent_inode :: "json_lib \<Rightarrow> ('db, 'bk) kv_lib \<Rightarrow> ('db, 'bk) rocksdb \<Rightarrow> inode \<Rightarrow> inode res" where
  "get_parent_inode J K r i =
     (case kv_get K (store r) (inode_parent_path i) of
        (StNotFound, v) \<Rightarrow>
          if inode_parent_path i = ''/'' then Inr (get_default_dir ''/'')
          else Inl (Abort ''assert inode.parent_path() == \"/\"'')
      | (StOk, v) \<Rightarrow> inode_parse J v
      | (StErr e, v) \<Rightarrow> Inl (StdException (''parent add sub, internal get not ok'' @ e)))"

text \<open>\<^verbatim>\<open>find\<close> and \<^verbatim>\<open>push_back\<close>; \<^verbatim>\<open>erase\<close> of \<^verbatim>\<open>remove\<close>.\<close>

definition add_sub :: "string \<Rightarrow> inode \<Rightarrow> inode" where
  "add_sub name p = (if name \<in> set (sub p) then p else p\<lparr>sub := sub p @ [name]\<rparr>)"

definition erase_sub :: "string \<Rightarrow> inode \<Rightarrow> inode" where
  "erase_sub name p = p\<lparr>sub := filter (\<lambda>x. x \<noteq> name) (sub p)\<rparr>"

type_synonym ('db, 'bk) db_action = "('db, 'bk) rocksdb \<Rightarrow> unit res \<times> ('db, 'bk) rocksdb"

text \<open>Two inodes in one write batch, and what a failed write throws.\<close>

definition write_two ::
    "json_lib \<Rightarrow> ('db, 'bk) kv_lib \<Rightarrow> string \<Rightarrow> inode \<Rightarrow> inode \<Rightarrow> ('db, 'bk) db_action" where
  "write_two J K err p i r =
     (case rbind (inode_value J p) (\<lambda>pv. rmap (\<lambda>iv. [(fullpath p, pv), (fullpath i, iv)]) (inode_value J i)) of
        Inl e \<Rightarrow> (Inl e, r)
      | Inr b \<Rightarrow>
          (case kv_write K (store r) b of
             (db, s) \<Rightarrow> (if s = StOk then Inr () else Inl (StdException (err @ status_text s)), r\<lparr>store := db\<rparr>)))"

definition internal_rm :: "json_lib \<Rightarrow> ('db, 'bk) kv_lib \<Rightarrow> inode \<Rightarrow> ('db, 'bk) db_action" where
  "internal_rm J K i r =
     (if \<not> db_ready r then (Inl (not_ready ''internal_rm''), r)
      else case get_parent_inode J K r i of
        Inl e \<Rightarrow> (Inl e, r)
      | Inr p \<Rightarrow> write_two J K ''batch write not ok!'' (erase_sub (inode_filename i) p) i r)"

text \<open>\<open>garbage\<close> is the indeterminate \<open>valid\<close> of the local \<^verbatim>\<open>Inode db_inode\<close>.\<close>

definition internal_put_ok :: "json_lib \<Rightarrow> ('db, 'bk) kv_lib \<Rightarrow> bool \<Rightarrow> inode \<Rightarrow> ('db, 'bk) db_action" where
  "internal_put_ok J K garbage i r =
     (if \<not> db_ready r then (Inl (not_ready ''internal_put_ok''), r)
      else case get_parent_inode J K r i of
        Inl e \<Rightarrow> (Inl e, r)
      | Inr p \<Rightarrow>
          (case get_inode J K r (set_fullpath (fullpath i) (new_inode garbage)) of
             Inl e \<Rightarrow> (Inl e, r)
           | Inr d \<Rightarrow>
               (case inode_value J i of
                  Inl e \<Rightarrow> (Inl e, r)
                | Inr _ \<Rightarrow>
                    write_two J K ''batch write not ok'' (add_sub (inode_filename i) p)
                      ((inode_unlock d)\<lparr>sub := sub i, filesize := filesize i\<rparr>) r)))"

definition internal_put :: "json_lib \<Rightarrow> ('db, 'bk) kv_lib \<Rightarrow> inode \<Rightarrow> ('db, 'bk) db_action" where
  "internal_put J K i r =
     (if \<not> db_ready r then (Inl (not_ready ''internal_put''), r)
      else case inode_value J i of
        Inl e \<Rightarrow> (Inl e, r)
      | Inr v \<Rightarrow>
          (case kv_put K (store r) (fullpath i) v of
             (db, s) \<Rightarrow> (if s = StOk then Inr () else Inl (StdException (''internal put not ok'' @ status_text s)),
                         r\<lparr>store := db\<rparr>)))"

definition internal_mkdir :: "json_lib \<Rightarrow> ('db, 'bk) kv_lib \<Rightarrow> inode \<Rightarrow> ('db, 'bk) db_action" where
  "internal_mkdir J K i r =
     (if \<not> db_ready r then (Inl (not_ready ''internal_mkdir''), r)
      else case inode_value J i of
        Inl e \<Rightarrow> (Inl e, r)
      | Inr _ \<Rightarrow>
          (case get_parent_inode J K r i of
             Inl e \<Rightarrow> (Inl e, r)
           | Inr p \<Rightarrow> write_two J K ''batch write not ok'' (add_sub (inode_filename i) p) i r))"

section \<open>What the code relies on in the store\<close>

locale kv_store =
  fixes K :: "('db, 'bk) kv_lib" and view :: "'db \<Rightarrow> string \<rightharpoonup> string"
  assumes get_found: "kv_get K db k = (StOk, v) \<Longrightarrow> view db k = Some v"
    and get_missing: "kv_get K db k = (StNotFound, v) \<Longrightarrow> view db k = None"
    and put_stored: "kv_put K db k v = (db', StOk) \<Longrightarrow> view db' = (view db)(k \<mapsto> v)"
    and put_failed: "kv_put K db k v = (db', s) \<Longrightarrow> s \<noteq> StOk \<Longrightarrow> view db' = view db"
    and write_stored: "kv_write K db b = (db', StOk) \<Longrightarrow> view db' = view db ++ map_of (rev b)"
    and write_failed: "kv_write K db b = (db', s) \<Longrightarrow> s \<noteq> StOk \<Longrightarrow> view db' = view db"

text \<open>Without input/output errors every call of the store does its work.\<close>

locale kv_reliable = kv_store +
  assumes get_total: "fst (kv_get K db k) = StOk \<or> fst (kv_get K db k) = StNotFound"
    and put_total: "snd (kv_put K db k v) = StOk"
    and write_total: "snd (kv_write K db b) = StOk"

text \<open>The backup engine: \<open>latest\<close> is the contents of the newest backup.\<close>

locale kv_snapshots = kv_store K view
  for K :: "('db, 'bk) kv_lib" and view :: "'db \<Rightarrow> string \<rightharpoonup> string" +
  fixes latest :: "'bk \<Rightarrow> (string \<rightharpoonup> string) option"
  assumes backup_latest: "kv_backup K db bk = (bk', StOk) \<Longrightarrow> latest bk' = Some (view db)"
    and restore_latest: "kv_restore K bk db = (db', StOk) \<Longrightarrow> latest bk = Some (view db')"
begin

lemma load_after_snapshot:
  assumes "snapshot K r = Inr r1" and "backups r2 = backups r1" and "load_snapshot K r2 = Inr r3"
  shows "view (store r3) = view (store r)" and "db_ready r3"
proof -
  from assms(1) have "latest (backups r1) = Some (view (store r))"
    by (auto simp: snapshot_def backup_latest split: if_splits prod.splits)
  moreover from assms(3) have "latest (backups r2) = Some (view (store r3))" "db_ready r3"
    by (auto simp: load_snapshot_def rdb_close_def rdb_open_def Let_def
        dest: restore_latest split: if_splits prod.splits)
  ultimately show "view (store r3) = view (store r)" and "db_ready r3"
    using assms(2) by auto
qed

end

section \<open>The namespace\<close>

type_synonym namespace = "string \<rightharpoonup> inode"

definition ns_of :: "json_lib \<Rightarrow> ('db \<Rightarrow> string \<rightharpoonup> string) \<Rightarrow> 'db \<Rightarrow> namespace" where
  "ns_of J view db p =
     (case view db p of
        None \<Rightarrow> None
      | Some s \<Rightarrow> (case inode_parse J s of Inl _ \<Rightarrow> None | Inr i \<Rightarrow> Some i))"

text \<open>Every stored value is an inode under its own path.\<close>

definition db_ok :: "json_lib \<Rightarrow> ('db \<Rightarrow> string \<rightharpoonup> string) \<Rightarrow> 'db \<Rightarrow> bool" where
  "db_ok J view db \<longleftrightarrow>
     (\<forall>p s. view db p = Some s \<longrightarrow> (\<exists>i. inode_parse J s = Inr i \<and> fullpath i = p))"

definition a_exists :: "namespace \<Rightarrow> string \<Rightarrow> bool" where
  "a_exists ns p \<longleftrightarrow> p = ''/'' \<or> (case ns p of None \<Rightarrow> False | Some i \<Rightarrow> valid i)"

definition a_get :: "namespace \<Rightarrow> inode \<Rightarrow> inode" where
  "a_get ns i =
     (case ns (fullpath i) of
        Some i' \<Rightarrow> i'
      | None \<Rightarrow> if fullpath i = ''/'' then i\<lparr>is_directory := True, valid := True\<rparr> else i\<lparr>valid := False\<rparr>)"

text \<open>The parent an operation updates; \<open>None\<close> is the failed assertion.\<close>

definition a_parent :: "namespace \<Rightarrow> inode \<Rightarrow> inode option" where
  "a_parent ns i =
     (case ns (inode_parent_path i) of
        Some p \<Rightarrow> Some p
      | None \<Rightarrow> if inode_parent_path i = ''/'' then Some (get_default_dir ''/'') else None)"

definition a_mkdir :: "inode \<Rightarrow> namespace \<Rightarrow> namespace option" where
  "a_mkdir i ns =
     map_option (\<lambda>p. ns(fullpath p \<mapsto> add_sub (inode_filename i) p, fullpath i \<mapsto> i)) (a_parent ns i)"

definition a_put :: "inode \<Rightarrow> namespace \<Rightarrow> namespace option" where
  "a_put i ns = Some (ns(fullpath i \<mapsto> i))"

definition a_put_ok :: "bool \<Rightarrow> inode \<Rightarrow> namespace \<Rightarrow> namespace option" where
  "a_put_ok garbage i ns =
     map_option (\<lambda>p. ns(fullpath p \<mapsto> add_sub (inode_filename i) p,
                        fullpath i \<mapsto> (inode_unlock (a_get ns (set_fullpath (fullpath i) (new_inode garbage))))
                                       \<lparr>sub := sub i, filesize := filesize i\<rparr>)) (a_parent ns i)"

definition a_rm :: "inode \<Rightarrow> namespace \<Rightarrow> namespace option" where
  "a_rm i ns =
     map_option (\<lambda>p. ns(fullpath p \<mapsto> erase_sub (inode_filename i) p, fullpath i \<mapsto> i)) (a_parent ns i)"

text \<open>\<open>refines r res ns'\<close>: the action's outcome against the abstract one.\<close>

definition action_refines ::
    "json_lib \<Rightarrow> ('db \<Rightarrow> string \<rightharpoonup> string) \<Rightarrow> ('db, 'bk) rocksdb \<Rightarrow> unit res \<times> ('db, 'bk) rocksdb \<Rightarrow>
     namespace option \<Rightarrow> bool" where
  "action_refines J view r out ans \<longleftrightarrow>
     db_ready (snd out) = db_ready r \<and> backups (snd out) = backups r \<and> db_ok J view (store (snd out)) \<and>
     (case fst out of
        Inr _ \<Rightarrow> ans = Some (ns_of J view (store (snd out)))
      | Inl e \<Rightarrow> view (store (snd out)) = view (store r))"

section \<open>Facts\<close>

lemma add_sub_simps [simp]:
  "fullpath (add_sub n p) = fullpath p" "is_directory (add_sub n p) = is_directory p"
  "valid (add_sub n p) = valid p" "set (sub (add_sub n p)) = insert n (set (sub p))"
  "inode_ok (add_sub n p) = inode_ok p" "storage_type_ptr (add_sub n p) = storage_type_ptr p"
  by (auto simp: add_sub_def)

lemma distinct_add_sub [simp]: "distinct (sub (add_sub n p)) = distinct (sub p)"
  by (simp add: add_sub_def)

lemma erase_sub_simps [simp]:
  "fullpath (erase_sub n p) = fullpath p" "is_directory (erase_sub n p) = is_directory p"
  "valid (erase_sub n p) = valid p" "set (sub (erase_sub n p)) = set (sub p) - {n}"
  "inode_ok (erase_sub n p) = inode_ok p"
  by (auto simp: erase_sub_def)

lemma fullpath_simps [simp]:
  "fullpath (inode_unlock i) = fullpath i" "fullpath (set_fullpath p i) = simplify_path p"
  "fullpath (get_default_dir p) = simplify_path p" "inode_ok (inode_unlock i) = inode_ok i"
  by (simp_all add: inode_unlock_def set_fullpath_def get_default_dir_def)

lemma simplify_root [simp]: "simplify_path ''/'' = ''/''"
  using simplify_path_abs [of "[]"] by (simp add: render_root names_ok_def)

locale meta_store = kv_store K view + json_codec J
  for K :: "('db, 'bk) kv_lib" and view :: "'db \<Rightarrow> string \<rightharpoonup> string" and J :: json_lib
begin

abbreviation ns :: "('db, 'bk) rocksdb \<Rightarrow> namespace" where
  "ns r \<equiv> ns_of J view (store r)"

lemma db_okE:
  assumes "db_ok J view db" and "view db p = Some s"
  obtains i where "inode_parse J s = Inr i" and "fullpath i = p" and "ns_of J view db p = Some i"
proof -
  from assms obtain i where i: "inode_parse J s = Inr i" "fullpath i = p" unfolding db_ok_def by blast
  with assms(2) have "ns_of J view db p = Some i" by (simp add: ns_of_def)
  with i show thesis by (rule that)
qed

lemma ns_Some:
  assumes "db_ok J view db" and "ns_of J view db p = Some i"
  shows "fullpath i = p" and "inode_ok i"
proof -
  from assms(2) obtain s where "view db p = Some s" by (auto simp: ns_of_def split: option.splits)
  with assms(1) obtain i' where "inode_parse J s = Inr i'" "fullpath i' = p" "ns_of J view db p = Some i'"
    by (rule db_okE)
  with assms(2) show "fullpath i = p" and "inode_ok i" by (auto dest: inode_parse_ok)
qed

lemma ns_None: "db_ok J view db \<Longrightarrow> ns_of J view db p = None \<longleftrightarrow> view db p = None"
  by (cases "view db p") (auto simp: ns_of_def elim: db_okE)

lemma get_inode_Inr:
  assumes "db_ok J view (store r)" and "get_inode J K r i = Inr i'"
  shows "i' = a_get (ns r) i" and "db_ready r"
  using assms
  by (auto simp: get_inode_def a_get_def ns_of_def dest: get_found get_missing
      split: if_splits prod.splits db_status.splits option.splits)

lemma path_exists_Inr:
  assumes "db_ok J view (store r)" and "path_exists J K r p = Inr b"
  shows "b = a_exists (ns r) p"
  using assms
  by (auto simp: path_exists_def a_exists_def ns_of_def res_simps dest!: get_found get_missing
      split: if_splits prod.splits db_status.splits option.splits)

lemma get_parent_inode_Inr:
  assumes "db_ok J view (store r)" and "get_parent_inode J K r i = Inr p"
  shows "a_parent (ns r) i = Some p"
  using assms
  by (auto simp: get_parent_inode_def a_parent_def ns_of_def dest!: get_found get_missing
      split: if_splits prod.splits db_status.splits option.splits)

lemma get_parent_inode_Abort:
  assumes "db_ok J view (store r)" and "get_parent_inode J K r i = Inl (Abort w)"
  shows "a_parent (ns r) i = None"
proof -
  have "inode_parse J v \<noteq> Inl (Abort w)" if "kv_get K (store r) (inode_parent_path i) = (StOk, v)" for v
    using assms(1) get_found [OF that] by (auto elim: db_okE)
  with assms show ?thesis
    by (auto simp: get_parent_inode_def a_parent_def ns_of_def dest!: get_missing
        split: if_splits prod.splits db_status.splits option.splits)
qed

lemma a_parent_path: "db_ok J view db \<Longrightarrow> a_parent (ns_of J view db) i = Some p \<Longrightarrow> fullpath p = inode_parent_path i \<and> inode_ok p"
  by (auto simp: a_parent_def inode_ok_default_dir dest: ns_Some split: option.splits if_splits)

text \<open>Storing inodes in normal form keeps the store well formed and updates the namespace.\<close>

lemma ns_of_update:
  assumes "view db' = (view db)(fullpath i \<mapsto> v)" and "inode_value J i = Inr v" and "inode_ok i"
  shows "ns_of J view db' = (ns_of J view db)(fullpath i \<mapsto> i)" and "db_ok J view db \<Longrightarrow> db_ok J view db'"
  using assms inode_parse_value [OF assms(2,3)] by (auto simp: ns_of_def db_ok_def fun_eq_iff)

lemma write_two_refines:
  assumes ok: "db_ok J view (store r)" and i: "inode_ok p" "inode_ok i"
  shows "action_refines J view r (write_two J K err p i r) (Some ((ns r)(fullpath p \<mapsto> p, fullpath i \<mapsto> i)))"
proof (cases "rbind (inode_value J p) (\<lambda>pv. rmap (\<lambda>iv. [(fullpath p, pv), (fullpath i, iv)]) (inode_value J i))")
  case (Inl e)
  with ok show ?thesis by (simp add: write_two_def action_refines_def)
next
  case (Inr b)
  then obtain pv iv where v: "inode_value J p = Inr pv" "inode_value J i = Inr iv"
    and b: "b = [(fullpath p, pv), (fullpath i, iv)]" by (auto simp: res_simps)
  obtain db s where w: "kv_write K (store r) b = (db, s)" by (cases "kv_write K (store r) b")
  show ?thesis
  proof (cases "s = StOk")
    case False
    with w have "view db = view (store r)" by (rule write_failed)
    with False Inr w ok show ?thesis by (simp add: write_two_def action_refines_def db_ok_def)
  next
    case True
    with w have "view db = view (store r) ++ map_of (rev b)" using write_stored by simp
    then have "view db = (view (store r))(fullpath p \<mapsto> pv, fullpath i \<mapsto> iv)" by (simp add: b)
    then have "ns_of J view db = (ns r)(fullpath p \<mapsto> p, fullpath i \<mapsto> i)" and "db_ok J view db"
      using ok inode_parse_value [OF v(1) i(1)] inode_parse_value [OF v(2) i(2)]
      by (auto simp: ns_of_def db_ok_def fun_eq_iff)
    with True Inr w show ?thesis by (simp add: write_two_def action_refines_def)
  qed
qed

lemma refines_error: "db_ok J view (store r) \<Longrightarrow> action_refines J view r (Inl e, r) ans"
  by (simp add: action_refines_def)

lemma internal_mkdir_refines:
  assumes "db_ok J view (store r)" and "inode_ok i"
  shows "action_refines J view r (internal_mkdir J K i r) (a_mkdir i (ns r))"
proof (cases "get_parent_inode J K r i")
  case (Inr p)
  then have "a_parent (ns r) i = Some p" using assms(1) get_parent_inode_Inr by blast
  moreover then have "inode_ok p" using assms(1) a_parent_path by blast
  ultimately show ?thesis
    using assms Inr write_two_refines [of r "add_sub (inode_filename i) p" i]
    by (auto simp: internal_mkdir_def a_mkdir_def refines_error split: sum.splits)
qed (use assms in \<open>auto simp: internal_mkdir_def refines_error split: sum.splits\<close>)

lemma internal_rm_refines:
  assumes "db_ok J view (store r)" and "inode_ok i"
  shows "action_refines J view r (internal_rm J K i r) (a_rm i (ns r))"
proof (cases "get_parent_inode J K r i")
  case (Inr p)
  then have "a_parent (ns r) i = Some p" using assms(1) get_parent_inode_Inr by blast
  moreover then have "inode_ok p" using assms(1) a_parent_path by blast
  ultimately show ?thesis
    using assms Inr write_two_refines [of r "erase_sub (inode_filename i) p" i]
    by (auto simp: internal_rm_def a_rm_def refines_error split: sum.splits)
qed (use assms in \<open>auto simp: internal_rm_def refines_error split: sum.splits\<close>)

lemma a_get_ok:
  assumes "db_ok J view db" and "inode_ok i"
  shows "inode_ok (a_get (ns_of J view db) i) \<and> fullpath (a_get (ns_of J view db) i) = fullpath i"
  using assms by (auto simp: a_get_def dest: ns_Some split: option.splits)

lemma internal_put_ok_refines:
  assumes ok: "db_ok J view (store r)" and i: "inode_ok i"
  shows "action_refines J view r (internal_put_ok J K g i r) (a_put_ok g i (ns r))"
proof (cases "get_parent_inode J K r i")
  case p: (Inr p)
  let ?q = "set_fullpath (fullpath i) (new_inode g)"
  from p have par: "a_parent (ns r) i = Some p" using ok get_parent_inode_Inr by blast
  then have "inode_ok p" using ok a_parent_path by blast
  show ?thesis
  proof (cases "get_inode J K r ?q")
    case (Inr d)
    then have d: "d = a_get (ns r) ?q" using ok get_inode_Inr by blast
    have "inode_ok d" "fullpath d = fullpath i"
      using a_get_ok [OF ok inode_ok_set_fullpath] i unfolding d by (simp_all add: inode_ok_def)
    then show ?thesis
      using ok i p par Inr d \<open>inode_ok p\<close>
        write_two_refines [of r "add_sub (inode_filename i) p" "(inode_unlock d)\<lparr>sub := sub i, filesize := filesize i\<rparr>"]
      by (auto simp: internal_put_ok_def a_put_ok_def refines_error split: sum.splits)
  qed (use ok p in \<open>auto simp: internal_put_ok_def refines_error split: sum.splits\<close>)
qed (use ok in \<open>auto simp: internal_put_ok_def refines_error split: sum.splits\<close>)

lemma internal_put_refines:
  assumes ok: "db_ok J view (store r)" and i: "inode_ok i"
  shows "action_refines J view r (internal_put J K i r) (a_put i (ns r))"
proof (cases "inode_value J i")
  case (Inr v)
  obtain db s where p: "kv_put K (store r) (fullpath i) v = (db, s)"
    by (cases "kv_put K (store r) (fullpath i) v")
  show ?thesis
  proof (cases "s = StOk")
    case True
    with p have "view db = (view (store r))(fullpath i \<mapsto> v)" using put_stored by simp
    with ns_of_update [OF this Inr i] True Inr p ok show ?thesis
      by (simp add: internal_put_def action_refines_def a_put_def)
  next
    case False
    with p have "view db = view (store r)" by (rule put_failed)
    with False Inr p ok show ?thesis by (simp add: internal_put_def action_refines_def db_ok_def)
  qed
qed (use ok in \<open>auto simp: internal_put_def refines_error\<close>)

lemmas internal_refines =
  internal_mkdir_refines internal_rm_refines internal_put_refines internal_put_ok_refines

end

section \<open>A store without input and output errors\<close>

text \<open>Whether the library accepts the inode's text (it refuses strings that are not UTF-8).\<close>

definition dumps :: "json_lib \<Rightarrow> inode \<Rightarrow> bool" where
  "dumps J i \<longleftrightarrow> (\<exists>v. inode_value J i = Inr v)"

locale meta_reliable = meta_store K view J + kv_reliable K view
  for K :: "('db, 'bk) kv_lib" and view :: "'db \<Rightarrow> string \<rightharpoonup> string" and J :: json_lib
begin

lemma kv_get_cases:
  obtains v where "kv_get K db k = (StOk, v)" and "view db k = Some v"
  | v where "kv_get K db k = (StNotFound, v)" and "view db k = None"
  using get_total [of db k] get_found get_missing by (cases "kv_get K db k") auto

lemma get_inode_total:
  assumes "db_ok J view (store r)" and "db_ready r"
  shows "get_inode J K r i = Inr (a_get (ns r) i)"
proof (cases rule: kv_get_cases [of "store r" "fullpath i"])
  case (1 v)
  with assms show ?thesis by (auto simp: get_inode_def a_get_def elim: db_okE)
next
  case (2 v)
  with assms show ?thesis by (auto simp: get_inode_def a_get_def ns_of_def)
qed

lemma path_exists_total:
  assumes "db_ok J view (store r)" and "db_ready r"
  shows "path_exists J K r p = Inr (a_exists (ns r) p)"
proof (cases rule: kv_get_cases [of "store r" p])
  case (1 v)
  with assms show ?thesis by (auto simp: path_exists_def a_exists_def elim: db_okE)
next
  case (2 v)
  with assms show ?thesis by (auto simp: path_exists_def a_exists_def ns_of_def)
qed

lemma get_parent_inode_total:
  assumes "db_ok J view (store r)"
  shows "get_parent_inode J K r i =
    (case a_parent (ns r) i of
       Some p \<Rightarrow> Inr p | None \<Rightarrow> Inl (Abort ''assert inode.parent_path() == \"/\"''))"
proof (cases rule: kv_get_cases [of "store r" "inode_parent_path i"])
  case (1 v)
  with assms show ?thesis by (auto simp: get_parent_inode_def a_parent_def elim: db_okE)
next
  case (2 v)
  with assms show ?thesis by (auto simp: get_parent_inode_def a_parent_def ns_of_def)
qed

lemma write_two_total:
  assumes "dumps J p" and "dumps J i"
  shows "fst (write_two J K err p i r) = Inr ()"
  using assms write_total by (auto simp: write_two_def dumps_def split: prod.splits) (metis snd_conv)

lemma refines_Inr:
  assumes "action_refines J view r out ans" and "fst out = Inr ()"
  shows "ans = Some (ns (snd out))" and "db_ok J view (store (snd out))" and "db_ready (snd out) = db_ready r"
  using assms by (auto simp: action_refines_def)

text \<open>With its parent present and the two inodes printable, each operation succeeds.\<close>

lemma internal_mkdir_total:
  assumes "db_ok J view (store r)" "db_ready r" "a_parent (ns r) i = Some p"
    "dumps J (add_sub (inode_filename i) p)" "dumps J i"
  shows "fst (internal_mkdir J K i r) = Inr ()"
  using assms write_two_total [of "add_sub (inode_filename i) p" i]
  by (auto simp: internal_mkdir_def get_parent_inode_total dumps_def)

lemma internal_rm_total:
  assumes "db_ok J view (store r)" "db_ready r" "a_parent (ns r) i = Some p"
    "dumps J (erase_sub (inode_filename i) p)" "dumps J i"
  shows "fst (internal_rm J K i r) = Inr ()"
  using assms write_two_total [of "erase_sub (inode_filename i) p" i]
  by (auto simp: internal_rm_def get_parent_inode_total)

lemma internal_put_total:
  assumes "db_ready r" "dumps J i"
  shows "fst (internal_put J K i r) = Inr ()"
  using assms put_total by (auto simp: internal_put_def dumps_def split: prod.splits) (metis snd_conv)

lemma internal_put_ok_total:
  assumes "db_ok J view (store r)" "db_ready r" "a_parent (ns r) i = Some p"
    "dumps J (add_sub (inode_filename i) p)" "dumps J i"
    "dumps J ((inode_unlock (a_get (ns r) (set_fullpath (fullpath i) (new_inode g))))
                \<lparr>sub := sub i, filesize := filesize i\<rparr>)"
  shows "fst (internal_put_ok J K g i r) = Inr ()"
  using assms write_two_total [of "add_sub (inode_filename i) p"]
  by (auto simp: internal_put_ok_def get_parent_inode_total get_inode_total dumps_def)

text \<open>Without the parent, the replica ends at the assertion.\<close>

lemma internal_put_ok_abort:
  assumes "db_ok J view (store r)" "db_ready r" "a_parent (ns r) i = None"
  shows "\<exists>w. internal_put_ok J K g i r = (Inl (Abort w), r)"
  using assms by (auto simp: internal_put_ok_def get_parent_inode_total)

end

section \<open>An in-memory store\<close>

text \<open>A store that satisfies every law: a map, with the list of its backups.\<close>

definition map_kv :: "(string \<rightharpoonup> string, (string \<rightharpoonup> string) list) kv_lib" where
  "map_kv =
     \<lparr>kv_get = (\<lambda>m k. case m k of None \<Rightarrow> (StNotFound, []) | Some v \<Rightarrow> (StOk, v)),
      kv_put = (\<lambda>m k v. (m(k \<mapsto> v), StOk)),
      kv_write = (\<lambda>m b. (m ++ map_of (rev b), StOk)),
      kv_backup = (\<lambda>m bk. (m # bk, StOk)),
      kv_restore = (\<lambda>bk m. case bk of [] \<Rightarrow> (m, StErr ''no backup'') | b # _ \<Rightarrow> (b, StOk)),
      kv_open = (\<lambda>m. StOk)\<rparr>"

definition map_latest :: "(string \<rightharpoonup> string) list \<Rightarrow> (string \<rightharpoonup> string) option" where
  "map_latest bk = (case bk of [] \<Rightarrow> None | b # _ \<Rightarrow> Some b)"

interpretation map_db: kv_reliable map_kv "\<lambda>m. m"
  by unfold_locales (auto simp: map_kv_def split: option.splits)

interpretation map_snap: kv_snapshots map_kv "\<lambda>m. m" map_latest
  by unfold_locales (auto simp: map_kv_def map_latest_def split: list.splits)

interpretation map_meta: meta_reliable map_kv "\<lambda>m. m" text_json ..

definition empty_db :: "(string \<rightharpoonup> string, (string \<rightharpoonup> string) list) rocksdb" where
  "empty_db = \<lparr>db_ready = True, store = Map.empty, backups = []\<rparr>"

lemma empty_db_ok: "db_ok J (\<lambda>m. m) (store empty_db)" "db_ready empty_db" "ns_of J (\<lambda>m. m) (store empty_db) = Map.empty"
  by (simp_all add: empty_db_def db_ok_def ns_of_def fun_eq_iff)

lemma map_meta_store: "meta_store map_kv (\<lambda>m. m) text_json"
  by unfold_locales

lemma map_meta_reliable: "meta_reliable map_kv (\<lambda>m. m) text_json"
  by unfold_locales

end
