(* ===== verification/RaftNN.thy ===== *)
theory RaftNN
  imports RocksDB
begin

text \<open>
  \<^verbatim>\<open>include/node/raft_nn.h\<close> and \<^verbatim>\<open>src/node/raft_nn.cpp\<close>: the namenode's replicated state machine.
  A log entry is one byte for the operation and the text of an inode; \<open>on_apply\<close> runs committed
  entries on the namespace store and answers the closures that wait for them.  The consensus
  library (braft) is not modelled: it delivers the same entries in the same order to every replica,
  and \<open>deterministic_log\<close> shows what follows for replicas that start from the same namespace.
\<close>

section \<open>Log entries\<close>

datatype op_type = OP_MKDIR | OP_PUT | OP_PUTOK | OP_RM | OP_UNKNOWN

fun op_code :: "op_type \<Rightarrow> nat" where
  "op_code OP_MKDIR = 0"
| "op_code OP_PUT = 1"
| "op_code OP_PUTOK = 2"
| "op_code OP_RM = 3"
| "op_code OP_UNKNOWN = 4"

text \<open>\<^verbatim>\<open>buf.push_back(op); buf.append(value)\<close>.\<close>

definition entry :: "op_type \<Rightarrow> string \<Rightarrow> string" where
  "entry op v = char_of (op_code op) # v"

text \<open>
  \<^verbatim>\<open>data.cutn(&type, 1)\<close>: the first byte replaces the low byte of \<open>OP_UNKNOWN\<close>; an empty entry
  leaves it.
\<close>

definition cut_type :: "string \<Rightarrow> nat \<times> string" where
  "cut_type data = (case data of [] \<Rightarrow> (op_code OP_UNKNOWN, []) | c # s \<Rightarrow> (of_char c, s))"

definition apply_entry ::
    "json_lib \<Rightarrow> ('db, 'bk) kv_lib \<Rightarrow> bool \<Rightarrow> string \<Rightarrow> ('db, 'bk) db_action" where
  "apply_entry J K garbage data r =
     (let (type, str_inode) = cut_type data
      in case inode_parse J str_inode of
           Inl e \<Rightarrow> (Inl e, r)
         | Inr i \<Rightarrow>
             if type = op_code OP_MKDIR then internal_mkdir J K i r
             else if type = op_code OP_PUT then internal_put J K i r
             else if type = op_code OP_PUTOK then internal_put_ok J K garbage i r
             else if type = op_code OP_RM then internal_rm J K i r
             else (Inr (), r))"

text \<open>
  One iteration of \<^verbatim>\<open>RaftNN::on_apply\<close> with the response of its closure, if this replica has one:
  the response afterwards, or the end of the process.
\<close>

definition apply_one ::
    "json_lib \<Rightarrow> ('db, 'bk) kv_lib \<Rightarrow> bool \<Rightarrow> string \<times> response option \<Rightarrow> ('db, 'bk) rocksdb \<Rightarrow>
     response option res \<times> ('db, 'bk) rocksdb" where
  "apply_one J K garbage e r =
     (case apply_entry J K garbage (fst e) r of
        (Inr _, r') \<Rightarrow> (Inr (map_option succ_response (snd e)), r')
      | (Inl x, r') \<Rightarrow>
          (case fail_response x (case snd e of Some c \<Rightarrow> c | None \<Rightarrow> empty_response) of
             Inl x' \<Rightarrow> (Inl x', r')
           | Inr c' \<Rightarrow> (Inr (map_option (\<lambda>_. c') (snd e)), r')))"

fun on_apply ::
    "json_lib \<Rightarrow> ('db, 'bk) kv_lib \<Rightarrow> bool \<Rightarrow> (string \<times> response option) list \<Rightarrow> ('db, 'bk) rocksdb \<Rightarrow>
     response option list res \<times> ('db, 'bk) rocksdb" where
  "on_apply J K garbage [] r = (Inr [], r)"
| "on_apply J K garbage (e # es) r =
     (case apply_one J K garbage e r of
        (Inl x, r') \<Rightarrow> (Inl x, r')
      | (Inr c, r') \<Rightarrow>
          (case on_apply J K garbage es r' of (cs, r'') \<Rightarrow> (rmap (\<lambda>l. c # l) cs, r'')))"

section \<open>Leadership and membership\<close>

text \<open>\<^verbatim>\<open>RaftNN::leader\<close>: an unknown leader counts as this node.\<close>

definition nn_leader :: "string \<Rightarrow> int \<Rightarrow> (string \<times> int) option \<Rightarrow> node" where
  "nn_leader my_ip nn_port leader_id =
     (case leader_id of
        None \<Rightarrow> default_node\<lparr>ip := my_ip, port := nn_port\<rparr>
      | Some (i, p) \<Rightarrow> default_node\<lparr>ip := i, port := p\<rparr>)"

datatype raft_call = CallChangePeers string | CallResetPeers string

text \<open>The call made on the raft node, and the peers remembered.\<close>

definition change_peers :: "node list \<Rightarrow> (raft_call \<times> node list) res" where
  "change_peers namenodes = rmap (\<lambda>s. (CallChangePeers s, namenodes)) (nodes_to_string namenodes)"

definition reset_peers :: "node list \<Rightarrow> (raft_call \<times> node list) res" where
  "reset_peers namenodes = rmap (\<lambda>s. (CallResetPeers s, namenodes)) (nodes_to_string namenodes)"

definition nn_on_snapshot_save :: "('db, 'bk) kv_lib \<Rightarrow> ('db, 'bk) rocksdb \<Rightarrow> ('db, 'bk) rocksdb res" where
  "nn_on_snapshot_save K r = snapshot K r"

definition nn_on_snapshot_load :: "('db, 'bk) kv_lib \<Rightarrow> ('db, 'bk) rocksdb \<Rightarrow> (int \<times> ('db, 'bk) rocksdb) res" where
  "nn_on_snapshot_load K r = rmap (\<lambda>r'. (0, r')) (load_snapshot K r)"

section \<open>Replicated logs\<close>

text \<open>
  A state machine whose output and next abstract state depend on the abstract state only, and which
  halts at some outputs.  Two replicas that agree then agree after any log, on the outputs too.
\<close>

locale deterministic_log =
  fixes step :: "'e \<Rightarrow> 's \<Rightarrow> 'o \<times> 's" and halts :: "'o \<Rightarrow> bool" and abs :: "'s \<Rightarrow> 'a" and inv :: "'s \<Rightarrow> bool"
  assumes step_inv: "inv s \<Longrightarrow> inv (snd (step e s))"
    and step_agree: "inv s \<Longrightarrow> inv t \<Longrightarrow> abs s = abs t \<Longrightarrow>
      fst (step e s) = fst (step e t) \<and> abs (snd (step e s)) = abs (snd (step e t))"
begin

fun run :: "'e list \<Rightarrow> 's \<Rightarrow> 'o list \<times> 's \<times> bool" where
  "run [] s = ([], s, True)"
| "run (e # es) s =
     (if halts (fst (step e s)) then ([fst (step e s)], snd (step e s), False)
      else (fst (step e s) # fst (run es (snd (step e s))), snd (run es (snd (step e s)))))"

abbreviation final :: "'o list \<times> 's \<times> bool \<Rightarrow> 's" where
  "final x \<equiv> fst (snd x)"

abbreviation alive :: "'o list \<times> 's \<times> bool \<Rightarrow> bool" where
  "alive x \<equiv> snd (snd x)"

lemma run_inv: "inv s \<Longrightarrow> inv (final (run es s))"
proof (induction es arbitrary: s)
  case (Cons e es)
  have s': "inv (snd (step e s))" by (rule step_inv) (rule Cons.prems)
  then have "inv (final (run es (snd (step e s))))" by (rule Cons.IH)
  with s' show ?case by simp
qed simp

lemma replicas_agree:
  assumes "inv s" and "inv t" and "abs s = abs t"
  shows "fst (run es s) = fst (run es t) \<and> abs (final (run es s)) = abs (final (run es t)) \<and>
    alive (run es s) = alive (run es t)"
  using assms
proof (induction es arbitrary: s t)
  case (Cons e es)
  have inv': "inv (snd (step e s))" "inv (snd (step e t))"
    by (rule step_inv, rule Cons.prems)+
  have eq: "fst (step e s) = fst (step e t)" "abs (snd (step e s)) = abs (snd (step e t))"
    using step_agree [OF Cons.prems, of e] by blast+
  from Cons.IH [OF inv' eq(2)] eq show ?case by simp
qed simp

lemma run_append:
  "alive (run es s) \<Longrightarrow> final (run (es @ fs) s) = final (run fs (final (run es s)))"
proof (induction es arbitrary: s)
  case (Cons e es)
  then show ?case by (auto split: if_splits)
qed simp

text \<open>
  A replica restored to a state that agrees with the one after a prefix of the log, and given the
  rest, agrees with one that ran all of it.
\<close>

lemma restored_agree:
  assumes "inv s" and "inv t" and "alive (run es s)" and "abs t = abs (final (run es s))"
  shows "abs (final (run fs t)) = abs (final (run (es @ fs) s))"
  using replicas_agree [OF assms(2) run_inv [OF assms(1)] assms(4)] run_append [OF assms(3)] by simp

end

section \<open>Facts\<close>

lemma op_code_less: "op_code op < 256"
  by (cases op) auto

lemma op_code_inject [simp]: "op_code a = op_code b \<longleftrightarrow> a = b"
  by (cases a; cases b) auto

lemma cut_type_entry [simp]: "cut_type (entry op v) = (op_code op, v)"
  using op_code_less [of op] by (simp add: cut_type_def entry_def)

text \<open>The abstract effect of an operation.\<close>

fun a_apply :: "bool \<Rightarrow> op_type \<Rightarrow> inode \<Rightarrow> namespace \<Rightarrow> namespace option" where
  "a_apply g OP_MKDIR i ns = a_mkdir i ns"
| "a_apply g OP_PUT i ns = a_put i ns"
| "a_apply g OP_PUTOK i ns = a_put_ok g i ns"
| "a_apply g OP_RM i ns = a_rm i ns"
| "a_apply g OP_UNKNOWN i ns = Some ns"

context meta_store
begin

lemma apply_entry_refines:
  assumes "db_ok J view (store r)" and "inode_value J i = Inr v" and "inode_ok i"
  shows "action_refines J view r (apply_entry J K g (entry op v) r) (a_apply g op i (ns r))"
proof -
  have "inode_parse J v = Inr i" by (rule inode_parse_value [OF assms(2,3)])
  then show ?thesis
    using internal_refines [OF assms(1,3)] assms(1)
    by (cases op) (simp_all add: apply_entry_def action_refines_def)
qed

text \<open>Every entry, whatever is in it, keeps the store well formed.\<close>

lemma apply_entry_db_ok:
  assumes "db_ok J view (store r)"
  shows "db_ok J view (store (snd (apply_entry J K g d r))) \<and>
    db_ready (snd (apply_entry J K g d r)) = db_ready r"
proof (cases "inode_parse J (snd (cut_type d))")
  case (Inr i)
  then have "inode_ok i" by (rule inode_parse_ok)
  from internal_refines [OF assms this] show ?thesis
    using Inr assms by (auto simp: apply_entry_def action_refines_def split_def Let_def)
qed (use assms in \<open>simp add: apply_entry_def split_def Let_def\<close>)

lemma apply_one_db_ok:
  assumes "db_ok J view (store r)"
  shows "db_ok J view (store (snd (apply_one J K g e r))) \<and> db_ready (snd (apply_one J K g e r)) = db_ready r"
  using apply_entry_db_ok [OF assms, of g "fst e"]
  by (auto simp: apply_one_def split: prod.splits sum.splits option.splits)

lemma on_apply_db_ok:
  assumes "db_ok J view (store r)"
  shows "db_ok J view (store (snd (on_apply J K g es r))) \<and> db_ready (snd (on_apply J K g es r)) = db_ready r"
  using assms
proof (induction es arbitrary: r)
  case (Cons e es)
  obtain c r' where e: "apply_one J K g e r = (c, r')" by (cases "apply_one J K g e r")
  with apply_one_db_ok [OF Cons.prems, of g e] have r': "db_ok J view (store r')" "db_ready r' = db_ready r"
    by auto
  with e Cons.IH [OF r'(1)] show ?case by (auto split: sum.splits prod.splits)
qed simp

end

context meta_reliable
begin

text \<open>What an operation does to the namespace, and its result, depend on the namespace alone.\<close>

definition same :: "('db, 'bk) rocksdb \<Rightarrow> ('db, 'bk) rocksdb \<Rightarrow> unit res \<times> ('db, 'bk) rocksdb \<Rightarrow>
    unit res \<times> ('db, 'bk) rocksdb \<Rightarrow> bool" where
  "same r s a b \<longleftrightarrow> fst a = fst b \<and> ns (snd a) = ns (snd b)"

lemma refines_same:
  assumes "action_refines J view r a ans" and "action_refines J view s b ans"
    and "ns r = ns s" and "fst a = fst b"
  shows "same r s a b"
proof (cases "fst a")
  case (Inl e)
  with assms(4) have "fst b = Inl e" by simp
  with Inl assms(1,2) have "view (store (snd a)) = view (store r)" "view (store (snd b)) = view (store s)"
    by (simp_all add: action_refines_def)
  then have "ns (snd a) = ns r" "ns (snd b) = ns s" by (simp_all add: ns_of_def fun_eq_iff)
  with assms show ?thesis by (simp add: same_def)
next
  case (Inr u)
  with assms(4) have "fst b = Inr u" by simp
  with Inr assms show ?thesis by (simp add: action_refines_def same_def)
qed

lemma write_two_fst:
  "fst (write_two J K err p i r) =
     rbind (inode_value J p) (\<lambda>_. rmap (\<lambda>_. ()) (inode_value J i))"
  using write_total
  by (cases "inode_value J p"; cases "inode_value J i")
    (auto simp: write_two_def split: prod.splits, metis snd_conv)

lemma apply_entry_same:
  assumes r: "db_ok J view (store r)" "db_ready r" and s: "db_ok J view (store s)" "db_ready s"
    and eq: "ns r = ns s"
  shows "same r s (apply_entry J K g d r) (apply_entry J K g d s)"
proof (cases "inode_parse J (snd (cut_type d))")
  case (Inl e)
  with eq show ?thesis by (simp add: apply_entry_def split_def Let_def same_def)
next
  case (Inr i)
  then have ok: "inode_ok i" by (rule inode_parse_ok)
  have parent: "get_parent_inode J K r i = get_parent_inode J K s i"
    using r s eq by (simp add: get_parent_inode_total)
  have inode: "get_inode J K r q = get_inode J K s q" for q
    using r s eq by (simp add: get_inode_total)
  have "fst (internal_mkdir J K i r) = fst (internal_mkdir J K i s)"
    using r s parent by (simp add: internal_mkdir_def write_two_fst split: sum.splits)
  then have mkdir: "same r s (internal_mkdir J K i r) (internal_mkdir J K i s)"
    by (rule refines_same [OF internal_mkdir_refines [OF r(1) ok]
          internal_mkdir_refines [OF s(1) ok, folded eq] eq])
  have "fst (internal_rm J K i r) = fst (internal_rm J K i s)"
    using r s parent by (simp add: internal_rm_def write_two_fst split: sum.splits)
  then have rm: "same r s (internal_rm J K i r) (internal_rm J K i s)"
    by (rule refines_same [OF internal_rm_refines [OF r(1) ok]
          internal_rm_refines [OF s(1) ok, folded eq] eq])
  have "fst (internal_put_ok J K g i r) = fst (internal_put_ok J K g i s)"
    using r s parent inode by (simp add: internal_put_ok_def write_two_fst split: sum.splits)
  then have put_ok: "same r s (internal_put_ok J K g i r) (internal_put_ok J K g i s)"
    by (rule refines_same [OF internal_put_ok_refines [OF r(1) ok]
          internal_put_ok_refines [OF s(1) ok, folded eq] eq])
  have "fst (internal_put J K i r) = fst (internal_put J K i s)"
    using r s put_total by (auto simp: internal_put_def split: sum.splits prod.splits) (metis snd_conv)+
  then have put: "same r s (internal_put J K i r) (internal_put J K i s)"
    by (rule refines_same [OF internal_put_refines [OF r(1) ok]
          internal_put_refines [OF s(1) ok, folded eq] eq])
  show ?thesis
    using Inr mkdir rm put_ok put eq by (simp add: apply_entry_def split_def Let_def) (simp add: same_def)
qed

lemma apply_one_agree:
  assumes "db_ok J view (store r)" "db_ready r" "db_ok J view (store s)" "db_ready s" "ns r = ns s"
  shows "fst (apply_one J K g e r) = fst (apply_one J K g e s) \<and>
    ns (snd (apply_one J K g e r)) = ns (snd (apply_one J K g e s))"
  using apply_entry_same [OF assms, of g "fst e"]
  by (auto simp: apply_one_def same_def split: prod.splits sum.splits option.splits)

end

sublocale meta_reliable \<subseteq> replica: deterministic_log "apply_one J K g" isl
    "\<lambda>r. ns_of J view (store r)" "\<lambda>r. db_ok J view (store r) \<and> db_ready r" for g
proof
  fix s e
  show "db_ok J view (store (snd (apply_one J K g e s))) \<and> db_ready (snd (apply_one J K g e s))"
    if "db_ok J view (store s) \<and> db_ready s"
    using apply_one_db_ok [of s g e] that by simp
next
  fix s t e
  show "fst (apply_one J K g e s) = fst (apply_one J K g e t) \<and>
    ns_of J view (store (snd (apply_one J K g e s))) = ns_of J view (store (snd (apply_one J K g e t)))"
    if "db_ok J view (store s) \<and> db_ready s" "db_ok J view (store t) \<and> db_ready t"
      "ns_of J view (store s) = ns_of J view (store t)"
    using apply_one_agree [of s t g e] that by simp
qed

context meta_reliable
begin

lemma on_apply_run:
  "on_apply J K g es r =
     (if snd (snd (replica.run g es r)) then Inr (map projr (fst (replica.run g es r)))
      else Inl (projl (last (fst (replica.run g es r)))), fst (snd (replica.run g es r)))"
proof (induction es arbitrary: r)
  case (Cons e es)
  obtain c r' where e: "apply_one J K g e r = (c, r')" by (cases "apply_one J K g e r")
  obtain outs r'' al where run: "replica.run g es r' = (outs, r'', al)"
    by (cases "replica.run g es r'") auto
  have ne: "al = False \<Longrightarrow> outs \<noteq> []" using run by (cases es) (auto split: if_splits)
  show ?case
    using e run Cons.IH [of r'] ne by (cases c) auto
qed simp

end

section \<open>Replicas that differ in closures and in uninitialised memory\<close>

text \<open>
  Only the replica that proposed an entry has a closure for it, and the value found in
  uninitialised memory may differ; neither reaches the store.
\<close>

lemma get_inode_garbage:
  "get_inode J K r (set_fullpath p (new_inode g)) = get_inode J K r (set_fullpath p (new_inode g'))"
  by (cases "kv_get K (store r) (simplify_path p)"; cases "fst (kv_get K (store r) (simplify_path p))")
    (simp_all add: get_inode_def set_fullpath_def new_inode_def)

lemma apply_entry_garbage: "apply_entry J K g d r = apply_entry J K g' d r"
  unfolding apply_entry_def internal_put_ok_def by (subst get_inode_garbage [of J K r _ g g']) (rule refl)

lemma isl_fail_response: "isl (fail_response e c) \<longleftrightarrow> \<not> catchable e"
  by (cases e) auto

lemma apply_one_closure:
  "snd (apply_one J K g (d, c) r) = snd (apply_entry J K g d r)"
  "isl (fst (apply_one J K g (d, c) r)) \<longleftrightarrow>
     (case fst (apply_entry J K g d r) of Inl e \<Rightarrow> \<not> catchable e | Inr _ \<Rightarrow> False)"
proof -
  obtain x r' where e: "apply_entry J K g d r = (x, r')" by (cases "apply_entry J K g d r")
  let ?c = "case c of None \<Rightarrow> empty_response | Some c \<Rightarrow> c"
  show "snd (apply_one J K g (d, c) r) = snd (apply_entry J K g d r)"
    using e by (cases x) (auto simp: apply_one_def split: sum.splits)
  show "isl (fst (apply_one J K g (d, c) r)) \<longleftrightarrow>
      (case fst (apply_entry J K g d r) of Inl e \<Rightarrow> \<not> catchable e | Inr _ \<Rightarrow> False)"
  proof (cases x)
    case (Inl y)
    then show ?thesis
      using e isl_fail_response [of y ?c] by (cases "fail_response y ?c") (simp_all add: apply_one_def)
  qed (use e in \<open>simp add: apply_one_def\<close>)
qed

lemma apply_one_independent:
  assumes "fst e = fst f"
  shows "snd (apply_one J K g e r) = snd (apply_one J K g' f r)"
    and "isl (fst (apply_one J K g e r)) = isl (fst (apply_one J K g' f r))"
  using assms apply_entry_garbage [of J K g "fst e" r g']
  by (metis apply_one_closure prod.collapse)+

lemma on_apply_independent:
  assumes "map fst es = map fst fs"
  shows "snd (on_apply J K g es r) = snd (on_apply J K g' fs r) \<and>
    isl (fst (on_apply J K g es r)) = isl (fst (on_apply J K g' fs r))"
  using assms
proof (induction es arbitrary: fs r)
  case (Cons e es)
  then obtain f fs' where fs: "fs = f # fs'" "fst e = fst f" "map fst es = map fst fs'" by auto
  obtain c r1 c' r1' where e: "apply_one J K g e r = (c, r1)" and f: "apply_one J K g' f r = (c', r1')"
    by (metis prod.collapse)
  with apply_one_independent [OF fs(2), of J K g r g'] have eq: "r1' = r1" "isl c' = isl c" by auto
  from Cons.IH [OF fs(3), of r1] show ?case
    using e f eq fs(1) by (cases c; cases c') (auto split: prod.splits simp: rmap_isl)
qed simp

context meta_reliable
begin

lemma on_apply_agree:
  assumes "db_ok J view (store r)" "db_ready r" "db_ok J view (store s)" "db_ready s" "ns r = ns s"
  shows "fst (on_apply J K g es r) = fst (on_apply J K g es s) \<and>
    ns (snd (on_apply J K g es r)) = ns (snd (on_apply J K g es s))"
  using replica.replicas_agree [of r s g es] assms by (simp add: on_apply_run)

lemma on_apply_append:
  assumes "on_apply J K g es r = (Inr cs, r1)"
  shows "snd (on_apply J K g (es @ fs) r) = snd (on_apply J K g fs r1)"
  using assms replica.run_append [of g es r fs]
  by (auto simp: on_apply_run split: if_splits)

end

section \<open>Properties\<close>

text \<open>
C1: Replicas of the namenode stay equal.  Two replicas with the same namespace, given the same log
(each with closures only for the entries it proposed itself, and with whatever its uninitialised
memory holds), have the same namespace afterwards, and one of them ends its process exactly when the
other does.
\<close>

theorem replicas_stay_equal:
  assumes "meta_reliable K view J"
    and "db_ok J view (store r)" "db_ready r" and "db_ok J view (store s)" "db_ready s"
    and "ns_of J view (store r) = ns_of J view (store s)"
    and "map fst es = map fst fs"
  shows "ns_of J view (store (snd (on_apply J K g es r))) = ns_of J view (store (snd (on_apply J K g' fs s))) \<and>
    isl (fst (on_apply J K g es r)) = isl (fst (on_apply J K g' fs s))"
  using meta_reliable.on_apply_agree [OF assms(1-6), of g es] on_apply_independent [OF assms(7), of J K g s g']
  by simp

theorem replicas_stay_equal_witness:
  "ns_of text_json (\<lambda>m. m) (store (snd (on_apply text_json map_kv True [(entry OP_RM ''x'', None)] empty_db))) =
     ns_of text_json (\<lambda>m. m)
       (store (snd (on_apply text_json map_kv False [(entry OP_RM ''x'', Some empty_response)] empty_db)))"
  using replicas_stay_equal [OF map_meta_reliable empty_db_ok(1,2) empty_db_ok(1,2) refl,
      of "[(entry OP_RM ''x'', None)]" "[(entry OP_RM ''x'', Some empty_response)]" True False]
  by simp

text \<open>
C2: A replica restored from a snapshot catches up.  If a replica applied the entries \<open>es\<close> and then
saved a snapshot, a process that finds these backups on its disk, whatever else it holds, loads the
snapshot and applies the later entries, has the namespace of a replica that applied the whole log.
\<close>

theorem snapshot_replay:
  assumes "meta_reliable K view J" and "kv_snapshots K view latest"
    and "db_ok J view (store r)" and "db_ready r"
    and "on_apply J K g es r = (Inr cs, r1)" and "nn_on_snapshot_save K r1 = Inr r2"
    and "backups q = backups r2" and "nn_on_snapshot_load K q = Inr (rc, q1)"
    and "map fst fs' = map fst fs"
  shows "ns_of J view (store (snd (on_apply J K g' fs' q1))) =
    ns_of J view (store (snd (on_apply J K g (es @ fs) r)))"
proof -
  from assms(1) have ms: "meta_store K view J" by (simp add: meta_reliable_def)
  have r1: "db_ok J view (store r1)" "db_ready r1"
    using meta_store.on_apply_db_ok [OF ms assms(3), of g es] assms(4,5) by auto
  have "load_snapshot K q = Inr q1" using assms(8) by (auto simp: nn_on_snapshot_load_def res_simps)
  then have q1: "view (store q1) = view (store r1)" "db_ready q1"
    using kv_snapshots.load_after_snapshot [OF assms(2) assms(6) [unfolded nn_on_snapshot_save_def] assms(7)]
    by blast+
  then have "ns_of J view (store q1) = ns_of J view (store r1)" "db_ok J view (store q1)"
    using r1(1) by (simp_all add: ns_of_def fun_eq_iff db_ok_def)
  then have "ns_of J view (store (snd (on_apply J K g fs q1))) = ns_of J view (store (snd (on_apply J K g fs r1)))"
    using meta_reliable.on_apply_agree [OF assms(1) _ q1(2) r1, of g fs] by simp
  then show ?thesis
    using meta_reliable.on_apply_append [OF assms(1,5), of fs] on_apply_independent [OF assms(9), of J K g' q1 g]
    by simp
qed

theorem snapshot_replay_witness:
  "\<exists>q1. nn_on_snapshot_load map_kv (empty_db\<lparr>backups := [Map.empty]\<rparr>) = Inr (0, q1) \<and>
     ns_of text_json (\<lambda>m. m) (store (snd (on_apply text_json map_kv False [(entry OP_RM ''x'', None)] q1))) =
     ns_of text_json (\<lambda>m. m) (store (snd (on_apply text_json map_kv False [(entry OP_RM ''x'', None)] empty_db)))"
proof -
  let ?q = "empty_db\<lparr>backups := [Map.empty]\<rparr>"
  have save: "nn_on_snapshot_save map_kv empty_db = Inr ?q"
    by (simp add: nn_on_snapshot_save_def snapshot_def empty_db_def map_kv_def)
  have load: "nn_on_snapshot_load map_kv ?q = Inr (0, ?q)"
    by (simp add: nn_on_snapshot_load_def load_snapshot_def rdb_close_def rdb_open_def empty_db_def map_kv_def)
  have "kv_snapshots map_kv (\<lambda>m. m) map_latest" by unfold_locales
  moreover have "on_apply text_json map_kv False [] empty_db = (Inr [], empty_db)" by simp
  ultimately show ?thesis
    using snapshot_replay [OF map_meta_reliable _ empty_db_ok(1,2) _ save refl load refl, of map_latest False "[]" "[]"
        False "[(entry OP_RM ''x'', None)]"] load
    by (metis append_Nil)
qed

end
