(* ===== verification/Namenode.thy ===== *)
theory Namenode
  imports RaftNN
begin

text \<open>
  \<^verbatim>\<open>include/node/namenode.h\<close> and \<^verbatim>\<open>src/node/namenode.cpp\<close>: the namenode's service.  A handler that
  changes the namespace checks the request against the local store and proposes a log entry; the
  answer comes when the entry is applied (\<open>RaftNN\<close>).  The theory gives each handler, the requests
  as data, the handler's specification on namespaces (\<open>a_prepare\<close>), and the namenode as a step
  relation in which requests and commits interleave.
\<close>

section \<open>Handlers\<close>

text \<open>
  The surroundings of a call: this node's address and port, the leader the consensus library
  reports, the clock, and the value found in uninitialised memory.
\<close>

record nn_env =
  my_ip :: string
  nn_port :: int
  leader_id :: "(string \<times> int) option"
  now :: u64
  garbage :: bool

datatype rpc_outcome = Replied response | Proposed string | Crashed exn

definition check_leader :: "nn_env \<Rightarrow> unit res" where
  "check_leader env =
     (let leader = nn_leader (my_ip env) (nn_port env) (leader_id env)
      in if \<not> node_valid leader then Inl (StdException ''leader not ready'')
         else if ip leader \<noteq> my_ip env then Inl (message_exception REDIRECT_TO_MASTER (ip leader))
         else Inr ())"

text \<open>The \<^verbatim>\<open>catch\<close> clauses every handler ends with.\<close>

definition rpc_fail :: "exn \<Rightarrow> rpc_outcome" where
  "rpc_fail e = (case fail_response e empty_response of Inr r \<Rightarrow> Replied r | Inl e' \<Rightarrow> Crashed e')"

definition rpc_propose :: "string res \<Rightarrow> rpc_outcome" where
  "rpc_propose x = (case x of Inr d \<Rightarrow> Proposed d | Inl e \<Rightarrow> rpc_fail e)"

definition path_required :: exn where
  "path_required = StdException ''parameter path required''"

definition nn_ls ::
    "json_lib \<Rightarrow> ('db, 'bk) kv_lib \<Rightarrow> nn_env \<Rightarrow> ('db, 'bk) rocksdb \<Rightarrow> string \<Rightarrow> (response \<times> string) res" where
  "nn_ls J K env r path =
     (case rbind (rdb_ls J K r (set_fullpath (if path = [] then ''/'' else path) (new_inode (garbage env))))
             (inode_value J) of
        Inr v \<Rightarrow> Inr (succ_response empty_response, v)
      | Inl e \<Rightarrow> rmap (\<lambda>resp. (resp, [])) (fail_response e empty_response))"

definition nn_mkdir ::
    "json_lib \<Rightarrow> ('db, 'bk) kv_lib \<Rightarrow> nn_env \<Rightarrow> ('db, 'bk) rocksdb \<Rightarrow> string \<Rightarrow> rpc_outcome" where
  "nn_mkdir J K env r path =
     rpc_propose (rbind (check_leader env) (\<lambda>_.
       if path = [] then Inl path_required
       else let path' = (if hd path \<noteq> slash then slash # path else path)
            in rbind (prepare_mkdir J K r (get_default_dir path')) (\<lambda>i.
                 rmap (entry OP_MKDIR) (inode_value J i))))"

definition nn_rm ::
    "json_lib \<Rightarrow> ('db, 'bk) kv_lib \<Rightarrow> nn_env \<Rightarrow> ('db, 'bk) rocksdb \<Rightarrow> string \<Rightarrow> rpc_outcome" where
  "nn_rm J K env r path =
     rpc_propose (rbind (check_leader env) (\<lambda>_.
       if path = [] then Inl path_required
       else rbind (prepare_rm J K r (set_fullpath path (new_inode (garbage env)))) (\<lambda>i.
              rmap (entry OP_RM) (inode_value J i))))"

definition nn_put ::
    "json_lib \<Rightarrow> ('db, 'bk) kv_lib \<Rightarrow> nn_env \<Rightarrow> ('db, 'bk) rocksdb \<Rightarrow> string \<Rightarrow> string \<Rightarrow> rpc_outcome" where
  "nn_put J K env r path storage_type =
     rpc_propose (rbind (check_leader env) (\<lambda>_.
       if path = [] then Inl path_required
       else rbind (prepare_put J K (now env) r (set_fullpath path (new_inode (garbage env)))) (\<lambda>i.
            rbind (st_from_string storage_type) (\<lambda>st.
              rmap (entry OP_PUT) (inode_value J (i\<lparr>storage_type_ptr := Some st\<rparr>))))))"

definition nn_put_ok ::
    "json_lib \<Rightarrow> ('db, 'bk) kv_lib \<Rightarrow> nn_env \<Rightarrow> ('db, 'bk) rocksdb \<Rightarrow> string \<Rightarrow> u64 \<Rightarrow> string list \<Rightarrow> rpc_outcome" where
  "nn_put_ok J K env r path fsize subs =
     rpc_propose (rbind (check_leader env) (\<lambda>_.
       if path = [] then Inl path_required
       else rbind (prepare_put_ok J K r (set_fullpath path (new_inode (garbage env)))) (\<lambda>i.
              rmap (entry OP_PUTOK) (inode_value J (i\<lparr>sub := subs, filesize := fsize\<rparr>)))))"

definition get_master :: "nn_env \<Rightarrow> (response \<times> string) res" where
  "get_master env =
     (let leader = nn_leader (my_ip env) (nn_port env) (leader_id env)
      in if \<not> node_valid leader then
           rmap (\<lambda>resp. (resp, [])) (fail_response (StdException ''leader not ready'') empty_response)
         else Inr (succ_response empty_response, node_to_string leader))"

text \<open>
  \<^verbatim>\<open>update_lock\<close> proposes one entry per path, up to the first path that fails; the failure is then
  written into the response the entries' closures share.
\<close>

definition renew_entry ::
    "json_lib \<Rightarrow> ('db, 'bk) kv_lib \<Rightarrow> nn_env \<Rightarrow> ('db, 'bk) rocksdb \<Rightarrow> string \<Rightarrow> string res" where
  "renew_entry J K env r s =
     rbind (rdb_ls J K r (set_fullpath s (new_inode (garbage env)))) (\<lambda>i.
       rmap (entry OP_PUT) (inode_value J (update_ddl_lock (now env) i)))"

fun renew_all ::
    "json_lib \<Rightarrow> ('db, 'bk) kv_lib \<Rightarrow> nn_env \<Rightarrow> ('db, 'bk) rocksdb \<Rightarrow> string list \<Rightarrow> string list \<times> exn option" where
  "renew_all J K env r [] = ([], None)"
| "renew_all J K env r (s # ss) =
     (case renew_entry J K env r s of
        Inl e \<Rightarrow> ([], Some e)
      | Inr d \<Rightarrow> (case renew_all J K env r ss of (ds, x) \<Rightarrow> (d # ds, x)))"

definition update_lock ::
    "json_lib \<Rightarrow> ('db, 'bk) kv_lib \<Rightarrow> nn_env \<Rightarrow> ('db, 'bk) rocksdb \<Rightarrow> string list \<Rightarrow> string list \<times> rpc_outcome option" where
  "update_lock J K env r paths =
     (case check_leader env of
        Inl e \<Rightarrow> ([], Some (rpc_fail e))
      | Inr _ \<Rightarrow>
          if paths = [] then ([], Some (rpc_fail (StdException ''parameter paths required'')))
          else (case renew_all J K env r paths of (ds, x) \<Rightarrow> (ds, map_option rpc_fail x)))"

section \<open>Requests\<close>

datatype request =
    Mkdir string
  | Rm string
  | Put string string
  | PutOk string u64 "string list"

fun nn_handle ::
    "json_lib \<Rightarrow> ('db, 'bk) kv_lib \<Rightarrow> nn_env \<Rightarrow> ('db, 'bk) rocksdb \<Rightarrow> request \<Rightarrow> rpc_outcome" where
  "nn_handle J K env r (Mkdir path) = nn_mkdir J K env r path"
| "nn_handle J K env r (Rm path) = nn_rm J K env r path"
| "nn_handle J K env r (Put path st) = nn_put J K env r path st"
| "nn_handle J K env r (PutOk path fsize subs) = nn_put_ok J K env r path fsize subs"

text \<open>
  A request served alone: the handler, then its entry applied before anything else.  The result is
  the response the client sees, or the end of the process.
\<close>

definition serve ::
    "json_lib \<Rightarrow> ('db, 'bk) kv_lib \<Rightarrow> nn_env \<Rightarrow> request \<Rightarrow> ('db, 'bk) rocksdb \<Rightarrow>
     response res \<times> ('db, 'bk) rocksdb" where
  "serve J K env req r =
     (case nn_handle J K env r req of
        Replied resp \<Rightarrow> (Inr resp, r)
      | Crashed e \<Rightarrow> (Inl e, r)
      | Proposed d \<Rightarrow>
          (case apply_one J K (garbage env) (d, Some empty_response) r of
             (x, r') \<Rightarrow> (rmap the x, r')))"

text \<open>
  Requests and commits interleaved: entries proposed but not yet applied wait in \<open>pending\<close>, in the
  order of the log.
\<close>

record ('db, 'bk) nn_state =
  nn_db :: "('db, 'bk) rocksdb"
  pending :: "string list"

inductive nn_step ::
    "json_lib \<Rightarrow> ('db, 'bk) kv_lib \<Rightarrow> ('db, 'bk) nn_state \<Rightarrow> ('db, 'bk) nn_state \<Rightarrow> bool"
  for J K where
  request: "nn_handle J K env (nn_db s) req = Proposed d \<Longrightarrow>
     nn_step J K s (s\<lparr>pending := pending s @ [d]\<rparr>)"
| renew: "update_lock J K env (nn_db s) paths = (ds, x) \<Longrightarrow>
     nn_step J K s (s\<lparr>pending := pending s @ ds\<rparr>)"
| commit: "pending s = d # ds \<Longrightarrow> apply_one J K g (d, c) (nn_db s) = (Inr c', r') \<Longrightarrow>
     nn_step J K s (s\<lparr>nn_db := r', pending := ds\<rparr>)"

section \<open>The handlers' specification\<close>

text \<open>What a request does to a namespace at its leader: the error, or the operation it proposes.\<close>

fun a_prepare :: "nn_env \<Rightarrow> request \<Rightarrow> namespace \<Rightarrow> (op_type \<times> inode) res" where
  "a_prepare env (Mkdir path) ns =
     (let i = get_default_dir (if hd path \<noteq> slash then slash # path else path)
      in if \<not> a_exists ns (inode_parent_path i) then
           Inl (message_exception PATH_NOT_EXISTS_EXCEPTION (inode_parent_path i))
         else if a_exists ns (fullpath i) then Inl (message_exception PATH_EXISTS_EXCEPTION (fullpath i))
         else Inr (OP_MKDIR, i))"
| "a_prepare env (Rm path) ns =
     (let i = set_fullpath path (new_inode (garbage env))
      in if \<not> a_exists ns (fullpath i) then Inl (message_exception PATH_NOT_EXISTS_EXCEPTION (fullpath i))
         else Inr (OP_RM, i\<lparr>valid := False\<rparr>))"
| "a_prepare env (Put path storage_type) ns =
     (let i = a_get ns (set_fullpath path (new_inode (garbage env)))
      in if valid i \<and> is_directory i then Inl (message_exception PATH_EXISTS_EXCEPTION (fullpath i))
         else rbind (inode_lock (now env) (i\<lparr>is_directory := False, valid := True\<rparr>)) (\<lambda>i'.
              rmap (\<lambda>st. (OP_PUT, i'\<lparr>storage_type_ptr := Some st\<rparr>)) (st_from_string storage_type)))"
| "a_prepare env (PutOk path fsize subs) ns =
     (let i = a_get ns (set_fullpath path (new_inode (garbage env)))
      in if \<not> valid i then Inl (message_exception PATH_NOT_EXISTS_EXCEPTION (fullpath i))
         else if is_directory i then Inl (message_exception EXPECTED_FILE_EXCEPTION (fullpath i))
         else Inr (OP_PUTOK, i\<lparr>sub := subs, filesize := fsize\<rparr>))"

fun req_path :: "request \<Rightarrow> string" where
  "req_path (Mkdir path) = path"
| "req_path (Rm path) = path"
| "req_path (Put path st) = path"
| "req_path (PutOk path fsize subs) = path"

inductive_cases nn_stepE: "nn_step J K s t"

section \<open>Facts\<close>

lemma check_leader_Inr:
  "check_leader env = Inr () \<longleftrightarrow>
     my_ip env \<noteq> ''0.0.0.0'' \<and> (\<forall>i p. leader_id env = Some (i, p) \<longrightarrow> i = my_ip env)"
  by (auto simp: check_leader_def nn_leader_def node_valid_def node_eq_def INVALID_NODE_def
      Let_def split: option.splits)

lemma rpc_propose_Proposed: "rpc_propose x = Proposed d \<longleftrightarrow> x = Inr d"
  by (auto simp: rpc_propose_def rpc_fail_def split: sum.splits)

context meta_reliable
begin

text \<open>
  The handlers implement \<open>a_prepare\<close>: on a store without errors their outcome is a function of the
  namespace.
\<close>

lemma nn_handle_spec:
  assumes "db_ok J view (store r)" and "db_ready r" and "check_leader env = Inr ()" and "req_path req \<noteq> []"
    and "\<And>path f ss. req = PutOk path f ss \<Longrightarrow> dumps J (set_fullpath path (new_inode (garbage env)))"
  shows "nn_handle J K env r req =
    rpc_propose (rbind (a_prepare env req (ns r)) (\<lambda>(op, i). rmap (entry op) (inode_value J i)))"
proof (cases req)
  case (Mkdir path)
  with assms show ?thesis
    by (auto simp: nn_mkdir_def prepare_mkdir_def try_to_add_def path_exists_total Let_def)
next
  case (Rm path)
  with assms show ?thesis
    by (auto simp: nn_rm_def prepare_rm_def try_to_rm_def path_exists_total Let_def)
next
  case (Put path st)
  let ?i = "(a_get (ns r) (set_fullpath path (new_inode (garbage env))))\<lparr>is_directory := False, valid := True\<rparr>"
  show ?thesis
    using Put assms
    by (cases "inode_lock (now env) ?i"; cases "st_from_string st")
      (auto simp: nn_put_def prepare_put_def get_inode_total Let_def)
next
  case (PutOk path fsize subs)
  with assms(5) obtain v where "inode_value J (set_fullpath path (new_inode (garbage env))) = Inr v"
    by (auto simp: dumps_def)
  with PutOk assms show ?thesis
    by (auto simp: nn_put_ok_def prepare_put_ok_def get_inode_total Let_def)
qed

end

text \<open>The proposed inode is in normal form.\<close>

lemma a_prepare_ok:
  assumes "a_prepare env req ns = Inr (op, i)" and "\<And>p i. ns p = Some i \<Longrightarrow> inode_ok i"
  shows "inode_ok i"
proof -
  have get: "inode_ok (a_get ns (set_fullpath path (new_inode g)))" for path g
    using assms(2) inode_ok_set_fullpath [of path g] by (auto simp: a_get_def split: option.splits)
  have st: "inode_ok (j\<lparr>storage_type_ptr := Some st\<rparr>)" if "inode_ok j" "st_from_string s = Inr st" for j st s
    using that st_from_string_range by (auto simp: inode_ok_def)
  from assms(1) get st show ?thesis
    by (cases req)
      (auto simp: Let_def inode_ok_default_dir inode_ok_set_fullpath inode_lock_Inr res_simps split: if_splits)
qed

section \<open>What a proposal stands for\<close>

context meta_store
begin

text \<open>
  Whatever the store does, an entry a handler proposes is the operation \<open>a_prepare\<close> allows on the
  leader's namespace.
\<close>

lemma nn_handle_proposed:
  assumes ok: "db_ok J view (store r)" and p: "nn_handle J K env r req = Proposed d"
  obtains op i v where "a_prepare env req (ns r) = Inr (op, i)" and "inode_value J i = Inr v"
    and "d = entry op v" and "req_path req \<noteq> []" and "check_leader env = Inr ()"
proof (cases req)
  case (Mkdir path)
  let ?i = "get_default_dir (if hd path \<noteq> slash then slash # path else path)"
  from p Mkdir obtain v where "check_leader env = Inr ()" "path \<noteq> []" "d = entry OP_MKDIR v"
    "inode_value J ?i = Inr v" "path_exists J K r (inode_parent_path ?i) = Inr True"
    "path_exists J K r (fullpath ?i) = Inr False"
    by (auto simp: nn_mkdir_def rpc_propose_Proposed prepare_mkdir_def try_to_add_def res_simps Let_def
        split: if_splits)
  moreover from this have "a_exists (ns r) (inode_parent_path ?i)" "\<not> a_exists (ns r) (fullpath ?i)"
    using path_exists_Inr [OF ok] by blast+
  ultimately show thesis using Mkdir by (intro that [of OP_MKDIR ?i v]) (simp_all add: Let_def)
next
  case (Rm path)
  let ?i = "set_fullpath path (new_inode (garbage env))"
  from p Rm obtain v where "check_leader env = Inr ()" "path \<noteq> []" "d = entry OP_RM v"
    "inode_value J (?i\<lparr>valid := False\<rparr>) = Inr v" "path_exists J K r (fullpath ?i) = Inr True"
    by (auto simp: nn_rm_def rpc_propose_Proposed prepare_rm_def try_to_rm_def res_simps split: if_splits)
  moreover from this have "a_exists (ns r) (fullpath ?i)" using path_exists_Inr [OF ok] by blast
  ultimately show thesis using Rm by (intro that [of OP_RM "?i\<lparr>valid := False\<rparr>" v]) (simp_all add: Let_def)
next
  case (Put path st)
  let ?i = "set_fullpath path (new_inode (garbage env))"
  from p Put obtain v i i' s where "check_leader env = Inr ()" "path \<noteq> []" "d = entry OP_PUT v"
    "get_inode J K r ?i = Inr i" "\<not> (valid i \<and> is_directory i)"
    "inode_lock (now env) (i\<lparr>is_directory := False, valid := True\<rparr>) = Inr i'"
    "st_from_string st = Inr s" "inode_value J (i'\<lparr>storage_type_ptr := Some s\<rparr>) = Inr v"
    by (auto simp: nn_put_def rpc_propose_Proposed prepare_put_def res_simps split: if_splits)
  moreover from this have "i = a_get (ns r) ?i" using get_inode_Inr [OF ok] by blast
  ultimately show thesis
    using Put by (intro that [of OP_PUT "i'\<lparr>storage_type_ptr := Some s\<rparr>" v]) (simp_all add: Let_def)
next
  case (PutOk path fsize subs)
  let ?i = "set_fullpath path (new_inode (garbage env))"
  from p PutOk obtain v i where "check_leader env = Inr ()" "path \<noteq> []" "d = entry OP_PUTOK v"
    "get_inode J K r ?i = Inr i" "valid i" "\<not> is_directory i"
    "inode_value J (i\<lparr>sub := subs, filesize := fsize\<rparr>) = Inr v"
    by (auto simp: nn_put_ok_def rpc_propose_Proposed prepare_put_ok_def res_simps split: if_splits)
  moreover from this have "i = a_get (ns r) ?i" using get_inode_Inr [OF ok] by blast
  ultimately show thesis
    using PutOk by (intro that [of OP_PUTOK "i\<lparr>sub := subs, filesize := fsize\<rparr>" v]) (simp_all add: Let_def)
qed

lemma nn_handle_proposed_ok:
  assumes "db_ok J view (store r)" and "a_prepare env req (ns r) = Inr (op, i)"
  shows "inode_ok i"
  using assms(2) by (rule a_prepare_ok) (rule ns_Some(2) [OF assms(1)])

end

section \<open>A concrete leader\<close>

definition leader_env :: "u64 \<Rightarrow> nn_env" where
  "leader_env t = \<lparr>my_ip = ''10.0.0.1'', nn_port = 10001, leader_id = None, now = t, garbage = False\<rparr>"

text \<open>A store that holds one file, locked until the time 61.\<close>

definition file_text :: string where
  "file_text =
     ''{\"ddl_lock\":61,\"filesize\":0,\"fullpath\":\"/f\",\"is_directory\":false,\"sub\":[],\"valid\":true}''"

definition file_inode :: inode where
  "file_inode =
     \<lparr>fullpath = ''/f'', is_directory = False, filesize = 0, storage_type_ptr = None, sub = [], valid = True,
      ddl_lock = 61\<rparr>"

definition file_db :: "(string \<rightharpoonup> string, (string \<rightharpoonup> string) list) rocksdb" where
  "file_db = empty_db\<lparr>store := [''/f'' \<mapsto> file_text]\<rparr>"

lemma file_parse: "inode_parse text_json file_text = Inr file_inode"
  by code_simp

lemma file_db_ok:
  "db_ok text_json (\<lambda>m. m) (store file_db)" "db_ready file_db"
  "ns_of text_json (\<lambda>m. m) (store file_db) = [''/f'' \<mapsto> file_inode]"
  using file_parse
  by (simp_all add: file_db_def empty_db_def db_ok_def ns_of_def fun_eq_iff file_inode_def)

section \<open>Interleaved requests\<close>

text \<open>An entry some inode in normal form was printed into.\<close>

definition entry_ok :: "json_lib \<Rightarrow> string \<Rightarrow> bool" where
  "entry_ok J d \<longleftrightarrow>
     (\<exists>op i v. op \<noteq> OP_UNKNOWN \<and> inode_ok i \<and> inode_value J i = Inr v \<and> d = entry op v)"

lemma entry_okI: "op \<noteq> OP_UNKNOWN \<Longrightarrow> inode_ok i \<Longrightarrow> inode_value J i = Inr v \<Longrightarrow> entry_ok J (entry op v)"
  by (auto simp: entry_ok_def)

lemma a_prepare_op: "a_prepare env req ns = Inr (op, i) \<Longrightarrow> op \<noteq> OP_UNKNOWN"
  by (cases req) (auto simp: Let_def res_simps split: if_splits)

context meta_store
begin

lemma nn_handle_entry_ok:
  "db_ok J view (store r) \<Longrightarrow> nn_handle J K env r req = Proposed d \<Longrightarrow> entry_ok J d"
  by (metis nn_handle_proposed nn_handle_proposed_ok a_prepare_op entry_okI)

lemma renew_entry_ok:
  assumes "db_ok J view (store r)" and "renew_entry J K env r s = Inr d"
  shows "entry_ok J d"
proof -
  let ?q = "set_fullpath s (new_inode (garbage env))"
  from assms(2) obtain i v where i: "get_inode J K r ?q = Inr i"
    and v: "inode_value J (update_ddl_lock (now env) i) = Inr v" "d = entry OP_PUT v"
    by (auto simp: renew_entry_def rdb_ls_def res_simps split: if_splits)
  have "inode_ok i"
    using get_inode_Inr(1) [OF assms(1) i] a_get_ok [OF assms(1) inode_ok_set_fullpath] by simp
  then have "inode_ok (update_ddl_lock (now env) i)" by (simp add: update_ddl_lock_def)
  with v show ?thesis by (auto intro: entry_okI [of OP_PUT])
qed

lemma renew_all_ok:
  "db_ok J view (store r) \<Longrightarrow> renew_all J K env r ss = (ds, x) \<Longrightarrow> \<forall>d \<in> set ds. entry_ok J d"
  by (induction ss arbitrary: ds x) (auto split: sum.splits prod.splits dest: renew_entry_ok)

lemma update_lock_ok:
  "db_ok J view (store r) \<Longrightarrow> update_lock J K env r paths = (ds, x) \<Longrightarrow> \<forall>d \<in> set ds. entry_ok J d"
  by (auto simp: update_lock_def split: sum.splits if_splits prod.splits dest: renew_all_ok)

lemma nn_step_ok:
  assumes "nn_step J K s t" and "db_ok J view (store (nn_db s))" and "\<forall>d \<in> set (pending s). entry_ok J d"
  shows "db_ok J view (store (nn_db t)) \<and> (\<forall>d \<in> set (pending t). entry_ok J d)"
  using assms
proof (cases rule: nn_step.cases)
  case (request env req d)
  with assms nn_handle_entry_ok show ?thesis by auto
next
  case (renew env paths ds x)
  with assms update_lock_ok [OF assms(2)] show ?thesis by auto
next
  case (commit d ds g c c' r')
  with assms apply_one_db_ok [OF assms(2), of g "(d, c)"] show ?thesis by auto
qed

end

section \<open>Properties\<close>

text \<open>
C12: The handlers implement their specification: on a leader whose store has no input or output
errors, a request for a path is refused with the error \<open>a_prepare\<close> gives on the namespace (missing
parent, existing path, missing path, directory instead of a file, lock conflict, bad storage type),
and otherwise proposes exactly the log entry of the operation and inode it gives.
\<close>

theorem handlers_implement_spec:
  assumes "meta_reliable K view J" and "db_ok J view (store r)" and "db_ready r"
    and "check_leader env = Inr ()" and "req_path req \<noteq> []"
    and "\<And>path f ss. req = PutOk path f ss \<Longrightarrow> dumps J (set_fullpath path (new_inode (garbage env)))"
  shows "nn_handle J K env r req =
    rpc_propose (rbind (a_prepare env req (ns_of J view (store r))) (\<lambda>(op, i). rmap (entry op) (inode_value J i)))"
  by (rule meta_reliable.nn_handle_spec [OF assms])

theorem handlers_implement_spec_witness:
  "nn_handle text_json map_kv (leader_env 5) file_db (Mkdir ''/f'') =
     rpc_propose (Inl (message_exception PATH_EXISTS_EXCEPTION ''/f''))"
proof -
  have eval: "check_leader (leader_env 5) = Inr ()" "simplify_path ''/f'' = ''/f''" "path_parent ''/f'' = ''/''"
    by code_simp+
  have "a_prepare (leader_env 5) (Mkdir ''/f'') [''/f'' \<mapsto> file_inode] =
      Inl (message_exception PATH_EXISTS_EXCEPTION ''/f'')"
    using eval by (simp add: a_exists_def inode_parent_path_def file_inode_def)
  moreover have "nn_handle text_json map_kv (leader_env 5) file_db (Mkdir ''/f'') =
    rpc_propose (rbind (a_prepare (leader_env 5) (Mkdir ''/f'') (ns_of text_json (\<lambda>m. m) (store file_db)))
      (\<lambda>(op, i). rmap (entry op) (inode_value text_json i)))"
    by (rule handlers_implement_spec [OF map_meta_reliable file_db_ok(1,2) eval(1)]) simp_all
  ultimately show ?thesis by (simp only: file_db_ok rbind.simps)
qed

text \<open>
C11: However requests, lock renewals and commits interleave, and whatever the store reports, the
namenode's store holds only inodes under their own paths, and every entry waiting in the log is the
text of an operation on an inode in normal form.
\<close>

theorem interleavings_keep_store:
  assumes "meta_store K view J" and "view (store (nn_db s0)) = Map.empty" and "pending s0 = []"
    and "(nn_step J K)\<^sup>*\<^sup>* s0 s"
  shows "db_ok J view (store (nn_db s)) \<and> (\<forall>d \<in> set (pending s). entry_ok J d)"
  using assms(4)
proof (induction rule: rtranclp_induct)
  case base
  with assms(2,3) show ?case by (simp add: db_ok_def)
next
  case (step s t)
  with meta_store.nn_step_ok [OF assms(1)] show ?case by blast
qed

theorem interleavings_keep_store_witness:
  "\<exists>s. (nn_step text_json map_kv)\<^sup>*\<^sup>* \<lparr>nn_db = empty_db, pending = []\<rparr> s \<and>
     length (pending s) = 1 \<and> (\<forall>d \<in> set (pending s). entry_ok text_json d)"
proof -
  let ?s0 = "\<lparr>nn_db = empty_db, pending = []\<rparr>"
  have "(case nn_handle text_json map_kv (leader_env 1) empty_db (Mkdir ''/a'') of Proposed d \<Rightarrow> True | _ \<Rightarrow> False)"
    by code_simp
  then obtain d where "nn_handle text_json map_kv (leader_env 1) (nn_db ?s0) (Mkdir ''/a'') = Proposed d"
    by (auto split: rpc_outcome.splits)
  then have "nn_step text_json map_kv ?s0 (?s0\<lparr>pending := pending ?s0 @ [d]\<rparr>)" by (rule nn_step.request)
  then have run: "(nn_step text_json map_kv)\<^sup>*\<^sup>* ?s0 (?s0\<lparr>pending := [d]\<rparr>)" by simp
  from interleavings_keep_store [OF map_meta_store _ _ run] show ?thesis
    using run by (intro exI [of _ "?s0\<lparr>pending := [d]\<rparr>"]) (simp add: empty_db_def)
qed

end
