(* ===== verification/Namespace.thy ===== *)
theory Namespace
  imports Namenode
begin

text \<open>
  The directory tree.  The namenode stores inodes under their paths and keeps a listing in every
  directory; \<open>ns_tree\<close> says that the two agree: keys are absolute, the root is a directory, whatever
  is valid stands in a directory, and a directory lists its subdirectories and the finished files,
  once each.  The handlers leave some checks to their callers (a parent that is a file, a put below
  nothing, removal of a directory), and \<open>polite\<close> names these; requests within it keep the tree and
  are always answered.
\<close>

section \<open>Trees of names\<close>

text \<open>\<open>D\<close> and \<open>F\<close> are the directories and the files, \<open>S\<close> the listings, by component list.\<close>

definition tree :: "(string list \<Rightarrow> bool) \<Rightarrow> (string list \<Rightarrow> bool) \<Rightarrow> (string list \<Rightarrow> string list) \<Rightarrow> bool" where
  "tree D F S \<longleftrightarrow>
     D [] \<and>
     (\<forall>cs c. D (cs @ [c]) \<or> F (cs @ [c]) \<longrightarrow> D cs \<and> slash \<notin> set c) \<and>
     (\<forall>cs. D cs \<longrightarrow> distinct (S cs)) \<and>
     (\<forall>cs x. D cs \<longrightarrow> x \<in> set (S cs) \<longrightarrow>
        (\<exists>c. x = c @ ''/'' \<and> D (cs @ [c]) \<or> x = c \<and> F (cs @ [c]))) \<and>
     (\<forall>cs c. D (cs @ [c]) \<longrightarrow> c @ ''/'' \<in> set (S cs))"

definition add_name :: "string \<Rightarrow> string list \<Rightarrow> string list" where
  "add_name n xs = (if n \<in> set xs then xs else xs @ [n])"

lemma add_name_simps [simp]: "set (add_name n xs) = insert n (set xs)" "distinct (add_name n xs) = distinct xs"
  by (auto simp: add_name_def)

lemma sub_add_sub: "sub (add_sub n p) = add_name n (sub p)"
  by (simp add: add_sub_def add_name_def)

lemma treeD:
  assumes "tree D F S"
  shows "D []" and "D (cs @ [c]) \<Longrightarrow> D cs" and "F (cs @ [c]) \<Longrightarrow> D cs"
    and "D (cs @ [c]) \<Longrightarrow> slash \<notin> set c" and "F (cs @ [c]) \<Longrightarrow> slash \<notin> set c"
    and "D cs \<Longrightarrow> distinct (S cs)" and "D (cs @ [c]) \<Longrightarrow> c @ ''/'' \<in> set (S cs)"
  using assms by (auto simp: tree_def)

lemma tree_listed:
  assumes "tree D F S" and "D cs" and "x \<in> set (S cs)"
  obtains c where "x = c @ ''/''" and "D (cs @ [c])" | "F (cs @ [x])"
  using assms unfolding tree_def by blast

lemma treeI:
  assumes "D []"
    and "\<And>cs c. D (cs @ [c]) \<Longrightarrow> D cs \<and> slash \<notin> set c" and "\<And>cs c. F (cs @ [c]) \<Longrightarrow> D cs \<and> slash \<notin> set c"
    and "\<And>cs. D cs \<Longrightarrow> distinct (S cs)"
    and "\<And>cs x. D cs \<Longrightarrow> x \<in> set (S cs) \<Longrightarrow> (\<exists>c. x = c @ ''/'' \<and> D (cs @ [c])) \<or> F (cs @ [x])"
    and "\<And>cs c. D (cs @ [c]) \<Longrightarrow> c @ ''/'' \<in> set (S cs)"
  shows "tree D F S"
proof -
  have "\<exists>c. x = c @ ''/'' \<and> D (cs @ [c]) \<or> x = c \<and> F (cs @ [c])" if "D cs" "x \<in> set (S cs)" for cs x
    using assms(5) [OF that] by metis
  then show ?thesis unfolding tree_def using assms(1-4,6) by simp
qed

lemma tree_cong:
  assumes "tree D F S" and "\<And>cs. D cs \<Longrightarrow> S' cs = S cs"
  shows "tree D F S'"
proof (rule treeI)
  fix cs c
  assume c: "D (cs @ [c])"
  have "S' cs = S cs" by (rule assms(2)) (rule treeD(2) [OF assms(1) c])
  then show "c @ ''/'' \<in> set (S' cs)" using treeD(7) [OF assms(1) c] by simp
next
  fix cs x
  assume cs: "D cs" and "x \<in> set (S' cs)"
  then have "x \<in> set (S cs)" using assms(2) by simp
  then show "(\<exists>c. x = c @ ''/'' \<and> D (cs @ [c])) \<or> F (cs @ [x])"
    by (rule tree_listed [OF assms(1) cs]) blast+
qed (auto simp: assms(2) dest: treeD(2-5) [OF assms(1)] intro: treeD(1,6) [OF assms(1)])

lemma tree_mkdir:
  assumes t: "tree D F S" and d: "D cs" and new: "\<not> D (cs @ [c])" "slash \<notin> set c"
  shows "tree (D(cs @ [c] := True)) F (S(cs := add_name (c @ ''/'') (S cs), cs @ [c] := []))"
proof (rule treeI)
  fix ds x
  assume "(D(cs @ [c] := True)) ds" and x: "x \<in> set ((S(cs := add_name (c @ ''/'') (S cs), cs @ [c] := [])) ds)"
  then have ds: "ds \<noteq> cs @ [c]" "D ds" by (auto split: if_splits)
  show "(\<exists>e. x = e @ ''/'' \<and> (D(cs @ [c] := True)) (ds @ [e])) \<or> F (ds @ [x])"
  proof (cases "ds = cs \<and> x = c @ ''/''")
    case False
    with x ds have "x \<in> set (S ds)" by (auto split: if_splits)
    then show ?thesis by (rule tree_listed [OF t ds(2)]) auto
  qed auto
next
  fix ds e
  assume "(D(cs @ [c] := True)) (ds @ [e])"
  then have "ds = cs \<and> e = c \<or> D (ds @ [e])" by (auto split: if_splits)
  moreover have "ds \<noteq> cs @ [c]" if "D (ds @ [e])" using that treeD(2) [OF t that] new by auto
  ultimately show "e @ ''/'' \<in> set ((S(cs := add_name (c @ ''/'') (S cs), cs @ [c] := [])) ds)"
    using treeD(7) [OF t, of ds e] by auto
qed (use d new in \<open>auto dest: treeD(2-5) [OF t] intro: treeD(1,6) [OF t] split: if_splits\<close>)

lemma tree_put:
  assumes t: "tree D F S" and d: "D cs" and new: "slash \<notin> set c"
  shows "tree D (F(cs @ [c] := True)) S"
proof (rule treeI)
  fix ds x
  assume "D ds" and "x \<in> set (S ds)"
  then show "(\<exists>e. x = e @ ''/'' \<and> D (ds @ [e])) \<or> (F(cs @ [c] := True)) (ds @ [x])"
    by (rule tree_listed [OF t]) auto
qed (use d new in \<open>auto dest: treeD(2-5) [OF t] intro: treeD(1,6,7) [OF t] split: if_splits\<close>)

lemma tree_list:
  assumes t: "tree D F S" and f: "F (cs @ [c])"
  shows "tree D F (S(cs := add_name c (S cs)))"
proof (rule treeI)
  fix ds x
  assume ds: "D ds" and x: "x \<in> set ((S(cs := add_name c (S cs))) ds)"
  show "(\<exists>e. x = e @ ''/'' \<and> D (ds @ [e])) \<or> F (ds @ [x])"
  proof (cases "ds = cs \<and> x = c")
    case False
    with x have "x \<in> set (S ds)" by (auto split: if_splits)
    then show ?thesis by (rule tree_listed [OF t ds]) auto
  qed (use f in auto)
qed (auto dest: treeD(2-5) [OF t] intro: treeD(1,6,7) [OF t])

lemma tree_rm:
  assumes t: "tree D F S" and f: "F (cs @ [c])"
  shows "tree D (F(cs @ [c] := False)) (S(cs := filter (\<lambda>x. x \<noteq> c) (S cs)))"
proof (rule treeI)
  fix ds x
  assume ds: "D ds" and x: "x \<in> set ((S(cs := filter (\<lambda>x. x \<noteq> c) (S cs))) ds)"
  then have "x \<in> set (S ds)" and "ds \<noteq> cs \<or> x \<noteq> c" by (auto split: if_splits)
  then show "(\<exists>e. x = e @ ''/'' \<and> D (ds @ [e])) \<or> (F(cs @ [c] := False)) (ds @ [x])"
    by (auto elim: tree_listed [OF t ds])
next
  fix ds e
  assume "D (ds @ [e])"
  then have "e @ ''/'' \<in> set (S ds)" by (rule treeD(7) [OF t])
  moreover have "e @ ''/'' \<noteq> c" using treeD(5) [OF t f] by auto
  ultimately show "e @ ''/'' \<in> set ((S(cs := filter (\<lambda>x. x \<noteq> c) (S cs))) ds)" by auto
qed (auto dest: treeD(2-5) [OF t] intro: distinct_filter treeD(1,6) [OF t] split: if_splits)

section \<open>The namespace as a tree\<close>

definition a_dir :: "namespace \<Rightarrow> string \<Rightarrow> bool" where
  "a_dir ns p \<longleftrightarrow> (case ns p of Some i \<Rightarrow> valid i \<and> is_directory i | None \<Rightarrow> p = ''/'')"

definition a_file :: "namespace \<Rightarrow> string \<Rightarrow> bool" where
  "a_file ns p \<longleftrightarrow> (case ns p of Some i \<Rightarrow> valid i \<and> \<not> is_directory i | None \<Rightarrow> False)"

definition a_sub :: "namespace \<Rightarrow> string \<Rightarrow> string list" where
  "a_sub ns p = (case ns p of Some i \<Rightarrow> sub i | None \<Rightarrow> [])"

abbreviation dirs :: "namespace \<Rightarrow> string list \<Rightarrow> bool" where
  "dirs ns cs \<equiv> names_ok cs \<and> a_dir ns (render True cs)"

abbreviation files :: "namespace \<Rightarrow> string list \<Rightarrow> bool" where
  "files ns cs \<equiv> names_ok cs \<and> a_file ns (render True cs)"

abbreviation listing :: "namespace \<Rightarrow> string list \<Rightarrow> string list" where
  "listing ns cs \<equiv> a_sub ns (render True cs)"

definition absolute_keys :: "namespace \<Rightarrow> bool" where
  "absolute_keys ns \<longleftrightarrow>
     (\<forall>p i. ns p = Some i \<longrightarrow> fullpath i = p \<and> (\<exists>cs. names_ok cs \<and> p = render True cs))"

definition ns_tree :: "namespace \<Rightarrow> bool" where
  "ns_tree ns \<longleftrightarrow> absolute_keys ns \<and> tree (dirs ns) (files ns) (listing ns)"

text \<open>The requests that respect what the handlers leave unchecked.\<close>

fun polite :: "namespace \<Rightarrow> request \<Rightarrow> bool" where
  "polite ns (Mkdir path) \<longleftrightarrow>
     \<not> a_file ns (path_parent (simplify_path (if hd path \<noteq> slash then slash # path else path)))"
| "polite ns (Rm path) \<longleftrightarrow> \<not> a_dir ns (simplify_path path)"
| "polite ns (Put path st) \<longleftrightarrow> has_root path \<and> a_dir ns (path_parent (simplify_path path))"
| "polite ns (PutOk path fsize subs) \<longleftrightarrow> True"

text \<open>Requests served one after the other, each polite when its turn comes.\<close>

inductive served ::
    "json_lib \<Rightarrow> ('db, 'bk) kv_lib \<Rightarrow> ('db \<Rightarrow> string \<rightharpoonup> string) \<Rightarrow> ('db, 'bk) rocksdb \<Rightarrow> ('db, 'bk) rocksdb \<Rightarrow> bool"
  for J K view r0 where
  served_start: "served J K view r0 r0"
| served_step: "served J K view r0 r \<Longrightarrow> polite (ns_of J view (store r)) req \<Longrightarrow>
     serve J K env req r = (x, r') \<Longrightarrow> served J K view r0 r'"

lemma a_exists_iff: "a_exists ns p \<longleftrightarrow> p = ''/'' \<or> a_dir ns p \<or> a_file ns p"
  by (auto simp: a_exists_def a_dir_def a_file_def split: option.splits)

lemma ns_tree_empty: "ns_tree Map.empty"
proof -
  have "names_ok cs \<Longrightarrow> render True cs = ''/'' \<longleftrightarrow> cs = []" for cs
    using render_inject [of cs "[]"] by (simp add: render_root names_ok_def)
  then show ?thesis
    by (auto simp: ns_tree_def absolute_keys_def a_dir_def a_file_def a_sub_def render_root names_ok_def
        intro!: treeI)
qed

lemma a_file_key:
  assumes "absolute_keys ns" and "a_file ns p"
  obtains cs i where "names_ok cs" and "p = render True cs" and "ns p = Some i" and "fullpath i = p"
    and "valid i" and "\<not> is_directory i"
proof -
  from assms(2) obtain i where i: "ns p = Some i" "valid i" "\<not> is_directory i"
    by (auto simp: a_file_def split: option.splits)
  with assms(1) obtain cs where "fullpath i = p" "names_ok cs" "p = render True cs"
    unfolding absolute_keys_def by blast
  with i show thesis by (intro that)
qed

text \<open>A key below the root, and one below another key.\<close>

lemma key_cases:
  assumes "names_ok cs" and "render True cs \<noteq> ''/''"
  obtains ds c where "cs = ds @ [c]" and "names_ok (ds @ [c])" and "names_ok ds" and "slash \<notin> set c"
    and "path_parent (render True cs) = render True ds" and "path_filename (render True cs) = c"
proof (cases cs rule: rev_cases)
  case Nil
  with assms show thesis by (simp add: render_root)
next
  case (snoc ds c)
  with assms(1) have "names_ok (ds @ [c])" "names_ok ds" "plain_name c" by (simp_all add: names_ok_snoc)
  with snoc show thesis by (intro that [of ds c]) (auto simp: path_simps plain_name_def)
qed

text \<open>The three readings of a namespace after its inodes at one and at two keys change.\<close>

lemma ns_update:
  assumes "names_ok cs"
  shows "dirs (ns(render True cs \<mapsto> i)) = (dirs ns)(cs := valid i \<and> is_directory i)"
    and "files (ns(render True cs \<mapsto> i)) = (files ns)(cs := valid i \<and> \<not> is_directory i)"
    and "listing (ns(render True cs \<mapsto> i)) ds = (if names_ok ds then ((listing ns)(cs := sub i)) ds
      else listing (ns(render True cs \<mapsto> i)) ds)"
  using assms by (auto simp: fun_eq_iff a_dir_def a_file_def a_sub_def render_inject)

lemma absolute_keys_update:
  "absolute_keys ns \<Longrightarrow> names_ok cs \<Longrightarrow> fullpath i = render True cs \<Longrightarrow>
     absolute_keys (ns(render True cs \<mapsto> i))"
  by (auto simp: absolute_keys_def)

lemma ns_tree_update:
  assumes abs: "absolute_keys ns" and names: "names_ok (ds @ [c])"
    and p: "fullpath p = render True ds" "valid p" "is_directory p"
    and i: "fullpath i = render True (ds @ [c])"
    and t: "tree ((dirs ns)(ds := True, ds @ [c] := valid i \<and> is_directory i))
      ((files ns)(ds := False, ds @ [c] := valid i \<and> \<not> is_directory i))
      ((listing ns)(ds := sub p, ds @ [c] := sub i))"
  shows "ns_tree (ns(render True ds \<mapsto> p, render True (ds @ [c]) \<mapsto> i))"
proof -
  let ?n = "ns(render True ds \<mapsto> p)"
  let ?m = "?n(render True (ds @ [c]) \<mapsto> i)"
  from names have ds: "names_ok ds" by (simp add: names_ok_snoc)
  have D: "dirs ?m = (dirs ns)(ds := True, ds @ [c] := valid i \<and> is_directory i)"
    and F: "files ?m = (files ns)(ds := False, ds @ [c] := valid i \<and> \<not> is_directory i)"
    unfolding ns_update(1,2) [OF names] ns_update(1,2) [OF ds] using p by simp_all
  have "listing ?m es = ((listing ns)(ds := sub p, ds @ [c] := sub i)) es" if "names_ok es" for es
    using that ds names by (auto simp: a_sub_def render_inject)
  then have "tree (dirs ?m) (files ?m) (listing ?m)"
    unfolding D F using names ds by (intro tree_cong [OF t]) (auto split: if_splits)
  moreover have "absolute_keys ?m"
    using abs names ds p(1) i by (intro absolute_keys_update)
  ultimately show ?thesis by (simp add: ns_tree_def)
qed

text \<open>The parent a change updates is the directory above it.\<close>

lemma a_parent_dir:
  assumes "absolute_keys ns" and "a_dir ns (inode_parent_path i)"
  obtains p where "a_parent ns i = Some p" and "fullpath p = inode_parent_path i" and "valid p" and "is_directory p"
    and "sub p = a_sub ns (inode_parent_path i)"
proof (cases "ns (inode_parent_path i)")
  case None
  with assms(2) have "inode_parent_path i = ''/''" by (simp add: a_dir_def)
  with None show thesis
    by (intro that [of "get_default_dir ''/''"]) (simp_all add: a_parent_def get_default_dir_def a_sub_def)
next
  case (Some p)
  with assms show thesis
    by (intro that [of p]) (auto simp: a_parent_def a_dir_def a_sub_def absolute_keys_def)
qed

lemma dirs_same: "names_ok ds \<Longrightarrow> a_dir ns (render True ds) \<Longrightarrow> (dirs ns)(ds := True) = dirs ns"
  by (auto simp: fun_eq_iff)

lemma files_same: "a_dir ns (render True ds) \<Longrightarrow> (files ns)(ds := False) = files ns"
  by (auto simp: fun_eq_iff a_dir_def a_file_def split: option.splits)

section \<open>The operations keep the tree\<close>

text \<open>\<open>child_at ns ds c i\<close>: the inode \<open>i\<close> names the entry \<open>c\<close> of the directory \<open>ds\<close>.\<close>

definition child_at :: "namespace \<Rightarrow> string list \<Rightarrow> string \<Rightarrow> inode \<Rightarrow> bool" where
  "child_at ns ds c i \<longleftrightarrow>
     names_ok (ds @ [c]) \<and> fullpath i = render True (ds @ [c]) \<and> a_dir ns (render True ds)"

lemma child_facts:
  assumes t: "ns_tree ns" and ch: "child_at ns ds c i"
  shows "names_ok ds" "slash \<notin> set c" "inode_parent_path i = render True ds"
  "inode_filename i = c @ (if is_directory i then ''/'' else [])"
  "absolute_keys ns" "tree (dirs ns) (files ns) (listing ns)"
  "(dirs ns)(ds := True) = dirs ns" "(files ns)(ds := False) = files ns"
  using assms
  by (simp_all add: child_at_def names_ok_snoc plain_name_def inode_parent_path_def inode_filename_def path_simps
      ns_tree_def dirs_same files_same)

lemma child_parent:
  assumes "ns_tree ns" and "child_at ns ds c i"
  obtains p where "a_parent ns i = Some p" and "fullpath p = render True ds" and "valid p" and "is_directory p"
    and "sub p = listing ns ds"
  using a_parent_dir [OF child_facts(5) [OF assms], of i] assms(2) child_facts(3) [OF assms]
  unfolding child_at_def by metis

lemma mkdir_tree:
  assumes t: "ns_tree ns" and ch: "child_at ns ds c i" and new: "valid i" "is_directory i" "sub i = []" "\<not> a_exists ns (render True (ds @ [c]))"
  shows "\<exists>ns'. a_mkdir i ns = Some ns' \<and> ns_tree ns'"
proof -
  note facts = child_facts [OF t ch]
  from ch have names: "names_ok (ds @ [c])" and i: "fullpath i = render True (ds @ [c])"
    and d: "a_dir ns (render True ds)" by (simp_all add: child_at_def)
  obtain p where p: "a_parent ns i = Some p" "fullpath p = render True ds" "valid p" "is_directory p"
    "sub p = listing ns ds" by (rule child_parent [OF t ch])
  have "tree ((dirs ns)(ds := True, ds @ [c] := True)) (files ns)
      ((listing ns)(ds := add_name (c @ ''/'') (listing ns ds), ds @ [c] := []))"
    unfolding facts(7) using new(4) d facts(1,2)
    by (intro tree_mkdir facts) (auto simp: a_exists_iff)
  moreover have "files ns = (files ns)(ds := False, ds @ [c] := False)"
    unfolding facts(8) using new(4) by (auto simp: fun_eq_iff a_exists_iff)
  ultimately have "ns_tree (ns(render True ds \<mapsto> add_sub (c @ ''/'') p, render True (ds @ [c]) \<mapsto> i))"
    using new(1-3) p i by (intro ns_tree_update [OF facts(5) names]) (simp_all add: sub_add_sub)
  with p i facts(4) new(2) show ?thesis by (simp add: a_mkdir_def)
qed

lemma put_tree:
  assumes t: "ns_tree ns" and ch: "child_at ns ds c i" and new: "valid i" "\<not> is_directory i" "\<not> a_dir ns (render True (ds @ [c]))"
  shows "\<exists>ns'. a_put i ns = Some ns' \<and> ns_tree ns'"
proof -
  note facts = child_facts [OF t ch]
  from ch have names: "names_ok (ds @ [c])" and i: "fullpath i = render True (ds @ [c])"
    and d: "a_dir ns (render True ds)" by (simp_all add: child_at_def)
  let ?m = "ns(render True (ds @ [c]) \<mapsto> i)"
  have D: "dirs ?m = dirs ns" and F: "files ?m = (files ns)(ds @ [c] := True)"
    unfolding ns_update(1,2) [OF names] using new by (auto simp: fun_eq_iff)
  have "tree (dirs ?m) (files ?m) (listing ns)"
    unfolding D F by (rule tree_put [OF facts(6)]) (use d facts in auto)
  then have "tree (dirs ?m) (files ?m) (listing ?m)"
    by (rule tree_cong) (use new names in \<open>auto simp: a_sub_def a_dir_def render_inject\<close>)
  moreover have "absolute_keys ?m" by (rule absolute_keys_update [OF facts(5) names i])
  ultimately show ?thesis using i by (simp add: a_put_def ns_tree_def)
qed

lemma put_ok_tree:
  assumes t: "ns_tree ns" and ch: "child_at ns ds c i" and j: "ns (render True (ds @ [c])) = Some j" "fullpath j = render True (ds @ [c])" "valid j" "\<not> is_directory j"
    and new: "\<not> is_directory i"
  shows "\<exists>ns'. a_put_ok g i ns = Some ns' \<and> ns_tree ns'"
proof -
  note facts = child_facts [OF t ch]
  from ch have names: "names_ok (ds @ [c])" and i: "fullpath i = render True (ds @ [c])"
    and d: "a_dir ns (render True ds)" by (simp_all add: child_at_def)
  obtain p where p: "a_parent ns i = Some p" "fullpath p = render True ds" "valid p" "is_directory p"
    "sub p = listing ns ds" by (rule child_parent [OF t ch])
  let ?j = "(inode_unlock j)\<lparr>sub := sub i, filesize := filesize i\<rparr>"
  have j': "fullpath ?j = render True (ds @ [c])" "valid ?j" "\<not> is_directory ?j"
    using j by (simp_all add: inode_unlock_def)
  have get: "a_get ns (set_fullpath (render True (ds @ [c])) (new_inode g)) = j"
    using j names by (simp add: a_get_def)
  have l: "tree (dirs ns) (files ns) ((listing ns)(ds := add_name c (listing ns ds)))"
    using j names by (intro tree_list facts) (simp add: a_file_def)
  have same: "(dirs ns)(ds @ [c] := False) = dirs ns" "(files ns)(ds @ [c] := True) = files ns"
    using j names by (auto simp: fun_eq_iff a_dir_def a_file_def)
  have "tree ((dirs ns)(ds := True, ds @ [c] := False)) ((files ns)(ds := False, ds @ [c] := True))
      ((listing ns)(ds := add_name c (listing ns ds), ds @ [c] := sub i))"
    unfolding facts(7,8) same by (rule tree_cong [OF l]) (use j in \<open>auto simp: a_dir_def\<close>)
  then have "ns_tree (ns(render True ds \<mapsto> add_sub c p, render True (ds @ [c]) \<mapsto> ?j))"
    using j' p by (intro ns_tree_update [OF facts(5) names]) (simp_all add: sub_add_sub)
  then show ?thesis using p j' i j(2) facts(4) new by (simp add: a_put_ok_def get)
qed

lemma rm_tree:
  assumes t: "ns_tree ns" and ch: "child_at ns ds c i" and new: "a_file ns (render True (ds @ [c]))" "\<not> valid i" "\<not> is_directory i"
  shows "\<exists>ns'. a_rm i ns = Some ns' \<and> ns_tree ns'"
proof -
  note facts = child_facts [OF t ch]
  from ch have names: "names_ok (ds @ [c])" and i: "fullpath i = render True (ds @ [c])"
    and d: "a_dir ns (render True ds)" by (simp_all add: child_at_def)
  obtain p where p: "a_parent ns i = Some p" "fullpath p = render True ds" "valid p" "is_directory p"
    "sub p = listing ns ds" by (rule child_parent [OF t ch])
  have l: "tree (dirs ns) ((files ns)(ds @ [c] := False)) ((listing ns)(ds := filter (\<lambda>x. x \<noteq> c) (listing ns ds)))"
    using new(1) names by (intro tree_rm facts) simp
  have same: "(dirs ns)(ds @ [c] := False) = dirs ns"
    using new(1) by (auto simp: fun_eq_iff a_dir_def a_file_def split: option.splits)
  have "\<not> dirs ns (ds @ [c])"
    using new(1) by (auto simp: a_dir_def a_file_def split: option.splits)
  then have "tree ((dirs ns)(ds := True, ds @ [c] := False)) ((files ns)(ds := False, ds @ [c] := False))
      ((listing ns)(ds := filter (\<lambda>x. x \<noteq> c) (listing ns ds), ds @ [c] := sub i))"
    unfolding facts(7,8) same by (intro tree_cong [OF l]) auto
  then have "ns_tree (ns(render True ds \<mapsto> erase_sub c p, render True (ds @ [c]) \<mapsto> i))"
    using i p new(2,3)
    by (intro ns_tree_update [OF facts(5) names]) (simp_all add: erase_sub_def)
  then show ?thesis using p i facts(4) new(3) by (simp add: a_rm_def)
qed

text \<open>What a polite request proposes stands in a directory.\<close>

lemma child_atI:
  assumes "has_root s" and "fullpath i = simplify_path s" and "fullpath i \<noteq> ''/''"
    and "a_dir ns (path_parent (fullpath i))"
  obtains ds c where "child_at ns ds c i" and "fullpath i = render True (ds @ [c])"
proof -
  from simplify_path_absE [OF assms(1)] obtain cs where cs: "names_ok cs" "fullpath i = render True cs"
    unfolding assms(2) by metis
  with assms(3) obtain ds c where "cs = ds @ [c]" "names_ok (ds @ [c])"
    "path_parent (render True cs) = render True ds"
    by (metis key_cases)
  with cs assms(4) show thesis by (intro that [of ds c]) (simp_all add: child_at_def)
qed

lemma file_child:
  assumes t: "ns_tree ns" and f: "a_file ns (fullpath i)"
  obtains ds c j where "child_at ns ds c i" and "fullpath i = render True (ds @ [c])"
    and "ns (fullpath i) = Some j" and "fullpath j = fullpath i" and "valid j" and "\<not> is_directory j"
proof -
  from t have abs: "absolute_keys ns" and tr: "tree (dirs ns) (files ns) (listing ns)" by (simp_all add: ns_tree_def)
  from a_file_key [OF abs f] obtain cs j where cs: "names_ok cs" "fullpath i = render True cs"
    and j: "ns (fullpath i) = Some j" "fullpath j = fullpath i" "valid j" "\<not> is_directory j" by metis
  from treeD(1) [OF tr] f have "fullpath i \<noteq> ''/''"
    by (auto simp: a_dir_def a_file_def render_root split: option.splits)
  with cs obtain ds c where ds: "cs = ds @ [c]" "names_ok (ds @ [c])" by (metis key_cases)
  have "files ns (ds @ [c])" using f cs ds by simp
  then have "a_dir ns (render True ds)" using treeD(3) [OF tr] by blast
  with ds cs j show thesis by (intro that [of ds c j]) (simp_all add: child_at_def)
qed

lemma root_dir: "ns_tree ns \<Longrightarrow> a_dir ns ''/''"
  using treeD(1) [of "dirs ns" "files ns" "listing ns"] by (simp add: ns_tree_def render_root)

lemma request_tree:
  assumes t: "ns_tree ns" and pol: "polite ns req" and path: "req_path req \<noteq> []"
    and prep: "a_prepare env req ns = Inr (op, i)"
  shows "\<exists>ns'. a_apply g op i ns = Some ns' \<and> ns_tree ns'"
proof (cases req)
  case (Mkdir p)
  let ?p = "if hd p \<noteq> slash then slash # p else p"
  have root: "has_root ?p" using path Mkdir by (simp add: has_root_def)
  from prep Mkdir have i: "op = OP_MKDIR" "i = get_default_dir ?p" and
    ex: "a_exists ns (inode_parent_path i)" "\<not> a_exists ns (fullpath i)"
    by (auto simp: Let_def split: if_splits)
  have fp: "fullpath i = simplify_path ?p" using i by simp
  have par: "a_dir ns (path_parent (fullpath i))"
    using ex(1) pol Mkdir fp root_dir [OF t] by (auto simp: a_exists_iff inode_parent_path_def)
  have "fullpath i \<noteq> ''/''" using ex(2) by (auto simp: a_exists_iff)
  then obtain ds c where "child_at ns ds c i" "fullpath i = render True (ds @ [c])"
    by (rule child_atI [OF root fp _ par])
  then show ?thesis using mkdir_tree [OF t] ex(2) i by (simp add: get_default_dir_def)
next
  case (Rm p)
  from prep Rm have i: "op = OP_RM" "i = (set_fullpath p (new_inode (garbage env)))\<lparr>valid := False\<rparr>"
    and ex: "a_exists ns (fullpath i)" by (auto simp: Let_def split: if_splits)
  have isf: "a_file ns (fullpath i)" using ex pol Rm i root_dir [OF t] by (auto simp: a_exists_iff)
  then obtain ds c j where "child_at ns ds c i" "fullpath i = render True (ds @ [c])"
    by (rule file_child [OF t])
  then show ?thesis using rm_tree [OF t] isf i by (simp add: set_fullpath_def new_inode_def)
next
  case (Put p st)
  let ?j = "a_get ns (set_fullpath p (new_inode (garbage env)))"
  from prep Put obtain s where i: "op = OP_PUT" "valid i" "\<not> is_directory i" "fullpath i = fullpath ?j"
    and nd: "\<not> (valid ?j \<and> is_directory ?j)"
    by (auto simp: Let_def inode_lock_Inr res_simps split: if_splits)
  have fp: "fullpath i = simplify_path p"
    using t unfolding i(4) by (auto simp: a_get_def ns_tree_def absolute_keys_def split: option.splits)
  have notdir: "\<not> a_dir ns (fullpath i)"
    using nd unfolding fp by (auto simp: a_get_def a_dir_def split: option.splits)
  then have "fullpath i \<noteq> ''/''" using root_dir [OF t] by auto
  moreover have "a_dir ns (path_parent (fullpath i))" using pol Put fp by simp
  ultimately obtain ds c where "child_at ns ds c i" "fullpath i = render True (ds @ [c])"
    using child_atI [of p i ns] pol Put fp by auto
  then show ?thesis using put_tree [OF t] i(1-3) notdir by simp
next
  case (PutOk p fsize subs)
  let ?j = "a_get ns (set_fullpath p (new_inode (garbage env)))"
  from prep PutOk have i: "op = OP_PUTOK" "i = ?j\<lparr>sub := subs, filesize := fsize\<rparr>" "valid ?j" "\<not> is_directory ?j"
    by (auto simp: Let_def split: if_splits)
  then obtain j where j: "ns (simplify_path p) = Some j" "?j = j"
    by (auto simp: a_get_def split: option.splits if_splits)
  have fp: "fullpath j = simplify_path p" using j t by (auto simp: ns_tree_def absolute_keys_def)
  then have "a_file ns (fullpath i)" using i j by (simp add: a_file_def)
  then obtain ds c j' where "child_at ns ds c i" "fullpath i = render True (ds @ [c])" "ns (fullpath i) = Some j'"
    "fullpath j' = fullpath i" "valid j'" "\<not> is_directory j'"
    by (rule file_child [OF t])
  then show ?thesis using put_ok_tree [OF t] i by auto
qed

section \<open>Requests are answered\<close>

lemma no_crash_st_from_string [simp]: "no_crash (st_from_string s)"
  by (auto simp: st_from_string_def intro!: no_crash_rules split: option.splits prod.splits)

lemma no_crash_inode_lock [simp]: "no_crash (inode_lock t i)"
  by (simp add: inode_lock_def)

lemma no_crash_check_leader [simp]: "no_crash (check_leader env)"
  by (simp add: check_leader_def Let_def)

lemma rpc_propose_no_crash: "no_crash x \<Longrightarrow> rpc_propose x \<noteq> Crashed e"
  by (cases x; cases "projl x") (auto simp: rpc_propose_def rpc_fail_def)

context meta_store
begin

lemma read_no_crash [simp]:
  "no_crash (path_exists J K r p)" "no_crash (get_inode J K r i)"
  by (auto simp: path_exists_def get_inode_def not_ready_def split: prod.splits db_status.splits)

lemma nn_handle_no_crash: "nn_handle J K env r req \<noteq> Crashed e"
  by (cases req)
    (auto simp: nn_mkdir_def nn_rm_def nn_put_def nn_put_ok_def prepare_mkdir_def prepare_rm_def prepare_put_def
      prepare_put_ok_def try_to_add_def try_to_rm_def not_ready_def path_required_def Let_def
      intro!: rpc_propose_no_crash no_crash_rules)

lemma parent_no_crash:
  "db_ok J view (store r) \<Longrightarrow> a_parent (ns r) i \<noteq> None \<Longrightarrow> no_crash (get_parent_inode J K r i)"
  by (auto simp: get_parent_inode_def a_parent_def ns_of_def dest!: get_missing
      split: prod.splits db_status.splits option.splits if_splits)

lemma write_two_no_crash: "no_crash (fst (write_two J K err p i r))"
  using inode_value_no_crash [of p] inode_value_no_crash [of i]
  by (cases "inode_value J p"; cases "inode_value J i") (auto simp: write_two_def split: prod.splits)

lemma apply_entry_no_crash:
  assumes ok: "db_ok J view (store r)" and i: "inode_value J i = Inr v" "inode_ok i"
    and a: "a_apply g op i (ns r) \<noteq> None"
  shows "no_crash (fst (apply_entry J K g (entry op v) r))"
proof -
  have p: "inode_parse J v = Inr i" by (rule inode_parse_value [OF i])
  have par: "no_crash (get_parent_inode J K r i)" if "op \<in> {OP_MKDIR, OP_PUTOK, OP_RM}"
    using that a by (intro parent_no_crash [OF ok]) (auto simp: a_mkdir_def a_put_ok_def a_rm_def)
  have get: "no_crash (get_inode J K r (set_fullpath (fullpath i) (new_inode g)))" by simp
  show ?thesis
    using p par get i(1) write_two_no_crash
    by (cases op; cases "get_parent_inode J K r i"; cases "get_inode J K r (set_fullpath (fullpath i) (new_inode g))")
      (auto simp: apply_entry_def internal_mkdir_def internal_rm_def internal_put_def internal_put_ok_def
        not_ready_def split: prod.splits)
qed

lemma serve_cases:
  assumes ok: "db_ok J view (store r)"
  obtains (refused) resp where "serve J K env req r = (Inr resp, r)" and "\<not> success resp"
  | (tried) op i v x r' where "a_prepare env req (ns r) = Inr (op, i)" and "inode_value J i = Inr v"
    and "inode_ok i" and "req_path req \<noteq> []"
    and "apply_entry J K (garbage env) (entry op v) r = (x, r')"
    and "serve J K env req r = (case x of Inr _ \<Rightarrow> Inr (succ_response empty_response) | Inl e \<Rightarrow> fail_response e empty_response, r')"
proof (cases "nn_handle J K env r req")
  case (Replied resp)
  then have "\<not> success resp"
    by (cases req) (auto simp: nn_mkdir_def nn_rm_def nn_put_def nn_put_ok_def rpc_propose_def rpc_fail_def
      dest: fail_response_not_success split: sum.splits)
  with Replied refused show thesis by (simp add: serve_def)
next
  case (Proposed d)
  from ok Proposed obtain op i v where p: "a_prepare env req (ns r) = Inr (op, i)" "inode_value J i = Inr v"
    "d = entry op v" "req_path req \<noteq> []" by (rule nn_handle_proposed)
  obtain x r' where e: "apply_entry J K (garbage env) d r = (x, r')" by fastforce
  from Proposed e have "serve J K env req r =
      (case x of Inr _ \<Rightarrow> Inr (succ_response empty_response) | Inl e \<Rightarrow> fail_response e empty_response, r')"
    by (cases x) (auto simp: serve_def apply_one_def split: sum.splits)
  with p e nn_handle_proposed_ok [OF ok p(1)] show thesis by (intro tried) auto
next
  case (Crashed e)
  with nn_handle_no_crash show thesis by blast
qed

end

section \<open>Served requests\<close>

lemma action_refines_ns:
  assumes "action_refines J view r (x, r') ans"
  shows "db_ok J view (store r')" and "db_ready r' = db_ready r"
    and "x = Inr u \<Longrightarrow> ans = Some (ns_of J view (store r'))"
    and "x = Inl e \<Longrightarrow> ns_of J view (store r') = ns_of J view (store r)"
  using assms by (auto simp: action_refines_def ns_of_def fun_eq_iff)

context meta_store
begin

lemma serve_success:
  assumes ok: "db_ok J view (store r)" and s: "serve J K env req r = (Inr resp, r')" "success resp"
  obtains op i v where "a_prepare env req (ns r) = Inr (op, i)" and "inode_value J i = Inr v" and "inode_ok i"
    and "req_path req \<noteq> []" and "a_apply (garbage env) op i (ns r) = Some (ns r')"
    and "db_ok J view (store r')" and "db_ready r' = db_ready r"
  using ok
proof (cases rule: serve_cases [of r env req])
  case (refused resp)
  with s show thesis by auto
next
  case (tried op i v x r1)
  from apply_entry_refines [OF ok tried(2,3), of "garbage env" op]
  have ref: "action_refines J view r (x, r1) (a_apply (garbage env) op i (ns r))" unfolding tried(5) .
  from tried s have "r1 = r'" "\<not> isl x"
    by (auto dest: fail_response_not_success [OF sym] split: sum.splits)
  with ref tried show thesis
    by (cases x) (auto intro: that dest: action_refines_ns)
qed

lemma serve_unchanged:
  assumes ok: "db_ok J view (store r)" and s: "serve J K env req r = (x, r')"
    and x: "\<And>resp. x = Inr resp \<Longrightarrow> \<not> success resp"
  shows "ns r' = ns r \<and> db_ok J view (store r') \<and> db_ready r' = db_ready r"
  using ok
proof (cases rule: serve_cases [of r env req])
  case (refused resp)
  with s ok show ?thesis by simp
next
  case (tried op i v y r1)
  from apply_entry_refines [OF ok tried(2,3), of "garbage env" op]
  have ref: "action_refines J view r (y, r1) (a_apply (garbage env) op i (ns r))" unfolding tried(5) .
  from tried(6) s x obtain e where "y = Inl e" "r1 = r'"
    by (cases y) (auto simp: succ_response_def)
  with ref show ?thesis by (auto dest: action_refines_ns)
qed

lemma serve_tree:
  assumes ok: "db_ok J view (store r)" and t: "ns_tree (ns r)" and pol: "polite (ns r) req"
    and s: "serve J K env req r = (x, r')"
  shows "ns_tree (ns r') \<and> (\<exists>resp. x = Inr resp)"
proof (cases rule: serve_cases [OF ok, of env req])
  case (1 resp)
  with s t show ?thesis by auto
next
  case (2 op i v y r1)
  from request_tree [OF t pol 2(4,1)] obtain ns' where
    a: "a_apply (garbage env) op i (ns r) = Some ns'" "ns_tree ns'" by metis
  from apply_entry_refines [OF ok 2(2,3), of "garbage env" op]
  have ref: "action_refines J view r (y, r1) (Some ns')" unfolding 2(5) a(1) .
  have "no_crash y" using apply_entry_no_crash [OF ok 2(2,3), of "garbage env" op] a(1) 2(5) by simp
  then show ?thesis
    using s 2(6) a(2) t action_refines_ns(3,4) [OF ref] fail_response_catchable
    by (cases y) auto
qed

end

section \<open>Properties\<close>

text \<open>
C8: A request is atomic, whatever the store, the log entry and the request are: if the client sees
success, the namespace has changed exactly by the abstract operation the handler's checks allow;
if it sees a failure, or the process ends, the namespace is unchanged.  The store stays well formed.
\<close>

theorem serve_atomic:
  assumes "meta_store K view J" and "db_ok J view (store r)"
    and "serve J K env req r = (x, r')"
  shows "db_ok J view (store r') \<and>
    (case x of
       Inr resp \<Rightarrow>
         if success resp then
           (\<exists>op i. a_prepare env req (ns_of J view (store r)) = Inr (op, i) \<and>
              a_apply (garbage env) op i (ns_of J view (store r)) = Some (ns_of J view (store r')))
         else ns_of J view (store r') = ns_of J view (store r)
     | Inl e \<Rightarrow> ns_of J view (store r') = ns_of J view (store r))"
proof (cases "\<exists>resp. x = Inr resp \<and> success resp")
  case True
  then obtain resp where x: "x = Inr resp" "success resp" by blast
  from meta_store.serve_success [OF assms(1,2) assms(3) [unfolded x(1)] x(2)] obtain op i where
    "a_prepare env req (ns_of J view (store r)) = Inr (op, i)"
    "a_apply (garbage env) op i (ns_of J view (store r)) = Some (ns_of J view (store r'))"
    "db_ok J view (store r')" by blast
  with x show ?thesis by auto
next
  case False
  with meta_store.serve_unchanged [OF assms] show ?thesis by (auto split: sum.splits)
qed

theorem serve_atomic_witness:
  "fst (serve text_json map_kv (leader_env 1) (Mkdir ''/a'') empty_db) = Inr (succ_response empty_response) \<and>
   (\<exists>op i. a_prepare (leader_env 1) (Mkdir ''/a'') Map.empty = Inr (op, i) \<and>
      a_apply False op i Map.empty =
        Some (ns_of text_json (\<lambda>m. m) (store (snd (serve text_json map_kv (leader_env 1) (Mkdir ''/a'') empty_db)))))"
proof -
  have "fst (serve text_json map_kv (leader_env 1) (Mkdir ''/a'') empty_db) = Inr (succ_response empty_response)"
    by code_simp
  then show ?thesis
    using serve_atomic [OF map_meta_store empty_db_ok(1) surjective_pairing, of "leader_env 1" "Mkdir ''/a''"]
    by (simp add: empty_db_ok succ_response_def leader_env_def)
qed

text \<open>
C10: Starting from an empty store, requests within \<open>polite\<close> keep the directory tree: every key is an
absolute path, the root is a directory, whatever is valid stands in a directory, and a directory
lists exactly its subdirectories and only valid files, without repetition.
\<close>

theorem polite_requests_keep_tree:
  assumes "meta_store K view J" and "view (store r0) = Map.empty" and "served J K view r0 r"
  shows "ns_tree (ns_of J view (store r))"
proof -
  have ok: "db_ok J view (store r0)" and "ns_of J view (store r0) = Map.empty"
    using assms(2) by (simp_all add: db_ok_def ns_of_def fun_eq_iff)
  with ns_tree_empty have "ns_tree (ns_of J view (store r0))" by simp
  with assms(3) ok have "ns_tree (ns_of J view (store r)) \<and> db_ok J view (store r)"
  proof (induction rule: served.induct)
    case (served_step r req env x r')
    then have inv: "ns_tree (ns_of J view (store r))" "db_ok J view (store r)" by blast+
    have "db_ok J view (store r')"
      using meta_store.serve_success [OF assms(1) inv(2)] meta_store.serve_unchanged [OF assms(1) inv(2)]
        served_step.hyps(3) by metis
    with meta_store.serve_tree [OF assms(1) inv(2,1) served_step.hyps(2,3)] show ?case by blast
  qed blast
  then show ?thesis ..
qed

theorem polite_requests_keep_tree_witness:
  "ns_tree (ns_of text_json (\<lambda>m. m) (store (snd (serve text_json map_kv (leader_env 1) (Mkdir ''/a'') empty_db))))"
proof (rule polite_requests_keep_tree [OF map_meta_store])
  show "store empty_db = Map.empty" by (simp add: empty_db_def)
  show "served text_json map_kv (\<lambda>m. m) empty_db
      (snd (serve text_json map_kv (leader_env 1) (Mkdir ''/a'') empty_db))"
    by (rule served_step [OF served_start _ surjective_pairing]) (simp add: empty_db_ok a_file_def)
qed

text \<open>
C13: On a well-formed tree a polite request always gets a response: no assertion fails, neither in
the handler nor when its entry is applied, whatever errors the store reports.
\<close>

theorem polite_request_answered:
  assumes "meta_store K view J" and "db_ok J view (store r)"
    and "ns_tree (ns_of J view (store r))" and "polite (ns_of J view (store r)) req"
  shows "\<exists>resp. fst (serve J K env req r) = Inr resp"
  using meta_store.serve_tree [OF assms surjective_pairing] by blast

theorem polite_request_answered_witness:
  "\<exists>resp. fst (serve text_json map_kv (leader_env 1) (Put ''/f'' ''RS<3,2,64>'') empty_db) = Inr resp"
proof (rule polite_request_answered [OF map_meta_store empty_db_ok(1)])
  show "ns_tree (ns_of text_json (\<lambda>m. m) (store empty_db))" by (simp add: empty_db_ok ns_tree_empty)
  have "path_parent (simplify_path ''/f'') = ''/''" "has_root ''/f''" by code_simp+
  then show "polite (ns_of text_json (\<lambda>m. m) (store empty_db)) (Put ''/f'' ''RS<3,2,64>'')"
    by (simp add: empty_db_ok a_dir_def)
qed

section \<open>What the client sees\<close>

context meta_reliable
begin

lemma rdb_ls_total:
  assumes "db_ok J view (store r)" and "db_ready r"
  shows "rdb_ls J K r i =
    (if valid (a_get (ns r) i) then Inr (a_get (ns r) i)
     else Inl (message_exception PATH_NOT_EXISTS_EXCEPTION (fullpath (a_get (ns r) i))))"
  using assms by (simp add: rdb_ls_def get_inode_total)

end

lemma parent_normal:
  assumes "has_root s" and "fullpath i = simplify_path s" and "fullpath i \<noteq> ''/''"
  shows "simplify_path (inode_parent_path i) = inode_parent_path i" and "inode_parent_path i \<noteq> fullpath i"
proof -
  from simplify_path_absE [OF assms(1)] obtain cs where cs: "names_ok cs" "fullpath i = render True cs"
    unfolding assms(2) by metis
  with assms(3) obtain ds c where "cs = ds @ [c]" "names_ok (ds @ [c])" "names_ok ds"
    "path_parent (render True cs) = render True ds"
    by (metis key_cases)
  with cs show "simplify_path (inode_parent_path i) = inode_parent_path i" "inode_parent_path i \<noteq> fullpath i"
    by (simp_all add: inode_parent_path_def render_inject)
qed

text \<open>
C14: After a successful \<open>mkdir\<close>, \<open>ls\<close> of the path returns the new empty directory, and the parent's
inode lists its name with a trailing slash.
\<close>

theorem mkdir_then_ls:
  assumes "meta_reliable K view J" and "db_ok J view (store r)" and "db_ready r"
    and "serve J K env (Mkdir path) r = (Inr resp, r')" and "success resp"
    and "i = get_default_dir (if hd path \<noteq> slash then slash # path else path)"
  shows "rdb_ls J K r' (set_fullpath (fullpath i) (new_inode g)) = Inr i \<and>
    (\<exists>d. get_inode J K r' (set_fullpath (inode_parent_path i) (new_inode g)) = Inr d \<and>
         inode_filename i \<in> set (sub d) \<and> fullpath d = inode_parent_path i)"
proof -
  note rel = assms(1)
  then have ms: "meta_store K view J" by (simp add: meta_reliable_def)
  let ?ns = "ns_of J view (store r)" and ?ns' = "ns_of J view (store r')"
  from meta_store.serve_success [OF ms assms(2,4,5)] obtain op j where
    p: "a_prepare env (Mkdir path) ?ns = Inr (op, j)" "a_apply (garbage env) op j ?ns = Some ?ns'" "path \<noteq> []"
    and ok: "db_ok J view (store r')" "db_ready r'" using assms(3) by (metis req_path.simps(1))
  from p(1) assms(6) have j: "op = OP_MKDIR" "j = i" and ex: "\<not> a_exists ?ns (fullpath i)"
    by (auto simp: Let_def split: if_splits)
  from p(2) j obtain q where q: "a_parent ?ns i = Some q"
    and ns': "?ns' = ?ns(fullpath q \<mapsto> add_sub (inode_filename i) q, fullpath i \<mapsto> i)"
    by (auto simp: a_mkdir_def)
  from ex have root: "fullpath i \<noteq> ''/''" by (auto simp: a_exists_def)
  have fp: "fullpath i = simplify_path (if hd path \<noteq> slash then slash # path else path)" using assms(6) by simp
  have "has_root (if hd path \<noteq> slash then slash # path else path)" using p(3) by (simp add: has_root_def)
  note par = parent_normal [OF this fp root]
  have qp: "fullpath q = inode_parent_path i"
    using meta_store.a_parent_path [OF ms assms(2) q] by simp
  have "a_get ?ns' (set_fullpath (fullpath i) (new_inode g)) = i" "valid i"
    using ns' fp assms(6) by (simp_all add: a_get_def get_default_dir_def)
  moreover have "a_get ?ns' (set_fullpath (inode_parent_path i) (new_inode g)) = add_sub (inode_filename i) q"
    using ns' par qp by (simp add: a_get_def)
  ultimately show ?thesis
    using meta_reliable.rdb_ls_total [OF rel ok] meta_reliable.get_inode_total [OF rel ok] qp by simp
qed

theorem mkdir_then_ls_witness:
  "rdb_ls text_json map_kv (snd (serve text_json map_kv (leader_env 1) (Mkdir ''a'') empty_db))
     (set_fullpath ''/a'' (new_inode True)) = Inr (get_default_dir ''/a'')"
proof -
  let ?s = "serve text_json map_kv (leader_env 1) (Mkdir ''a'') empty_db"
  have ok: "fst ?s = Inr (succ_response empty_response)" by code_simp
  have fp: "simplify_path ''/a'' = ''/a''" by code_simp
  have "?s = (Inr (succ_response empty_response), snd ?s)" using ok by (metis prod.collapse)
  from mkdir_then_ls [OF map_meta_reliable empty_db_ok(1,2) this _ refl, of True] show ?thesis
    by (simp add: succ_response_def fp)
qed

text \<open>
C15: After a successful \<open>put_ok\<close>, \<open>ls\<close> of the path returns the file with the size and the block
placements of the request, unlocked and with its storage type kept, and the parent lists its name.
\<close>

theorem put_ok_then_ls:
  assumes "meta_reliable K view J" and "db_ok J view (store r)" and "db_ready r" and "has_root path"
    and "simplify_path path \<noteq> ''/''"
    and "serve J K env (PutOk path fsize subs) r = (Inr resp, r')" and "success resp"
  shows "\<exists>i. ns_of J view (store r) (simplify_path path) = Some i \<and>
    rdb_ls J K r' (set_fullpath path (new_inode g)) = Inr (i\<lparr>ddl_lock := 0, sub := subs, filesize := fsize\<rparr>) \<and>
    (\<exists>d. get_inode J K r' (set_fullpath (inode_parent_path i) (new_inode g)) = Inr d \<and>
         inode_filename i \<in> set (sub d))"
proof -
  note rel = assms(1)
  then have ms: "meta_store K view J" by (simp add: meta_reliable_def)
  let ?ns = "ns_of J view (store r)" and ?ns' = "ns_of J view (store r')"
  let ?j = "a_get ?ns (set_fullpath path (new_inode (garbage env)))"
  from meta_store.serve_success [OF ms assms(2,6,7)] obtain op k where
    p: "a_prepare env (PutOk path fsize subs) ?ns = Inr (op, k)" "a_apply (garbage env) op k ?ns = Some ?ns'"
    and ok: "db_ok J view (store r')" "db_ready r'" using assms(3) by metis
  from p(1) have k: "op = OP_PUTOK" "k = ?j\<lparr>sub := subs, filesize := fsize\<rparr>" "valid ?j" "\<not> is_directory ?j"
    by (auto simp: Let_def split: if_splits)
  then obtain i where i: "?ns (simplify_path path) = Some i" "?j = i"
    by (auto simp: a_get_def split: option.splits if_splits)
  have fp: "fullpath i = simplify_path path" using meta_store.ns_Some(1) [OF ms assms(2) i(1)] .
  let ?k = "i\<lparr>sub := subs, filesize := fsize\<rparr>"
  from p(2) k i fp obtain q where q: "a_parent ?ns ?k = Some q"
    and ns': "?ns' = ?ns(fullpath q \<mapsto> add_sub (inode_filename i) q,
      simplify_path path \<mapsto> i\<lparr>ddl_lock := 0, sub := subs, filesize := fsize\<rparr>)"
    by (auto simp: a_put_ok_def a_get_def inode_unlock_def inode_filename_def)
  have "a_get ?ns' (set_fullpath path (new_inode g)) = i\<lparr>ddl_lock := 0, sub := subs, filesize := fsize\<rparr>"
    using ns' by (simp add: a_get_def)
  moreover have "a_get ?ns' (set_fullpath (inode_parent_path i) (new_inode g)) = add_sub (inode_filename i) q"
  proof -
    have "fullpath q = inode_parent_path i"
      using meta_store.a_parent_path [OF ms assms(2) q] by (simp add: inode_parent_path_def)
    with parent_normal [OF assms(4) fp] assms(5) ns' fp show ?thesis by (simp add: a_get_def)
  qed
  ultimately show ?thesis
    using meta_reliable.rdb_ls_total [OF rel ok] meta_reliable.get_inode_total [OF rel ok] i k by simp
qed

theorem put_ok_then_ls_witness:
  "rdb_ls text_json map_kv
     (snd (serve text_json map_kv (leader_env 2) (PutOk ''/f'' 5 [''10.0.0.1:1|h'']) file_db))
     (set_fullpath ''/f'' (new_inode False)) =
   Inr (file_inode\<lparr>ddl_lock := 0, sub := [''10.0.0.1:1|h''], filesize := 5\<rparr>)"
proof -
  let ?s = "serve text_json map_kv (leader_env 2) (PutOk ''/f'' 5 [''10.0.0.1:1|h'']) file_db"
  have eval: "fst ?s = Inr (succ_response empty_response)" by code_simp
  have path: "has_root ''/f''" "simplify_path ''/f'' \<noteq> ''/''" "simplify_path ''/f'' = ''/f''" by code_simp+
  have "?s = (Inr (succ_response empty_response), snd ?s)" using eval by (metis prod.collapse)
  from put_ok_then_ls [OF map_meta_reliable file_db_ok(1,2) path(1,2) this, of False] show ?thesis
    by (simp add: succ_response_def file_db_ok path(3))
qed

text \<open>
C16: After a successful \<open>rm\<close> the path is gone: \<open>ls\<close> answers \<open>PATH_NOT_EXISTS_EXCEPTION\<close> with no data.
\<close>

theorem rm_then_ls:
  assumes "meta_reliable K view J" and "db_ok J view (store r)" and "db_ready r"
    and "serve J K env (Rm path) r = (Inr resp, r')" and "success resp"
  shows "nn_ls J K env' r' path =
    Inr (\<lparr>success = False, fail_info = \<lparr>err_code = PATH_NOT_EXISTS_EXCEPTION, err_message = simplify_path path\<rparr>\<rparr>, [])"
proof -
  note rel = assms(1)
  then have ms: "meta_store K view J" by (simp add: meta_reliable_def)
  let ?ns = "ns_of J view (store r)" and ?ns' = "ns_of J view (store r')"
  from meta_store.serve_success [OF ms assms(2,4,5)] obtain op k where
    p: "a_prepare env (Rm path) ?ns = Inr (op, k)" "a_apply (garbage env) op k ?ns = Some ?ns'" "path \<noteq> []"
    and ok: "db_ok J view (store r')" "db_ready r'" using assms(3) by (metis req_path.simps(2))
  from p(1) have k: "op = OP_RM" "fullpath k = simplify_path path" "\<not> valid k"
    by (auto simp: Let_def split: if_splits)
  from p(2) k obtain q where "?ns(fullpath q \<mapsto> erase_sub (inode_filename k) q, simplify_path path \<mapsto> k) = ?ns'"
    by (auto simp: a_rm_def)
  from this [symmetric] have "a_get ?ns' (set_fullpath path (new_inode (garbage env'))) = k"
    by (simp add: a_get_def)
  with k p(3) show ?thesis
    using meta_reliable.rdb_ls_total [OF rel ok]
    by (simp add: nn_ls_def message_exception_def empty_response_def)
qed

theorem rm_then_ls_witness:
  "nn_ls text_json map_kv (leader_env 3)
     (snd (serve text_json map_kv (leader_env 2) (Rm ''/f'') file_db)) ''/f'' =
   Inr (\<lparr>success = False, fail_info = \<lparr>err_code = PATH_NOT_EXISTS_EXCEPTION, err_message = ''/f''\<rparr>\<rparr>, [])"
proof -
  let ?s = "serve text_json map_kv (leader_env 2) (Rm ''/f'') file_db"
  have eval: "fst ?s = Inr (succ_response empty_response)" "simplify_path ''/f'' = ''/f''" by code_simp+
  have "?s = (Inr (succ_response empty_response), snd ?s)" using eval(1) by (metis prod.collapse)
  from rm_then_ls [OF map_meta_reliable file_db_ok(1,2) this, of "leader_env 3"] show ?thesis
    by (simp add: succ_response_def eval(2))
qed

text \<open>
C25: Removing a directory leaves its entry behind: after a successful \<open>rm\<close> of a directory the path
is gone, yet the parent still lists it, because the handler's fresh inode says it is a file and the
name erased from the listing lacks the trailing slash.
\<close>

theorem rm_dir_stays_listed:
  assumes "meta_store K view J" and "db_ok J view (store r)" and "ns_tree (ns_of J view (store r))"
    and "has_root path" and "simplify_path path \<noteq> ''/''" and "a_dir (ns_of J view (store r)) (simplify_path path)"
    and "serve J K env (Rm path) r = (Inr resp, r')" and "success resp"
  shows "\<not> a_exists (ns_of J view (store r')) (simplify_path path) \<and>
    path_filename (simplify_path path) @ ''/''
      \<in> set (a_sub (ns_of J view (store r')) (path_parent (simplify_path path)))"
proof -
  let ?ns = "ns_of J view (store r)" and ?ns' = "ns_of J view (store r')"
  from meta_store.serve_success [OF assms(1,2,7,8)] obtain op k where
    p: "a_prepare env (Rm path) ?ns = Inr (op, k)" "a_apply (garbage env) op k ?ns = Some ?ns'" by metis
  then have k: "op = OP_RM" "fullpath k = simplify_path path" "\<not> valid k" "\<not> is_directory k"
    by (auto simp: Let_def set_fullpath_def new_inode_def split: if_splits)
  from simplify_path_absE [OF assms(4)] obtain cs where cs: "names_ok cs" "simplify_path path = render True cs" .
  with assms(5) obtain ds c where ds: "cs = ds @ [c]" "names_ok ds" "slash \<notin> set c"
    "path_parent (render True cs) = render True ds" "path_filename (render True cs) = c"
    by (metis key_cases)
  have tr: "tree (dirs ?ns) (files ?ns) (listing ?ns)" using assms(3) by (simp add: ns_tree_def)
  have "dirs ?ns (ds @ [c])" using assms(6) cs ds by simp
  then have parent: "a_dir ?ns (render True ds)" and listed: "c @ ''/'' \<in> set (listing ?ns ds)"
    using treeD(2,7) [OF tr] by blast+
  have kp: "inode_parent_path k = render True ds" using k(2) cs ds by (simp add: inode_parent_path_def)
  have kn: "inode_filename k = c" using k(2,4) cs ds by (simp add: inode_filename_def)
  obtain q where q: "a_parent ?ns k = Some q" "fullpath q = render True ds" "sub q = listing ?ns ds"
    using a_parent_dir [of ?ns k] assms(3) parent unfolding kp ns_tree_def by metis
  have ns': "?ns' = ?ns(render True ds \<mapsto> erase_sub c q, simplify_path path \<mapsto> k)"
    using p(2) k(1,2) q kn by (simp add: a_rm_def)
  have "render True ds \<noteq> simplify_path path" using cs ds by (simp add: render_inject)
  then have "a_sub ?ns' (render True ds) = filter (\<lambda>x. x \<noteq> c) (listing ?ns ds)"
    using q(3) ns' by (simp add: a_sub_def erase_sub_def)
  moreover have "c @ ''/'' \<noteq> c" by simp
  moreover have "\<not> a_exists ?ns' (simplify_path path)" using ns' k(3) assms(5) by (simp add: a_exists_def)
  ultimately show ?thesis using listed ds cs by auto
qed

text \<open>A store with one directory below the root.\<close>

definition dir_db :: "(string \<rightharpoonup> string, (string \<rightharpoonup> string) list) rocksdb" where
  "dir_db = empty_db\<lparr>store := [
     ''/'' \<mapsto> ''{\"ddl_lock\":0,\"filesize\":0,\"fullpath\":\"/\",\"is_directory\":true,\"sub\":[\"a/\"],\"valid\":true}'',
     ''/a'' \<mapsto> ''{\"ddl_lock\":0,\"filesize\":0,\"fullpath\":\"/a\",\"is_directory\":true,\"sub\":[],\"valid\":true}'']\<rparr>"

lemma dir_db_parse:
  "inode_parse text_json (the (store dir_db ''/'')) = Inr ((get_default_dir ''/'')\<lparr>sub := [''a/'']\<rparr>)"
  "inode_parse text_json (the (store dir_db ''/a'')) = Inr (get_default_dir ''/a'')"
  "simplify_path ''/a'' = ''/a''" "path_filename ''/a'' = ''a''" "path_parent ''/a'' = ''/''"
  by code_simp+

lemma dir_db_ns: "ns_of text_json (\<lambda>m. m) (store dir_db) =
    [''/'' \<mapsto> (get_default_dir ''/'')\<lparr>sub := [''a/'']\<rparr>, ''/a'' \<mapsto> get_default_dir ''/a'']"
  using dir_db_parse by (simp add: fun_eq_iff ns_of_def dir_db_def empty_db_def)

lemma dir_db_ok: "db_ok text_json (\<lambda>m. m) (store dir_db)"
  using dir_db_parse by (simp add: db_ok_def dir_db_def empty_db_def)

lemma dir_db_tree: "ns_tree (ns_of text_json (\<lambda>m. m) (store dir_db))"
proof -
  have prep: "a_prepare (leader_env 1) (Mkdir ''/a'') Map.empty = Inr (OP_MKDIR, get_default_dir ''/a'')"
    using dir_db_parse(3-5) by (simp add: a_exists_def inode_parent_path_def)
  have "\<exists>ns'. a_apply False OP_MKDIR (get_default_dir ''/a'') Map.empty = Some ns' \<and> ns_tree ns'"
    by (rule request_tree [OF ns_tree_empty _ _ prep]) (simp_all add: a_file_def)
  moreover have "a_apply False OP_MKDIR (get_default_dir ''/a'') Map.empty =
      Some (ns_of text_json (\<lambda>m. m) (store dir_db))"
    using dir_db_parse(3-5)
    by (simp add: dir_db_ns a_mkdir_def a_parent_def inode_parent_path_def inode_filename_def add_sub_def get_default_dir_def)
  ultimately show ?thesis by simp
qed

theorem rm_dir_stays_listed_witness:
  "''a/'' \<in> set (a_sub (ns_of text_json (\<lambda>m. m)
      (store (snd (serve text_json map_kv (leader_env 2) (Rm ''/a'') dir_db)))) ''/'')"
proof -
  let ?s = "serve text_json map_kv (leader_env 2) (Rm ''/a'') dir_db"
  have eval: "fst ?s = Inr (succ_response empty_response)" "has_root ''/a''" by code_simp+
  have s: "?s = (Inr (succ_response empty_response), snd ?s)" using eval(1) by (metis prod.collapse)
  have "a_dir (ns_of text_json (\<lambda>m. m) (store dir_db)) (simplify_path ''/a'')"
    using dir_db_parse(3) by (simp add: dir_db_ns a_dir_def get_default_dir_def)
  from rm_dir_stays_listed [OF map_meta_store dir_db_ok dir_db_tree eval(2) _ this s] dir_db_parse(3-5)
  show ?thesis by (simp add: succ_response_def)
qed

text \<open>
C26: A file put below a path that holds nothing ends every replica: its \<open>put_ok\<close> is accepted and,
when it is applied, the assertion on the missing parent fails.
\<close>

theorem put_ok_without_parent_aborts:
  assumes "meta_reliable K view J" and "db_ok J view (store r)" and "db_ready r"
    and "check_leader env = Inr ()" and "path \<noteq> []"
    and "ns_of J view (store r) (simplify_path path) = Some i" and "valid i" and "\<not> is_directory i"
    and "inode_parent_path i \<noteq> ''/''" and "ns_of J view (store r) (inode_parent_path i) = None"
    and "dumps J (set_fullpath path (new_inode (garbage env)))"
    and "dumps J (i\<lparr>sub := subs, filesize := fsize\<rparr>)"
  shows "\<exists>w. serve J K env (PutOk path fsize subs) r = (Inl (Abort w), r)"
proof -
  note rel = assms(1)
  then have ms: "meta_store K view J" by (simp add: meta_reliable_def)
  let ?ns = "ns_of J view (store r)" and ?k = "i\<lparr>sub := subs, filesize := fsize\<rparr>"
  from assms(12) obtain v where v: "inode_value J ?k = Inr v" by (auto simp: dumps_def)
  have prep: "a_prepare env (PutOk path fsize subs) ?ns = Inr (OP_PUTOK, ?k)"
    using assms(6-8) by (simp add: a_get_def)
  have "nn_handle J K env r (PutOk path fsize subs) = Proposed (entry OP_PUTOK v)"
    using meta_reliable.nn_handle_spec [OF rel assms(2-4), of "PutOk path fsize subs"] assms(5,11) prep v
    by (simp add: rpc_propose_def)
  moreover have "inode_parse J v = Inr ?k"
    using json_codec.inode_parse_value [OF _ v] meta_store.ns_Some(2) [OF ms assms(2,6)] ms
    by (simp add: meta_store_def)
  moreover have "a_parent ?ns ?k = None" using assms(9,10) by (simp add: a_parent_def inode_parent_path_def)
  then obtain w where "internal_put_ok J K (garbage env) ?k r = (Inl (Abort w), r)"
    using meta_reliable.internal_put_ok_abort [OF rel assms(2,3)] by blast
  ultimately show ?thesis by (auto simp: serve_def apply_one_def apply_entry_def)
qed

text \<open>A store with a file whose parent was never made.\<close>

definition orphan_db :: "(string \<rightharpoonup> string, (string \<rightharpoonup> string) list) rocksdb" where
  "orphan_db = empty_db\<lparr>store := [
     ''/x/y'' \<mapsto> ''{\"ddl_lock\":61,\"filesize\":0,\"fullpath\":\"/x/y\",\"is_directory\":false,\"sub\":[],\"valid\":true}'']\<rparr>"

theorem put_ok_without_parent_aborts_witness:
  "fst (serve text_json map_kv (leader_env 1) (Put ''/x/y'' ''RE<1,1>'') empty_db) = Inr (succ_response empty_response) \<and>
   (\<exists>w. serve text_json map_kv (leader_env 2) (PutOk ''/x/y'' 0 []) orphan_db = (Inl (Abort w), orphan_db))"
proof
  show "fst (serve text_json map_kv (leader_env 1) (Put ''/x/y'' ''RE<1,1>'') empty_db) = Inr (succ_response empty_response)"
    by code_simp
  let ?i = "file_inode\<lparr>fullpath := ''/x/y''\<rparr>"
  have eval: "check_leader (leader_env 2) = Inr ()" "simplify_path ''/x/y'' = ''/x/y''" "path_parent ''/x/y'' = ''/x''"
    "inode_parse text_json (the (store orphan_db ''/x/y'')) = Inr ?i"
    "\<not> isl (inode_value text_json (set_fullpath ''/x/y'' (new_inode False)))"
    "\<not> isl (inode_value text_json (?i\<lparr>sub := [], filesize := 0\<rparr>))"
    by code_simp+
  have ok: "db_ok text_json (\<lambda>m. m) (store orphan_db)" "db_ready orphan_db"
    and ns: "ns_of text_json (\<lambda>m. m) (store orphan_db) = [''/x/y'' \<mapsto> ?i]"
    using eval(4) by (simp_all add: orphan_db_def empty_db_def db_ok_def ns_of_def fun_eq_iff)
  show "\<exists>w. serve text_json map_kv (leader_env 2) (PutOk ''/x/y'' 0 []) orphan_db = (Inl (Abort w), orphan_db)"
  proof (rule put_ok_without_parent_aborts [OF map_meta_reliable ok eval(1)])
    show "dumps text_json (set_fullpath ''/x/y'' (new_inode (garbage (leader_env 2))))"
      using eval(5) by (cases "inode_value text_json (set_fullpath ''/x/y'' (new_inode False))")
        (auto simp: dumps_def leader_env_def)
    show "dumps text_json (?i\<lparr>sub := [], filesize := 0\<rparr>)"
      using eval(6) by (cases "inode_value text_json (?i\<lparr>sub := [], filesize := 0\<rparr>)") (auto simp: dumps_def)
  qed (use eval ns in \<open>simp_all add: file_inode_def inode_parent_path_def\<close>)
qed

end
