(* ===== verification/Restart.thy ===== *)
theory Restart
  imports Namespace "HOL-Library.Multiset"
begin

text \<open>
  A replica that restarts without a snapshot: its store still holds what it had applied, and the
  consensus library gives it the whole log again.  Applying a log to a store that already has some of its
  effects ends in the same namespace, up to the order in which the root lists its entries.
\<close>

section \<open>What the code relies on in the printer\<close>

text \<open>The library prints a value exactly if all strings in it are UTF-8.\<close>

fun json_strings :: "json \<Rightarrow> string set" where
  "json_strings (JStr s) = {s}"
| "json_strings (JArr js) = (\<Union>j \<in> set js. json_strings j)"
| "json_strings (JObj kvs) = (\<Union>kv \<in> set kvs. insert (fst kv) (json_strings (snd kv)))"
| "json_strings j = {}"

definition ascii :: "string \<Rightarrow> bool" where
  "ascii s \<longleftrightarrow> (\<forall>c \<in> set s. 32 \<le> (of_char c :: nat) \<and> (of_char c :: nat) < 127)"

locale json_strict = json_codec +
  fixes utf8 :: "string \<Rightarrow> bool"
  assumes dump_strict: "(\<exists>s. jdump J j = Inr s) \<longleftrightarrow> (\<forall>s \<in> json_strings j. utf8 s)"
    and ascii_utf8: "ascii s \<Longrightarrow> utf8 s"
begin

text \<open>What an inode's storage type adds to the condition.\<close>

definition type_ok :: "storage_type option \<Rightarrow> bool" where
  "type_ok t \<longleftrightarrow>
     (case t of None \<Rightarrow> True | Some st \<Rightarrow> (\<exists>s. jdump J (st_to_json st) = Inr s \<and> utf8 s))"

lemma utf8_keys:
  "utf8 ''fullpath''" "utf8 ''is_directory''" "utf8 ''filesize''" "utf8 ''sub''" "utf8 ''valid''"
  "utf8 ''ddl_lock''" "utf8 ''storage_type''" "utf8 ''/''"
  by (rule ascii_utf8, simp add: ascii_def)+

lemma json_strings_jset:
  "(\<Union>kv \<in> set (jset k v kvs). insert (fst kv) (json_strings (snd kv))) \<subseteq>
     insert k (json_strings v) \<union> (\<Union>kv \<in> set kvs. insert (fst kv) (json_strings (snd kv)))"
  by (induction k v kvs rule: jset.induct) auto

lemma dumps_iff: "dumps J i \<longleftrightarrow> type_ok (storage_type_ptr i) \<and> utf8 (fullpath i) \<and> (\<forall>s \<in> set (sub i). utf8 s)"
proof (cases "storage_type_ptr i")
  case None
  then have "dumps J i \<longleftrightarrow> (\<exists>s. jdump J (projr (inode_to_json J i)) = Inr s)"
    by (simp add: dumps_def inode_value_def inode_to_json_def)
  with None show ?thesis unfolding dump_strict by (auto simp: inode_to_json_def type_ok_def jobject_def utf8_keys)
next
  case (Some st)
  show ?thesis
  proof (cases "jdump J (st_to_json st)")
    case (Inl e)
    with Some show ?thesis by (simp add: dumps_def inode_value_def inode_to_json_def type_ok_def)
  next
    case (Inr t)
    with Some have "dumps J i \<longleftrightarrow> (\<exists>s. jdump J (projr (inode_to_json J i)) = Inr s)"
      by (simp add: dumps_def inode_value_def inode_to_json_def)
    with Some Inr show ?thesis unfolding dump_strict by (auto simp: inode_to_json_def type_ok_def jobject_def utf8_keys)
  qed
qed

end

lemma printable_iff: "printable j \<longleftrightarrow> (\<forall>s \<in> json_strings j. ascii s)"
  by (induction j rule: printable.induct) (auto simp: ascii_def)

interpretation text_strict: json_strict text_json ascii
  by unfold_locales (simp add: text_json_def printable_iff)

section \<open>The effect of an entry\<close>

text \<open>
  The operations on namespaces with the one error that is left when the store has none: a listing that
  cannot be printed.  \<open>None\<close> is the failed assertion.
\<close>

definition relist :: "bool \<Rightarrow> string \<Rightarrow> inode \<Rightarrow> inode" where
  "relist b n p = (if b then add_sub n p else erase_sub n p)"

definition listed_effect :: "json_lib \<Rightarrow> bool \<Rightarrow> inode \<Rightarrow> inode \<Rightarrow> namespace \<Rightarrow> namespace option" where
  "listed_effect J b i q ns =
     map_option (\<lambda>p. if dumps J (relist b (inode_filename i) p)
                     then ns(fullpath p \<mapsto> relist b (inode_filename i) p, fullpath i \<mapsto> q) else ns) (a_parent ns i)"

definition finished :: "inode \<Rightarrow> namespace \<Rightarrow> inode" where
  "finished i ns =
     (inode_unlock (a_get ns (set_fullpath (fullpath i) (new_inode False))))\<lparr>sub := sub i, filesize := filesize i\<rparr>"

fun op_effect :: "json_lib \<Rightarrow> op_type \<Rightarrow> inode \<Rightarrow> namespace \<Rightarrow> namespace option" where
  "op_effect J OP_MKDIR i ns = listed_effect J True i i ns"
| "op_effect J OP_PUT i ns = Some (ns(fullpath i \<mapsto> i))"
| "op_effect J OP_PUTOK i ns = listed_effect J True i (finished i ns) ns"
| "op_effect J OP_RM i ns = listed_effect J False i i ns"
| "op_effect J OP_UNKNOWN i ns = Some ns"

text \<open>The names an operation adds to or takes from the listing of the root.\<close>

definition op_touch :: "op_type \<Rightarrow> inode \<Rightarrow> string set" where
  "op_touch op i = (if op \<notin> {OP_PUT, OP_UNKNOWN} \<and> inode_parent_path i = ''/'' then {inode_filename i} else {})"

definition root_names :: "namespace \<Rightarrow> string set" where
  "root_names ns = (case ns ''/'' of None \<Rightarrow> {} | Some i \<Rightarrow> set (sub i))"

text \<open>Namespaces of printed inodes in which the root is the directory the code makes for it.\<close>

definition settled :: "json_lib \<Rightarrow> namespace \<Rightarrow> bool" where
  "settled J ns \<longleftrightarrow>
     (\<forall>p i. ns p = Some i \<longrightarrow> fullpath i = p \<and> dumps J i \<and>
        (p = ''/'' \<longrightarrow> distinct (sub i) \<and> i = (get_default_dir ''/'')\<lparr>sub := sub i\<rparr>))"

text \<open>
  \<open>ahead T A B\<close>: \<open>B\<close> has what \<open>A\<close> has, and possibly more that \<open>A\<close> will still come to; the listings of
  their roots agree on the names in \<open>T\<close>.
\<close>

definition ahead :: "string set \<Rightarrow> namespace \<Rightarrow> namespace \<Rightarrow> bool" where
  "ahead T A B \<longleftrightarrow>
     (\<forall>p. p \<noteq> ''/'' \<longrightarrow> A p \<noteq> None \<longrightarrow> B p = A p) \<and> (A ''/'' \<noteq> None \<longrightarrow> B ''/'' \<noteq> None) \<and>
     (\<forall>n \<in> T. n \<in> root_names A \<longleftrightarrow> n \<in> root_names B)"

text \<open>An operation whose file is known, when it finishes one.\<close>

definition knows :: "op_type \<Rightarrow> inode \<Rightarrow> namespace \<Rightarrow> bool" where
  "knows op i ns \<longleftrightarrow> (op = OP_PUTOK \<longrightarrow> ns (fullpath i) \<noteq> None)"

text \<open>Equal but for the order in which the root lists its entries.\<close>

definition same_tree :: "namespace \<Rightarrow> namespace \<Rightarrow> bool" where
  "same_tree A B \<longleftrightarrow>
     (\<forall>p. p \<noteq> ''/'' \<longrightarrow> A p = B p) \<and>
     (case (A ''/'', B ''/'') of
        (Some a, Some b) \<Rightarrow> mset (sub a) = mset (sub b) \<and> b = a\<lparr>sub := sub b\<rparr>
      | (None, None) \<Rightarrow> True
      | _ \<Rightarrow> False)"

lemma relist_simps [simp]:
  "fullpath (relist b n p) = fullpath p" "storage_type_ptr (relist b n p) = storage_type_ptr p"
  "distinct (sub p) \<Longrightarrow> distinct (sub (relist b n p))"
  "set (sub (relist b n p)) = (if b then insert n (set (sub p)) else set (sub p) - {n})"
  by (auto simp: relist_def) (simp_all add: erase_sub_def)

lemma relist_root: "p = q\<lparr>sub := sub p\<rparr> \<Longrightarrow> relist b n p = q\<lparr>sub := sub (relist b n p)\<rparr>"
  by (cases p; cases q) (auto simp: relist_def add_sub_def erase_sub_def)

context json_strict
begin

lemma dumps_relist: "dumps J p \<Longrightarrow> dumps J (relist b n p) \<longleftrightarrow> (b \<longrightarrow> utf8 n)"
  unfolding dumps_iff by auto

lemma dumps_root: "dumps J (get_default_dir ''/'')"
  by (simp add: dumps_iff type_ok_def utf8_keys get_default_dir_def)

lemma settled_parent:
  assumes "settled J ns" and "a_parent ns i = Some p"
  shows "fullpath p = inode_parent_path i" and "dumps J p"
    and "inode_parent_path i = ''/'' \<Longrightarrow> distinct (sub p) \<and> p = (get_default_dir ''/'')\<lparr>sub := sub p\<rparr>"
    and "inode_parent_path i = ''/'' \<Longrightarrow> root_names ns = set (sub p)"
  using assms dumps_root
  by (auto simp: a_parent_def settled_def root_names_def get_default_dir_def split: option.splits if_splits)

lemma settled_root_names: "settled J ns \<Longrightarrow> n \<in> root_names ns \<Longrightarrow> utf8 n"
  by (auto simp: settled_def root_names_def dumps_iff split: option.splits)

lemma settled_update:
  "settled J ns \<Longrightarrow> fullpath i = p \<Longrightarrow> dumps J i \<Longrightarrow>
     (p = ''/'' \<Longrightarrow> distinct (sub i) \<and> i = (get_default_dir ''/'')\<lparr>sub := sub i\<rparr>) \<Longrightarrow> settled J (ns(p \<mapsto> i))"
  by (auto simp: settled_def)

text \<open>No operation forgets a path; the listing of the root changes only in the names it touches.\<close>

definition grows :: "string set \<Rightarrow> namespace \<Rightarrow> namespace \<Rightarrow> bool" where
  "grows T A A' \<longleftrightarrow> settled J A' \<and> dom A \<subseteq> dom A' \<and> root_names A' \<subseteq> root_names A \<union> T"

lemma listed_grows:
  assumes s: "settled J A" and i: "fullpath i \<noteq> ''/''" and q: "fullpath q = fullpath i" "dumps J q"
    and e: "listed_effect J b i q A = Some A'"
  shows "grows (if inode_parent_path i = ''/'' then {inode_filename i} else {}) A A'"
proof -
  from e obtain p where p: "a_parent A i = Some p" by (auto simp: listed_effect_def)
  note P = settled_parent [OF s p]
  show ?thesis
  proof (cases "dumps J (relist b (inode_filename i) p)")
    case True
    let ?A = "A(fullpath p \<mapsto> relist b (inode_filename i) p)"
    have "settled J ?A" using s True P by (intro settled_update) (auto intro: relist_root)
    then have "settled J (?A(fullpath i \<mapsto> q))" by (rule settled_update) (use i q in auto)
    moreover have "A' = ?A(fullpath i \<mapsto> q)" using True e p by (simp add: listed_effect_def)
    ultimately show ?thesis using i P by (auto simp: grows_def root_names_def)
  qed (use e p s in \<open>simp add: listed_effect_def grows_def\<close>)
qed

lemma ahead_update:
  "ahead T A B \<Longrightarrow> k \<noteq> ''/'' \<Longrightarrow> ahead T (A(k \<mapsto> q)) (B(k \<mapsto> q))"
  by (auto simp: ahead_def root_names_def)

lemma ahead_root:
  assumes "ahead T A B" and "A' = A(''/'' \<mapsto> a)" and "B' = B(''/'' \<mapsto> b)"
    and "\<forall>n \<in> T'. n \<in> set (sub a) \<longleftrightarrow> n \<in> set (sub b)"
  shows "ahead T' A' B'"
  using assms by (auto simp: ahead_def root_names_def)

lemma listed_ahead:
  assumes s: "settled J A" "settled J B" and ah: "ahead T A B" and i: "fullpath i \<noteq> ''/''"
    and e: "listed_effect J b i q A = Some A'"
  defines "N \<equiv> if inode_parent_path i = ''/'' then {inode_filename i} else {}"
  shows "\<exists>B'. listed_effect J b i q B = Some B' \<and> ahead (T \<union> N) A' B' \<and> dom B' \<subseteq> dom B \<union> dom A'"
proof -
  let ?n = "inode_filename i" and ?P = "inode_parent_path i"
  from e obtain p where p: "a_parent A i = Some p" by (auto simp: listed_effect_def)
  note P = settled_parent [OF s(1) p]
  show ?thesis
  proof (cases "?P = ''/''")
    case False
    with p have "A ?P = Some p" by (auto simp: a_parent_def split: option.splits)
    with False ah have "a_parent B i = Some p" by (auto simp: ahead_def a_parent_def)
    then show ?thesis
      using e p ah i False P(1)
      by (auto simp: listed_effect_def N_def intro!: ahead_update split: if_splits)
  next
    case True
    then obtain p' where p': "a_parent B i = Some p'" by (cases "B ?P") (auto simp: a_parent_def)
    note P' = settled_parent [OF s(2) p']
    from dumps_relist [OF P(2)] dumps_relist [OF P'(2)]
    have D: "dumps J (relist b ?n p) \<longleftrightarrow> (b \<longrightarrow> utf8 ?n)" "dumps J (relist b ?n p') \<longleftrightarrow> (b \<longrightarrow> utf8 ?n)" by blast+
    have root: "root_names A = set (sub p)" "root_names B = set (sub p')" using True P(4) P'(4) by auto
    show ?thesis
    proof (cases "b \<longrightarrow> utf8 ?n")
      case u: True
      let ?A = "A(''/'' \<mapsto> relist b ?n p)" and ?B = "B(''/'' \<mapsto> relist b ?n p')"
      have A': "A' = ?A(fullpath i \<mapsto> q)" and B': "listed_effect J b i q B = Some (?B(fullpath i \<mapsto> q))"
        using e p p' True P(1) P'(1) D u by (simp_all add: listed_effect_def)
      have "ahead (T \<union> N) ?A ?B"
        using ah root True by (intro ahead_root [OF ah refl refl]) (auto simp: ahead_def N_def)
      then show ?thesis
        unfolding A' B' using i root True by (auto intro!: ahead_update)
    next
      case u: False
      then have "?n \<notin> root_names A" "?n \<notin> root_names B" using settled_root_names s by blast+
      with u D e p p' ah True show ?thesis by (auto simp: listed_effect_def ahead_def N_def)
    qed
  qed
qed

lemma finished_dumps:
  assumes "settled J ns" and "dumps J i" and "inode_ok i"
  shows "fullpath (finished i ns) = fullpath i" and "dumps J (finished i ns)"
proof -
  have "simplify_path (fullpath i) = fullpath i" using assms(3) by (simp add: inode_ok_def)
  with assms(1,2) show "fullpath (finished i ns) = fullpath i" "dumps J (finished i ns)"
    by (auto simp: finished_def a_get_def settled_def dumps_iff inode_unlock_def type_ok_def set_fullpath_def
        new_inode_def split: option.splits)
qed

lemma op_grows:
  assumes s: "settled J A" and i: "fullpath i \<noteq> ''/''" "dumps J i" "inode_ok i" and e: "op_effect J op i A = Some A'"
  shows "grows (op_touch op i) A A'"
  using e listed_grows [OF s i(1) refl i(2)] listed_grows [OF s i(1) finished_dumps [OF s i(2,3)]] s i
  by (cases op) (auto simp: op_touch_def grows_def root_names_def intro!: settled_update)

lemma op_ahead:
  assumes s: "settled J A" "settled J B" and ah: "ahead T A B" and kn: "knows op i A"
    and i: "fullpath i \<noteq> ''/''" "inode_ok i" and e: "op_effect J op i A = Some A'"
  shows "\<exists>B'. op_effect J op i B = Some B' \<and> ahead (T \<union> op_touch op i) A' B' \<and> dom B' \<subseteq> dom B \<union> dom A'"
proof -
  have *: "\<exists>B'. listed_effect J b i q B = Some B' \<and> ahead (T \<union> op_touch op i) A' B' \<and> dom B' \<subseteq> dom B \<union> dom A'"
    if "listed_effect J b i q A = Some A'" "op \<noteq> OP_PUT" "op \<noteq> OP_UNKNOWN" for b q
    using listed_ahead [OF s ah i(1) that(1)] that(2,3) by (simp add: op_touch_def)
  show ?thesis
  proof (cases op)
    case OP_PUT
    with e i ah show ?thesis by (auto simp: op_touch_def intro!: ahead_update)
  next
    case OP_PUTOK
    with kn ah i have "B (fullpath i) = A (fullpath i)" by (auto simp: ahead_def knows_def)
    with i(2) have "finished i B = finished i A" by (simp add: finished_def a_get_def inode_ok_def)
    with * [of True "finished i A"] e OP_PUTOK show ?thesis by simp
  qed (use e * [of _ i] ah in \<open>auto simp: ahead_def op_touch_def\<close>)
qed

end

section \<open>Logs\<close>

definition op_of :: "nat \<Rightarrow> op_type" where
  "op_of n = (case find (\<lambda>op. op_code op = n) [OP_MKDIR, OP_PUT, OP_PUTOK, OP_RM] of None \<Rightarrow> OP_UNKNOWN | Some op \<Rightarrow> op)"

text \<open>The operation and the inode an entry was made from.\<close>

definition entry_op :: "json_lib \<Rightarrow> string \<Rightarrow> op_type \<times> inode" where
  "entry_op J d = (case cut_type d of (ty, s) \<Rightarrow> (op_of ty, projr (inode_parse J s)))"

definition entry_effect :: "json_lib \<Rightarrow> string \<Rightarrow> namespace \<Rightarrow> namespace option" where
  "entry_effect J d = op_effect J (fst (entry_op J d)) (snd (entry_op J d))"

definition entry_touch :: "json_lib \<Rightarrow> string \<Rightarrow> string set" where
  "entry_touch J d = op_touch (fst (entry_op J d)) (snd (entry_op J d))"

definition entry_knows :: "json_lib \<Rightarrow> namespace \<Rightarrow> string \<Rightarrow> bool" where
  "entry_knows J ns d \<longleftrightarrow> knows (fst (entry_op J d)) (snd (entry_op J d)) ns"

fun effects :: "json_lib \<Rightarrow> string list \<Rightarrow> namespace \<Rightarrow> namespace option" where
  "effects J [] ns = Some ns"
| "effects J (d # ds) ns = (case entry_effect J d ns of None \<Rightarrow> None | Some ns' \<Rightarrow> effects J ds ns')"

definition touches :: "json_lib \<Rightarrow> string list \<Rightarrow> string set" where
  "touches J ds = \<Union>(entry_touch J ` set ds)"

definition off_root :: "json_lib \<Rightarrow> string \<Rightarrow> bool" where
  "off_root J d \<longleftrightarrow> fullpath (snd (entry_op J d)) \<noteq> ''/''"

lemma effects_append:
  "effects J (ds @ es) ns = (case effects J ds ns of None \<Rightarrow> None | Some ns' \<Rightarrow> effects J es ns')"
  by (induction ds arbitrary: ns) (auto split: option.splits)

lemma touches_snoc: "touches J (ds @ [d]) = touches J ds \<union> entry_touch J d"
  by (auto simp: touches_def)

lemma op_of_code [simp]: "op_of (op_code op) = op"
  by (cases op) (simp_all add: op_of_def)

context json_codec
begin

lemma entry_op_entry: "inode_value J i = Inr v \<Longrightarrow> inode_ok i \<Longrightarrow> entry_op J (entry op v) = (op, i)"
  by (simp add: entry_op_def inode_parse_value)

lemma entry_okE:
  assumes "entry_ok J d"
  obtains op i v where "entry_op J d = (op, i)" and "inode_ok i" and "dumps J i" and "inode_value J i = Inr v" and "d = entry op v"
proof -
  from assms obtain op i v where *: "inode_ok i" "inode_value J i = Inr v" "d = entry op v" by (auto simp: entry_ok_def)
  with entry_op_entry [OF *(2,1)] show thesis by (intro that [of op i v]) (auto simp: dumps_def)
qed

end

locale strict_store = meta_reliable K view J + json_strict J utf8
  for K :: "('db, 'bk) kv_lib" and view :: "'db \<Rightarrow> string \<rightharpoonup> string" and J :: json_lib and utf8 :: "string \<Rightarrow> bool"
begin

lemma write_two_fails: "\<not> dumps J p \<Longrightarrow> \<exists>e. write_two J K err p i r = (Inl e, r) \<and> catchable e"
  using inode_value_no_crash [of p] by (cases "inode_value J p") (auto simp: write_two_def dumps_def no_crash_def)

lemma write_two_effect:
  assumes "db_ok J view (store r)" and "inode_ok p" "inode_ok q" "dumps J q"
  shows "ns (snd (write_two J K err p q r)) =
      (if dumps J p then (ns r)(fullpath p \<mapsto> p, fullpath q \<mapsto> q) else ns r) \<and>
    (\<forall>e. fst (write_two J K err p q r) = Inl e \<longrightarrow> catchable e)"
  using write_two_fails [of p err q r] write_two_total [of p q err r] assms
    refines_Inr(1) [OF write_two_refines [OF assms(1-3)], of err] by (cases "dumps J p") auto

text \<open>
  Applied on a settled store, an entry has its effect; its error, if it has one, is caught unless the effect is
  the failed assertion.
\<close>

lemma apply_entry_effect:
  assumes r: "db_ok J view (store r)" "db_ready r" "settled J (ns r)" and i: "inode_value J i = Inr v" "inode_ok i"
  shows "case op_effect J op i (ns r) of
      None \<Rightarrow> \<exists>w. fst (apply_entry J K False (entry op v) r) = Inl (Abort w)
    | Some ns' \<Rightarrow> ns (snd (apply_entry J K False (entry op v) r)) = ns' \<and>
        (\<forall>e. fst (apply_entry J K False (entry op v) r) = Inl e \<longrightarrow> catchable e)"
proof -
  have d: "dumps J i" using i by (simp add: dumps_def)
  have parse: "inode_parse J v = Inr i" by (rule inode_parse_value [OF i])
  show ?thesis
  proof (cases "a_parent (ns r) i")
    case None
    with r d i parse internal_put_total [OF r(2) d] refines_Inr(1) [OF internal_put_refines [OF r(1) i(2)]] show ?thesis
      by (cases op) (auto simp: apply_entry_def listed_effect_def internal_mkdir_def internal_put_ok_def internal_rm_def
          get_parent_inode_total a_put_def)
  next
    case (Some p)
    then have p: "inode_ok p" using a_parent_path [OF r(1)] by blast
    have ok: "inode_ok (relist b n p)" for b n using p by (simp add: relist_def)
    let ?q = "finished i (ns r)"
    have q: "fullpath ?q = fullpath i" "dumps J ?q" by (rule finished_dumps [OF r(3) d i(2)])+
    have "inode_ok ?q"
      using a_get_ok [OF r(1) inode_ok_set_fullpath, of "fullpath i" False] by (simp add: finished_def inode_ok_update)
    note two = write_two_effect [OF r(1) ok i(2) d] write_two_effect [OF r(1) ok this q(2)]
    have eqs: "apply_entry J K False (entry OP_MKDIR v) r = write_two J K ''batch write not ok'' (relist True (inode_filename i) p) i r"
      "apply_entry J K False (entry OP_PUTOK v) r = write_two J K ''batch write not ok'' (relist True (inode_filename i) p) ?q r"
      "apply_entry J K False (entry OP_RM v) r = write_two J K ''batch write not ok!'' (relist False (inode_filename i) p) i r"
      using Some r i(1) parse
      by (simp_all add: apply_entry_def internal_mkdir_def internal_put_ok_def internal_rm_def get_parent_inode_total
          get_inode_total relist_def finished_def)
    show ?thesis
    proof (cases "op = OP_PUT \<or> op = OP_UNKNOWN")
      case True
      with internal_put_total [OF r(2) d] refines_Inr(1) [OF internal_put_refines [OF r(1) i(2)]] parse show ?thesis
        by (auto simp: apply_entry_def a_put_def)
    next
      case False
      then show ?thesis using eqs two Some q(1) by (cases op) (simp_all add: listed_effect_def)
    qed
  qed
qed

lemma apply_one_effect:
  assumes r: "db_ok J view (store r)" "db_ready r" "settled J (ns r)" and d: "entry_ok J (fst e)"
  shows "case entry_effect J (fst e) (ns r) of
      None \<Rightarrow> isl (fst (apply_one J K g e r))
    | Some ns' \<Rightarrow> \<not> isl (fst (apply_one J K g e r)) \<and> ns (snd (apply_one J K g e r)) = ns'"
proof -
  obtain op i v where i: "entry_op J (fst e) = (op, i)" "inode_ok i" "inode_value J i = Inr v" "fst e = entry op v"
    using d by (rule entry_okE)
  have "apply_one J K g e r = apply_one J K g (fst e, snd e) r" by simp
  with i apply_one_closure [of J K g "fst e" "snd e" r] apply_entry_effect [OF r i(3,2), of op]
    apply_entry_garbage [of J K g "fst e" r False] show ?thesis
    by (auto simp: entry_effect_def split: option.splits sum.splits)
qed

lemma entry_grows:
  assumes "settled J A" and "entry_ok J d" and "off_root J d" and "entry_effect J d A = Some A'"
  shows "grows (entry_touch J d) A A'"
proof -
  obtain op i v where i: "entry_op J d = (op, i)" "inode_ok i" "dumps J i" using assms(2) by (rule entry_okE)
  with assms op_grows [of A i op A'] show ?thesis by (simp add: off_root_def entry_effect_def entry_touch_def)
qed

lemma effects_grow:
  assumes "settled J A" and "\<forall>d \<in> set ds. entry_ok J d \<and> off_root J d" and "effects J ds A = Some A'"
  shows "grows (touches J ds) A A'"
  using assms
proof (induction ds arbitrary: A)
  case Nil
  then show ?case by (simp add: grows_def)
next
  case (Cons d ds)
  then obtain A1 where a: "entry_effect J d A = Some A1" "effects J ds A1 = Some A'" by (auto split: option.splits)
  with Cons.prems have g: "grows (entry_touch J d) A A1" by (intro entry_grows) auto
  with Cons.prems(2) a(2) have "grows (touches J ds) A1 A'" by (intro Cons.IH) (auto simp: grows_def)
  with g show ?case unfolding grows_def touches_def by simp blast
qed

lemma on_apply_effects:
  assumes "db_ok J view (store r)" "db_ready r" "settled J (ns r)"
    and "\<forall>d \<in> set (map fst es). entry_ok J d \<and> off_root J d" and "effects J (map fst es) (ns r) = Some ns'"
  shows "\<exists>cs r'. on_apply J K g es r = (Inr cs, r') \<and> ns r' = ns'"
  using assms
proof (induction es arbitrary: r)
  case (Cons e es)
  from Cons.prems(5) obtain n1 where n1: "entry_effect J (fst e) (ns r) = Some n1"
    and rest: "effects J (map fst es) n1 = Some ns'" by (auto split: option.splits)
  obtain x r1 where e: "apply_one J K g e r = (x, r1)" by (cases "apply_one J K g e r")
  have d: "entry_ok J (fst e)" "off_root J (fst e)" using Cons.prems(4) by simp_all
  from apply_one_effect [OF Cons.prems(1-3) d(1), of g] n1 e have x: "\<not> isl x" "ns r1 = n1" by simp_all
  have r1: "db_ok J view (store r1)" "db_ready r1"
    using apply_one_db_ok [OF Cons.prems(1), of g e] e Cons.prems(2) by auto
  have "settled J (ns r1)" using entry_grows [OF Cons.prems(3) d n1] x(2) by (simp add: grows_def)
  with Cons.IH [OF r1] x(2) Cons.prems(4) rest obtain cs r' where "on_apply J K g es r1 = (Inr cs, r')" "ns r' = ns'"
    by auto
  with e x(1) show ?case by (cases x) auto
qed simp

end

section \<open>The leader's log\<close>

text \<open>A leader at work: requests, renewals and commits, with the log of what was committed.\<close>

inductive leads ::
    "json_lib \<Rightarrow> ('db, 'bk) kv_lib \<Rightarrow> ('db, 'bk) rocksdb \<Rightarrow> string list \<Rightarrow> ('db, 'bk) nn_state \<Rightarrow> bool"
  for J K r0 where
  begins: "leads J K r0 [] \<lparr>nn_db = r0, pending = []\<rparr>"
| proposes: "leads J K r0 log s \<Longrightarrow> nn_handle J K env (nn_db s) req = Proposed d \<Longrightarrow>
     leads J K r0 log (s\<lparr>pending := pending s @ [d]\<rparr>)"
| renews: "leads J K r0 log s \<Longrightarrow> update_lock J K env (nn_db s) paths = (ds, x) \<Longrightarrow>
     leads J K r0 log (s\<lparr>pending := pending s @ ds\<rparr>)"
| commits: "leads J K r0 log s \<Longrightarrow> pending s = d # ds \<Longrightarrow> apply_one J K g (d, c) (nn_db s) = (Inr c', r') \<Longrightarrow>
     leads J K r0 (log @ [d]) (s\<lparr>nn_db := r', pending := ds\<rparr>)"

lemma leads_steps: "leads J K r0 log s \<Longrightarrow> (nn_step J K)\<^sup>*\<^sup>* \<lparr>nn_db = r0, pending = []\<rparr> s"
  by (induction rule: leads.induct) (auto intro: nn_step.intros rtranclp.rtrancl_into_rtrancl)

lemma a_prepare_knows: "a_prepare env req ns = Inr (op, i) \<Longrightarrow> (\<forall>p j. ns p = Some j \<longrightarrow> fullpath j = p) \<Longrightarrow> knows op i ns"
  by (cases req) (auto simp: Let_def knows_def a_get_def res_simps split: if_splits option.splits)

context strict_store
begin

lemma proposed_knows:
  assumes "db_ok J view (store r)" and "nn_handle J K env r req = Proposed d"
  shows "entry_knows J (ns r) d"
proof -
  obtain op i v where p: "a_prepare env req (ns r) = Inr (op, i)" "inode_value J i = Inr v" "d = entry op v"
    using assms by (rule nn_handle_proposed)
  have "inode_ok i" by (rule nn_handle_proposed_ok [OF assms(1) p(1)])
  with p entry_op_entry [of i v op] a_prepare_knows [OF p(1)] ns_Some(1) [OF assms(1)] show ?thesis by (simp add: entry_knows_def)
qed

lemma renewed_knows:
  assumes "db_ok J view (store r)" and "renew_entry J K env r s = Inr d"
  shows "entry_knows J A d"
proof -
  have "entry_ok J d" by (rule renew_entry_ok [OF assms])
  then obtain op i v where "entry_op J d = (op, i)" "d = entry op v" by (rule entry_okE)
  with assms(2) show ?thesis by (auto simp: renew_entry_def res_simps entry_knows_def knows_def entry_def)
qed

lemma renew_all_knows:
  "db_ok J view (store r) \<Longrightarrow> renew_all J K env r ss = (ds, x) \<Longrightarrow> d \<in> set ds \<Longrightarrow> entry_knows J A d"
proof (induction ss arbitrary: ds x)
  case (Cons s ss)
  from Cons.prems(2,3) obtain d' ds' where "renew_entry J K env r s = Inr d'" "d = d' \<or> d \<in> set ds'"
    "renew_all J K env r ss = (ds', x)" by (auto split: sum.splits prod.splits)
  with renewed_knows [OF Cons.prems(1)] Cons.IH [OF Cons.prems(1)] show ?case by blast
qed simp

lemma update_lock_knows:
  "db_ok J view (store r) \<Longrightarrow> update_lock J K env r paths = (ds, x) \<Longrightarrow> d \<in> set ds \<Longrightarrow> entry_knows J A d"
  by (auto simp: update_lock_def split: sum.splits if_splits prod.splits dest: renew_all_knows)

text \<open>
  The effect of an entry on the leader's namespace and on one ahead of it.
\<close>

lemma entry_ahead:
  assumes "settled J A" "settled J B" "ahead T A B" and "entry_ok J d" "off_root J d" "entry_knows J A d"
    and "entry_effect J d A = Some A'"
  shows "\<exists>B'. entry_effect J d B = Some B' \<and> ahead (T \<union> entry_touch J d) A' B' \<and> dom B' \<subseteq> dom B \<union> dom A'"
proof -
  obtain op i v where i: "entry_op J d = (op, i)" "inode_ok i" "dumps J i" using assms(4) by (rule entry_okE)
  then have "fullpath i \<noteq> ''/''" "knows op i A" "op_effect J op i A = Some A'"
    using assms(5-7) by (simp_all add: off_root_def entry_knows_def entry_effect_def)
  from op_ahead [OF assms(1-3) this(2,1) i(2) this(3)] i(1) show ?thesis by (simp add: entry_effect_def entry_touch_def)
qed

text \<open>What the leader has applied, against any namespace the log is replayed on.\<close>

definition replays :: "string list \<Rightarrow> namespace \<Rightarrow> bool" where
  "replays log A \<longleftrightarrow>
     (\<forall>B. settled J B \<longrightarrow>
        (\<exists>B'. effects J log B = Some B' \<and> ahead (touches J log) A B' \<and> dom B' \<subseteq> dom B \<union> dom A))"

lemma replays_Nil: "replays [] Map.empty"
  by (simp add: replays_def ahead_def touches_def)

lemma replays_snoc:
  assumes "replays log A" "settled J A" and ok: "\<forall>d \<in> set (log @ [d]). entry_ok J d \<and> off_root J d"
    and "entry_knows J A d" and e: "entry_effect J d A = Some A'"
  shows "replays (log @ [d]) A'"
  unfolding replays_def
proof (intro allI impI)
  fix B
  assume s: "settled J B"
  with assms(1) obtain B1 where b1: "effects J log B = Some B1" "ahead (touches J log) A B1" "dom B1 \<subseteq> dom B \<union> dom A"
    unfolding replays_def by blast
  have "settled J B1" using effects_grow [OF s _ b1(1)] ok by (simp add: grows_def)
  from entry_ahead [OF assms(2) this b1(2) _ _ assms(4) e] ok obtain B2 where b2: "entry_effect J d B1 = Some B2"
    "ahead (touches J (log @ [d])) A' B2" "dom B2 \<subseteq> dom B1 \<union> dom A'" unfolding touches_snoc by auto
  moreover have "dom A \<subseteq> dom A'" using entry_grows [OF assms(2) _ _ e] ok by (simp add: grows_def)
  ultimately show "\<exists>B'. effects J (log @ [d]) B = Some B' \<and> ahead (touches J (log @ [d])) A' B' \<and> dom B' \<subseteq> dom B \<union> dom A'"
    using b1 by (intro exI [of _ B2] conjI) (simp_all add: effects_append, blast)
qed

text \<open>The leader's namespace is what its log makes of the empty one.\<close>

definition led :: "string list \<Rightarrow> ('db, 'bk) nn_state \<Rightarrow> bool" where
  "led log s \<longleftrightarrow>
     db_ok J view (store (nn_db s)) \<and> db_ready (nn_db s) \<and> settled J (ns (nn_db s)) \<and>
     effects J log Map.empty = Some (ns (nn_db s)) \<and> replays log (ns (nn_db s)) \<and>
     (\<forall>d \<in> set log. entry_ok J d \<and> off_root J d) \<and>
     (\<forall>d \<in> set (pending s). entry_ok J d \<and> entry_knows J (ns (nn_db s)) d)"

lemma entry_keeps_knows:
  "dom A \<subseteq> dom A' \<Longrightarrow> entry_knows J A d \<Longrightarrow> entry_knows J A' d"
  by (auto simp: entry_knows_def knows_def)

lemma led_commit:
  assumes l: "led log s" and p: "pending s = d # ds" and a: "apply_one J K g (d, c) (nn_db s) = (Inr c', r')"
    and o: "off_root J d"
  shows "led (log @ [d]) (s\<lparr>nn_db := r', pending := ds\<rparr>)"
proof -
  let ?A = "ns (nn_db s)"
  from l have db: "db_ok J view (store (nn_db s))" "db_ready (nn_db s)" "settled J ?A"
    and d: "entry_ok J d" "entry_knows J ?A d" using p by (simp_all add: led_def)
  from apply_one_effect [OF db, of "(d, c)" g] d(1) a have e: "entry_effect J d ?A = Some (ns r')"
    by (cases "entry_effect J d ?A") simp_all
  have r': "db_ok J view (store r')" "db_ready r'" using apply_one_db_ok [OF db(1), of g "(d, c)"] a db(2) by auto
  have "grows (entry_touch J d) ?A (ns r')" by (rule entry_grows [OF db(3) d(1) o e])
  then have g: "dom ?A \<subseteq> dom (ns r')" "settled J (ns r')" by (simp_all add: grows_def)
  have "replays (log @ [d]) (ns r')"
    using l db(3) d o e by (intro replays_snoc [of log ?A]) (auto simp: led_def)
  then show ?thesis
    using l p r' e d(1) o g(2) entry_keeps_knows [OF g(1)] unfolding led_def by (auto simp: effects_append)
qed

lemma leads_led:
  assumes "leads J K r0 log s" and "view (store r0) = Map.empty" "db_ready r0" and "\<forall>d \<in> set log. off_root J d"
  shows "led log s"
  using assms(1,4)
proof (induction rule: leads.induct)
  case begins
  have "ns r0 = Map.empty" using assms(2) by (simp add: ns_of_def fun_eq_iff)
  with assms(2,3) replays_Nil show ?case by (simp add: led_def db_ok_def settled_def)
next
  case (proposes log s env req d)
  then show ?case using nn_handle_entry_ok proposed_knows by (auto simp: led_def)
next
  case (renews log s env paths ds x)
  then show ?case using update_lock_ok [OF _ renews.hyps(2)] update_lock_knows [OF _ renews.hyps(2)] by (auto simp: led_def)
next
  case (commits log s d ds g c c' r')
  then show ?case by (intro led_commit) auto
qed

text \<open>A replica that had applied some of the log, and is given all of it.\<close>

lemma same_treeI:
  assumes "settled J A" "settled J B" and "ahead T A B" and "dom B \<subseteq> dom A"
    and "root_names A \<subseteq> T" "root_names B \<subseteq> T"
  shows "same_tree A B"
proof -
  have none: "A p = None \<Longrightarrow> B p = None" for p using assms(4) by (metis domIff subsetD)
  have "A p = B p" if "p \<noteq> ''/''" for p
    using assms(3) none [of p] that by (cases "A p") (simp_all add: ahead_def)
  moreover have names: "root_names A = root_names B" using assms(3,5,6) by (auto simp: ahead_def)
  moreover have "A ''/'' = None \<longleftrightarrow> B ''/'' = None" using assms(3) none by (auto simp: ahead_def)
  moreover have "mset (sub a) = mset (sub b) \<and> b = a\<lparr>sub := sub b\<rparr>" if ab: "A ''/'' = Some a" "B ''/'' = Some b" for a b
  proof -
    from assms(1,2) ab have "distinct (sub a)" "a = (get_default_dir ''/'')\<lparr>sub := sub a\<rparr>"
      "distinct (sub b)" "b = (get_default_dir ''/'')\<lparr>sub := sub b\<rparr>" unfolding settled_def by blast+
    moreover have "set (sub a) = set (sub b)" using names ab by (simp add: root_names_def)
    ultimately show ?thesis by (cases a; cases b) (simp add: set_eq_iff_mset_eq_distinct)
  qed
  ultimately show ?thesis by (auto simp: same_tree_def split: option.splits)
qed

lemma led_replayed:
  assumes "led log s"
  obtains B B' where "effects J (take n log) Map.empty = Some B" and "settled J B"
    and "effects J log B = Some B'" and "same_tree (ns (nn_db s)) B'"
proof -
  let ?A = "ns (nn_db s)"
  have e: "settled J Map.empty" "root_names Map.empty = {}" by (simp_all add: settled_def root_names_def)
  from assms have a: "effects J (take n log @ drop n log) Map.empty = Some ?A" "settled J ?A" "replays log ?A"
    and ok: "\<forall>d \<in> set log. entry_ok J d \<and> off_root J d" by (simp_all add: led_def)
  then obtain B where b: "effects J (take n log) Map.empty = Some B" "effects J (drop n log) B = Some ?A"
    unfolding effects_append by (auto split: option.splits)
  have ok': "\<forall>d \<in> set (take n log). entry_ok J d \<and> off_root J d" "\<forall>d \<in> set (drop n log). entry_ok J d \<and> off_root J d"
    using ok by (auto dest: in_set_takeD in_set_dropD)
  have B: "settled J B" "root_names B \<subseteq> touches J (take n log)"
    using effects_grow [OF e(1) ok'(1) b(1)] e(2) by (simp_all add: grows_def)
  have "dom B \<subseteq> dom ?A" using effects_grow [OF B(1) ok'(2) b(2)] by (simp add: grows_def)
  from a(3) B(1) obtain B' where b': "effects J log B = Some B'" "ahead (touches J log) ?A B'" "dom B' \<subseteq> dom B \<union> dom ?A"
    unfolding replays_def by blast
  have "touches J (take n log) \<subseteq> touches J log" by (auto simp: touches_def dest: in_set_takeD)
  moreover have "grows (touches J log) B B'" by (rule effects_grow [OF B(1) ok b'(1)])
  moreover have "grows (touches J log) Map.empty ?A" using a(1) by (intro effects_grow [OF e(1) ok]) simp
  moreover have "dom B' \<subseteq> dom ?A" using b'(3) \<open>dom B \<subseteq> dom ?A\<close> by blast
  ultimately have "same_tree ?A B'"
    using a(2) B(2) b'(2) e(2) by (intro same_treeI [of _ _ "touches J log"]) (auto simp: grows_def)
  with b(1) B(1) b'(1) show thesis by (rule that)
qed

end

interpretation text_store: strict_store map_kv "\<lambda>m. m" text_json ascii ..

section \<open>A concrete leader's log\<close>

text \<open>Requests served one after the other by the concrete leader, with the log they leave.\<close>

fun lead ::
    "request list \<Rightarrow> (string \<rightharpoonup> string, (string \<rightharpoonup> string) list) rocksdb \<Rightarrow>
     (string list \<times> (string \<rightharpoonup> string, (string \<rightharpoonup> string) list) rocksdb) option" where
  "lead [] r = Some ([], r)"
| "lead (q # qs) r =
     (case nn_handle text_json map_kv (leader_env 1) r q of
        Proposed d \<Rightarrow>
          (case apply_one text_json map_kv False (d, None) r of
             (Inr c, r') \<Rightarrow> map_option (\<lambda>(ds, r''). (d # ds, r'')) (lead qs r')
           | (Inl e, r') \<Rightarrow> None)
      | Replied resp \<Rightarrow> None
      | Crashed e \<Rightarrow> None)"

lemma lead_leads:
  assumes "leads text_json map_kv r0 log \<lparr>nn_db = r, pending = []\<rparr>" and "lead qs r = Some (ds, r')"
  shows "leads text_json map_kv r0 (log @ ds) \<lparr>nn_db = r', pending = []\<rparr>"
  using assms
proof (induction qs arbitrary: log r ds)
  case (Cons q qs)
  from Cons.prems(2) obtain d c r1 ds' where d: "nn_handle text_json map_kv (leader_env 1) r q = Proposed d"
    "apply_one text_json map_kv False (d, None) r = (Inr c, r1)" "lead qs r1 = Some (ds', r')" "ds = d # ds'"
    by (auto split: rpc_outcome.splits prod.splits sum.splits)
  have "leads text_json map_kv r0 log \<lparr>nn_db = r, pending = [d]\<rparr>"
    using leads.proposes [OF Cons.prems(1), of "leader_env 1" q d] d(1) by simp
  from leads.commits [OF this, of d "[]" False None c r1] d(2)
  have "leads text_json map_kv r0 (log @ [d]) \<lparr>nn_db = r1, pending = []\<rparr>" by simp
  from Cons.IH [OF this d(3)] d(4) show ?case by simp
qed simp

lemma lead_run:
  "case lead [Mkdir ''/a'', Put ''/f'' ''RE<1,1>'', PutOk ''/f'' 0 [], Rm ''/f''] empty_db of
     Some (ds, r) \<Rightarrow> length ds = 4 \<and> list_all (off_root text_json) ds
   | None \<Rightarrow> False"
  by code_simp

section \<open>Properties\<close>

text \<open>
C3: A namenode that restarts without a snapshot recovers.  A leader served requests from an empty namespace, in
any interleaving, and committed \<open>log\<close>, none of it on the root itself.  A replica applied some of these entries before its
process ended, found its store on disk as it had left it, and is given the whole log again by the consensus library.  It
applies all of it without ending its process, and then has the leader's namespace, but for the order in which
the root lists its entries.
\<close>

theorem restart_replays_log:
  assumes "meta_reliable K view J" and "json_strict J utf8"
    and "view (store r0) = Map.empty" "db_ready r0" and "leads J K r0 log s" and "\<forall>d \<in> set log. off_root J d"
    and "view (store q0) = Map.empty" "db_ready q0" and "map fst es = take n log"
    and "view (store q) = view (store (snd (on_apply J K g es q0)))" and "rdb_open K q = Inr q1"
    and "map fst fs = log"
  shows "\<exists>cs q2. on_apply J K g' fs q1 = (Inr cs, q2) \<and>
    same_tree (ns_of J view (store (nn_db s))) (ns_of J view (store q2))"
proof -
  have st: "strict_store K view J utf8" by (intro strict_store.intro assms)
  have led: "strict_store.led view J log s" by (rule strict_store.leads_led [OF st assms(5,3,4,6)])
  then obtain B B' where b: "effects J (take n log) Map.empty = Some B" "settled J B" "effects J log B = Some B'"
    "same_tree (ns_of J view (store (nn_db s))) B'" using strict_store.led_replayed [OF st] by metis
  have ok: "\<forall>d \<in> set log. entry_ok J d \<and> off_root J d" using led by (simp add: strict_store.led_def [OF st])
  have q0: "ns_of J view (store q0) = Map.empty" "db_ok J view (store q0)" "settled J Map.empty"
    using assms(7) by (simp_all add: ns_of_def db_ok_def settled_def fun_eq_iff)
  have "\<forall>d \<in> set (map fst es). entry_ok J d \<and> off_root J d" using ok assms(9) by (auto dest: in_set_takeD)
  then have "ns_of J view (store (snd (on_apply J K g es q0))) = B"
    using strict_store.on_apply_effects [OF st q0(2) assms(8), of es B g] q0(1,3) b(1) assms(9) by auto
  moreover have "q1 = q\<lparr>db_ready := True\<rparr>" using assms(11) by (simp add: rdb_open_def split: if_splits)
  moreover have "db_ok J view (store (snd (on_apply J K g es q0)))"
    using meta_store.on_apply_db_ok [OF _ q0(2), of K g es] assms(1) by (simp add: meta_reliable_def)
  ultimately have q1: "ns_of J view (store q1) = B" "db_ready q1" "db_ok J view (store q1)"
    using assms(10) by (simp_all add: ns_of_def db_ok_def fun_eq_iff)
  from strict_store.on_apply_effects [OF st q1(3,2), of fs B' g'] q1(1) b ok assms(12) show ?thesis by auto
qed

theorem restart_replays_log_witness:
  "\<exists>log s cs q2. leads text_json map_kv empty_db log s \<and> length log = 4 \<and>
     on_apply text_json map_kv False (map (\<lambda>d. (d, None)) log)
       (snd (on_apply text_json map_kv True (map (\<lambda>d. (d, None)) (take 3 log)) empty_db)) = (Inr cs, q2) \<and>
     same_tree (ns_of text_json (\<lambda>m. m) (store (nn_db s))) (ns_of text_json (\<lambda>m. m) (store q2))"
proof -
  obtain log r where l: "lead [Mkdir ''/a'', Put ''/f'' ''RE<1,1>'', PutOk ''/f'' 0 [], Rm ''/f''] empty_db = Some (log, r)"
    and log: "length log = 4" "\<forall>d \<in> set log. off_root text_json d"
    using lead_run by (auto simp: list_all_iff split: option.splits)
  have run: "leads text_json map_kv empty_db log \<lparr>nn_db = r, pending = []\<rparr>"
    using lead_leads [OF leads.begins l] by simp
  let ?q = "snd (on_apply text_json map_kv True (map (\<lambda>d. (d, None)) (take 3 log)) empty_db)"
  have "db_ready ?q"
    using map_meta.on_apply_db_ok [OF empty_db_ok(1)] empty_db_ok(2) by blast
  then have op: "rdb_open map_kv ?q = Inr ?q" by (simp add: rdb_open_def map_kv_def)
  have e: "store empty_db = Map.empty" by (simp add: empty_db_def)
  have "json_strict text_json ascii" by unfold_locales
  from restart_replays_log [OF map_meta_reliable this e empty_db_ok(2) run log(2) e empty_db_ok(2), of
      "map (\<lambda>d. (d, None)) (take 3 log)" 3 ?q True ?q "map (\<lambda>d. (d, None)) log" False] op
  obtain cs q2 where "on_apply text_json map_kv False (map (\<lambda>d. (d, None)) log) ?q = (Inr cs, q2)"
    "same_tree (ns_of text_json (\<lambda>m. m) (store r)) (ns_of text_json (\<lambda>m. m) (store q2))" by (auto simp: comp_def)
  with run log(1) show ?thesis by force
qed

end
