(* ===== verification/Effects.thy ===== *)
theory Effects
  imports Service
begin

text \<open>
  Code that changes a state and may throw: a function from the state to a result and the state left
  behind, also when the result is an error.  The combinators are sequencing, \<^verbatim>\<open>try\<close>/\<^verbatim>\<open>catch\<close>
  of \<^verbatim>\<open>std::exception\<close>, loops over a list, and the embedding of code on a part of the state; the
  collection \<open>eff_simps\<close> unfolds them.
\<close>

named_theorems eff_simps \<open>code that changes a state and may throw\<close>

type_synonym ('s, 'a) eff = "'s \<Rightarrow> 'a res \<times> 's"

definition retE :: "'a \<Rightarrow> ('s, 'a) eff" where
  "retE x s = (Inr x, s)"

definition throwE :: "exn \<Rightarrow> ('s, 'a) eff" where
  "throwE e s = (Inl e, s)"

definition bindE :: "('s, 'a) eff \<Rightarrow> ('a \<Rightarrow> ('s, 'b) eff) \<Rightarrow> ('s, 'b) eff" where
  "bindE m f s = (case m s of (Inl e, s') \<Rightarrow> (Inl e, s') | (Inr x, s') \<Rightarrow> f x s')"

definition thenE :: "('s, 'a) eff \<Rightarrow> ('s, 'b) eff \<Rightarrow> ('s, 'b) eff" where
  "thenE m n = bindE m (\<lambda>_. n)"

definition getE :: "('s \<Rightarrow> 'a) \<Rightarrow> ('s, 'a) eff" where
  "getE f s = (Inr (f s), s)"

definition modifyE :: "('s \<Rightarrow> 's) \<Rightarrow> ('s, unit) eff" where
  "modifyE f s = (Inr (), f s)"

definition liftE :: "'a res \<Rightarrow> ('s, 'a) eff" where
  "liftE r s = (r, s)"

definition whenE :: "bool \<Rightarrow> ('s, unit) eff \<Rightarrow> ('s, unit) eff" where
  "whenE b m = (if b then m else retE ())"

text \<open>\<^verbatim>\<open>try { m } catch (const std::exception& e) { h(e) }\<close>.\<close>

definition catchE :: "('s, 'a) eff \<Rightarrow> (exn \<Rightarrow> ('s, 'a) eff) \<Rightarrow> ('s, 'a) eff" where
  "catchE m h s = (case m s of (Inl e, s') \<Rightarrow> if catchable e then h e s' else (Inl e, s') | (Inr x, s') \<Rightarrow> (Inr x, s'))"

fun forE :: "'a list \<Rightarrow> ('a \<Rightarrow> ('s, unit) eff) \<Rightarrow> ('s, unit) eff" where
  "forE [] body s = (Inr (), s)"
| "forE (x # xs) body s = bindE (body x) (\<lambda>_. forE xs body) s"

text \<open>The same code on a component of a larger state.\<close>

definition onE :: "('t \<Rightarrow> 's) \<Rightarrow> ('s \<Rightarrow> 't \<Rightarrow> 't) \<Rightarrow> ('s, 'a) eff \<Rightarrow> ('t, 'a) eff" where
  "onE get put m t = (case m (get t) of (x, s) \<Rightarrow> (x, put s t))"

section \<open>Facts\<close>

lemmas [eff_simps] = retE_def throwE_def thenE_def getE_def modifyE_def liftE_def whenE_def

lemma bindE_simps [eff_simps]:
  "m s = (Inr x, s') \<Longrightarrow> bindE m f s = f x s'"
  "m s = (Inl e, s') \<Longrightarrow> bindE m f s = (Inl e, s')"
  by (simp_all add: bindE_def)

lemma bindE_basic [simp]:
  "bindE (retE x) f = f x" "bindE (throwE e) f = throwE e" "bindE (getE g) f s = f (g s) s"
  "bindE (modifyE h) f s = f () (h s)" "bindE (liftE (Inr x)) f = f x" "bindE (liftE (Inl e)) f = throwE e"
  by (auto simp: bindE_def retE_def throwE_def getE_def modifyE_def liftE_def fun_eq_iff)

lemma bindE_Inr:
  "bindE m f s = (Inr y, s'') \<longleftrightarrow> (\<exists>x s'. m s = (Inr x, s') \<and> f x s' = (Inr y, s''))"
  by (auto simp: bindE_def split: prod.splits sum.splits)

lemma bindE_assoc: "bindE (bindE m f) g = bindE m (\<lambda>x. bindE (f x) g)"
  by (auto simp: bindE_def fun_eq_iff split: prod.splits sum.splits)

lemma catchE_Inr [eff_simps]: "m s = (Inr x, s') \<Longrightarrow> catchE m h s = (Inr x, s')"
  by (simp add: catchE_def)

lemma catchE_Inl [eff_simps]:
  "m s = (Inl e, s') \<Longrightarrow> catchE m h s = (if catchable e then h e s' else (Inl e, s'))"
  by (simp add: catchE_def)

text \<open>A property of the state that each iteration keeps holds after the loop.\<close>

lemma forE_invariant:
  assumes "\<And>x s r s'. x \<in> set xs \<Longrightarrow> I s \<Longrightarrow> body x s = (r, s') \<Longrightarrow> I s'" and "I s"
  shows "I (snd (forE xs body s))"
  using assms
proof (induction xs arbitrary: s)
  case (Cons x xs)
  obtain r s' where "body x s = (r, s')" by (cases "body x s")
  moreover from this have "I s'" using Cons.prems by auto
  ultimately show ?case using Cons.IH [of s'] Cons.prems(1) by (cases r) (auto simp: bindE_def)
qed simp

end
