(* ===== verification/Files.thy ===== *)
theory Files
  imports Effects Paths
begin

text \<open>
  The part of \<^verbatim>\<open>std::filesystem\<close> and of the file streams the program uses, on a file system whose
  names refer to files through inode numbers, so that a hard link and the name it was made from share
  their contents; and the helpers of \<^verbatim>\<open>src/common/utils.cpp\<close> on it: \<open>mkdir_f\<close>, \<open>read_file\<close>,
  \<open>list_dir\<close>, \<open>clear_dir\<close>.  Names are compared as text, which is enough for the paths the program
  builds.
\<close>

section \<open>The file system\<close>

datatype fnode = FDir | FFile nat

text \<open>
  \<open>denied\<close> are the names the process has no right to create or open; \<open>next_ino\<close> is above every inode
  number in use.
\<close>

record files =
  names :: "(string \<times> fnode) list"
  contents :: "nat \<Rightarrow> string"
  next_ino :: nat
  denied :: "string \<Rightarrow> bool"

definition fs_find :: "files \<Rightarrow> string \<Rightarrow> fnode option" where
  "fs_find F p = (if p = ''/'' then Some FDir else map_of (names F) p)"

definition fs_exists :: "files \<Rightarrow> string \<Rightarrow> bool" where
  "fs_exists F p = (fs_find F p \<noteq> None)"

definition fs_is_directory :: "files \<Rightarrow> string \<Rightarrow> bool" where
  "fs_is_directory F p = (fs_find F p = Some FDir)"

definition fs_error :: "string \<Rightarrow> exn" where
  "fs_error w = StdException (''filesystem error: '' @ w)"

definition fs_file_size :: "string \<Rightarrow> (files, nat) eff" where
  "fs_file_size p F =
     (case fs_find F p of
        Some (FFile n) \<Rightarrow> (Inr (length (contents F n)), F)
      | _ \<Rightarrow> (Inl (fs_error ''cannot get file size''), F))"

text \<open>The bytes under a name, for statements about the program.\<close>

definition fs_data :: "files \<Rightarrow> string \<Rightarrow> string option" where
  "fs_data F p = (case fs_find F p of Some (FFile n) \<Rightarrow> Some (contents F n) | _ \<Rightarrow> None)"

text \<open>
  Opening an \<^verbatim>\<open>ofstream\<close>: the inode number written to, or \<open>None\<close> when the stream is not good.  Without
  \<^verbatim>\<open>ios::app\<close> an existing file is emptied; with it every write goes to the end of the file.
\<close>

definition open_out :: "bool \<Rightarrow> string \<Rightarrow> files \<Rightarrow> nat option \<times> files" where
  "open_out app p F =
     (if denied F p then (None, F)
      else case fs_find F p of
        Some FDir \<Rightarrow> (None, F)
      | Some (FFile n) \<Rightarrow> (Some n, if app then F else F\<lparr>contents := (contents F)(n := [])\<rparr>)
      | None \<Rightarrow>
          if fs_is_directory F (path_parent p) then
            (Some (next_ino F),
             F\<lparr>names := (p, FFile (next_ino F)) # names F, contents := (contents F)(next_ino F := []),
               next_ino := Suc (next_ino F)\<rparr>)
          else (None, F))"

definition write_out :: "nat \<Rightarrow> string \<Rightarrow> files \<Rightarrow> files" where
  "write_out n s F = F\<lparr>contents := (contents F)(n := contents F n @ s)\<rparr>"

text \<open>\<^verbatim>\<open>fs::remove\<close>, \<^verbatim>\<open>fs::remove_all\<close> and \<^verbatim>\<open>fs::create_hard_link\<close>.\<close>

definition below :: "string \<Rightarrow> string \<Rightarrow> bool" where
  "below p q \<longleftrightarrow> take (Suc (length p)) q = p @ [slash]"

definition fs_remove :: "string \<Rightarrow> (files, unit) eff" where
  "fs_remove p F =
     (if fs_find F p = Some FDir \<and> (\<exists>e \<in> set (names F). below p (fst e)) then
        (Inl (fs_error ''cannot remove: Directory not empty''), F)
      else (Inr (), F\<lparr>names := filter (\<lambda>e. fst e \<noteq> p) (names F)\<rparr>))"

definition fs_remove_all :: "string \<Rightarrow> (files, unit) eff" where
  "fs_remove_all p F = (Inr (), F\<lparr>names := filter (\<lambda>e. fst e \<noteq> p \<and> \<not> below p (fst e)) (names F)\<rparr>)"

definition fs_create_hard_link :: "string \<Rightarrow> string \<Rightarrow> (files, unit) eff" where
  "fs_create_hard_link target link F =
     (case fs_find F target of
        Some (FFile n) \<Rightarrow>
          if fs_exists F link \<or> denied F link \<or> \<not> fs_is_directory F (path_parent link) then
            (Inl (fs_error ''cannot create hard link''), F)
          else (Inr (), F\<lparr>names := (link, FFile n) # names F\<rparr>)
      | _ \<Rightarrow> (Inl (fs_error ''cannot create hard link''), F))"

text \<open>\<^verbatim>\<open>fs::resize_file\<close> cuts a file or fills it up with zeros.\<close>

definition fs_resize_file :: "string \<Rightarrow> nat \<Rightarrow> (files, unit) eff" where
  "fs_resize_file p n F =
     (case fs_find F p of
        Some (FFile k) \<Rightarrow>
          if denied F p \<or> 2 ^ 63 \<le> n then (Inl (fs_error ''cannot resize file''), F)
          else (Inr (), F\<lparr>contents := (contents F)(k := take n (contents F k @ replicate (n - length (contents F k)) (CHR 0x00)))\<rparr>)
      | _ \<Rightarrow> (Inl (fs_error ''cannot resize file''), F))"

section \<open>Helpers\<close>

text \<open>\<^verbatim>\<open>create_directories\<close> makes every missing prefix, from the outermost on.\<close>

definition dir_prefixes :: "string \<Rightarrow> string list" where
  "dir_prefixes p = map (\<lambda>n. render (has_root p) (take (Suc n) (components p))) [0..<length (components p)]"

definition make_dir :: "string \<Rightarrow> (files, unit) eff" where
  "make_dir p F =
     (case fs_find F p of
        Some FDir \<Rightarrow> (Inr (), F)
      | Some (FFile n) \<Rightarrow> (Inl (StdException ''mkdir error: Not a directory''), F)
      | None \<Rightarrow> if denied F p then (Inl (StdException ''mkdir error: Permission denied''), F)
                else (Inr (), F\<lparr>names := (p, FDir) # names F\<rparr>))"

definition mkdir_f :: "string \<Rightarrow> (files, unit) eff" where
  "mkdir_f dir = forE (dir_prefixes dir) make_dir"

text \<open>
  \<^verbatim>\<open>read_file\<close> keeps the size in an \<^verbatim>\<open>int\<close>; a negative one makes \<^verbatim>\<open>resize\<close> throw.  A file that cannot be
  opened ends the process through \<^verbatim>\<open>LOG(FATAL)\<close>.
\<close>

definition read_file :: "string \<Rightarrow> (files, string) eff" where
  "read_file path =
     bindE (fs_file_size path) (\<lambda>sz.
       let filesize = to_int32 (int sz)
       in if filesize < 0 then throwE (StdException ''basic_string::_M_replace_aux'')
          else bindE (getE (\<lambda>F. denied F path)) (\<lambda>no.
            if no then throwE (Abort ''Failed to open file for reading.'')
            else getE (\<lambda>F. take (nat filesize) (the (fs_data F path)))))"

text \<open>The names right below a directory, as \<^verbatim>\<open>directory_iterator\<close> gives them.\<close>

definition dir_entries :: "files \<Rightarrow> string \<Rightarrow> string list" where
  "dir_entries F d =
     filter (\<lambda>n. n \<noteq> [] \<and> slash \<notin> set n)
       (map (\<lambda>e. drop (Suc (length d)) (fst e)) (filter (\<lambda>e. below d (fst e)) (names F)))"

definition list_dir :: "string \<Rightarrow> (files, string list) eff" where
  "list_dir dst F =
     (if fs_is_directory F dst then (Inr (dir_entries F dst), F)
      else (Inl (fs_error ''directory iterator cannot open directory''), F))"

definition clear_dir :: "string \<Rightarrow> (files, unit) eff" where
  "clear_dir path F =
     (if fs_exists F path \<and> fs_is_directory F path then
        forE (map (\<lambda>n. path @ slash # n) (dir_entries F path)) fs_remove_all F
      else (Inr (), F))"

section \<open>Facts\<close>

text \<open>Inode numbers in use are below the next one.\<close>

definition files_ok :: "files \<Rightarrow> bool" where
  "files_ok F \<longleftrightarrow> (\<forall>p n. (p, FFile n) \<in> set (names F) \<longrightarrow> n < next_ino F) \<and> distinct (map fst (names F))"

lemma fs_find_file: "fs_find F p = Some (FFile n) \<Longrightarrow> (p, FFile n) \<in> set (names F)"
  by (auto simp: fs_find_def dest: map_of_SomeD split: if_splits)

text \<open>A file written with a fresh or emptied stream reads back, and no file outside it changes.\<close>

lemma open_write_data:
  assumes "files_ok F" and "open_out False p F = (Some n, F')"
  shows "fs_data (write_out n s F') p = Some s"
    and "fs_find F q \<noteq> Some (FFile n) \<Longrightarrow> q \<noteq> p \<Longrightarrow> fs_data (write_out n s F') q = fs_data F q"
    and "denied (write_out n s F') = denied F"
  using assms
  by (auto simp: open_out_def write_out_def fs_data_def fs_find_def files_ok_def
      split: if_splits option.splits fnode.splits dest: map_of_SomeD)

lemma read_file_Inr:
  assumes "fs_data F p = Some s" and "length s < 2 ^ 31" and "\<not> denied F p"
  shows "read_file p F = (Inr s, F)"
proof -
  from assms(1) obtain n where "fs_find F p = Some (FFile n)" "contents F n = s"
    by (auto simp: fs_data_def split: option.splits fnode.splits)
  moreover have "to_int32 (int (length s)) = int (length s)"
    using assms(2) by (intro to_int32_id) auto
  ultimately show ?thesis
    using assms by (simp add: read_file_def fs_file_size_def bindE_def getE_def throwE_def Let_def)
qed

lemma read_file_missing: "fs_data F p = None \<Longrightarrow> \<exists>w. read_file p F = (Inl (StdException w), F)"
  by (auto simp: read_file_def fs_file_size_def fs_data_def fs_error_def bindE_def
      split: option.splits fnode.splits)

lemma read_file_state: "snd (read_file p F) = F"
  by (auto simp: read_file_def fs_file_size_def bindE_def getE_def throwE_def Let_def
      split: option.splits fnode.splits)

lemma map_fst_filter: "distinct (map fst xs) \<Longrightarrow> distinct (map fst (filter P xs))"
  by (induction xs) (auto dest: subsetD [OF filter_is_subset])

lemma files_ok_open: "files_ok F \<Longrightarrow> open_out app p F = (r, F') \<Longrightarrow> files_ok F'"
  by (auto simp: open_out_def files_ok_def fs_find_def map_of_eq_None_iff less_Suc_eq
      split: if_splits option.splits fnode.splits)

lemma files_ok_write [simp]: "files_ok (write_out n s F) = files_ok F"
  by (simp add: write_out_def files_ok_def)

lemma files_ok_update:
  "files_ok F \<Longrightarrow> fs_remove p F = (r, F') \<Longrightarrow> files_ok F'"
  "files_ok F \<Longrightarrow> fs_remove_all p F = (r, F') \<Longrightarrow> files_ok F'"
  "files_ok F \<Longrightarrow> fs_create_hard_link p q F = (r, F') \<Longrightarrow> files_ok F'"
  "files_ok F \<Longrightarrow> make_dir p F = (r, F') \<Longrightarrow> files_ok F'"
  by (auto simp: fs_remove_def fs_remove_all_def fs_create_hard_link_def make_dir_def files_ok_def
      fs_exists_def fs_find_def map_of_eq_None_iff map_fst_filter
      split: if_splits option.splits fnode.splits dest: map_of_SomeD) 

lemma open_out_find:
  assumes "open_out app p F = (r, F')"
  shows "fs_find F' q = (if q = p \<and> fs_find F p = None \<and> r \<noteq> None then Some (FFile (next_ino F)) else fs_find F q)"
  using assms by (auto simp: open_out_def fs_find_def split: if_splits option.splits fnode.splits)

lemma write_out_find [simp]: "fs_find (write_out n s F) q = fs_find F q"
  by (simp add: write_out_def fs_find_def)

text \<open>An empty data directory.\<close>

definition empty_disk :: files where
  "empty_disk = \<lparr>names = [(''/d'', FDir)], contents = (\<lambda>_. []), next_ino = 0, denied = (\<lambda>_. False)\<rparr>"

lemma files_ok_empty_disk: "files_ok empty_disk"
  by (simp add: files_ok_def empty_disk_def)

end
