(* ===== verification/Datanode.thy ===== *)
theory Datanode
  imports Files Node
begin

text \<open>
  \<^verbatim>\<open>include/node/datanode.h\<close> and \<^verbatim>\<open>src/node/datanode.cpp\<close>: the datanode's service, which keeps every
  fragment in a file named after its identifier.  The locale \<open>block_store\<close> is what the client relies
  on: a block that was stored is read back until another one is stored under the same identifier.
\<close>

section \<open>Handlers\<close>

definition block_path :: "string \<Rightarrow> string \<Rightarrow> string" where
  "block_path data_dir blkid = data_dir @ ''/blk_'' @ blkid"

text \<open>The \<^verbatim>\<open>catch\<close> clause of every handler: \<open>COMMON_EXCEPTION\<close> with the exception's text.\<close>

definition dn_fail :: "string \<Rightarrow> response" where
  "dn_fail w = \<lparr>success = False, fail_info = \<lparr>err_code = COMMON_EXCEPTION, err_message = w\<rparr>\<rparr>"

fun exn_text :: "exn \<Rightarrow> string" where
  "exn_text (MessageException m) = err_message m"
| "exn_text (StdException w) = w"
| "exn_text (Abort w) = w"
| "exn_text (Undefined w) = w"
| "exn_text (Hang w) = w"

definition dn_put :: "string \<Rightarrow> string \<Rightarrow> string \<Rightarrow> (files, response) eff" where
  "dn_put data_dir blkid data F =
     (let file_path = block_path data_dir blkid
      in case open_out False file_path F of
           (None, F') \<Rightarrow> (Inr (dn_fail (''openfile error:'' @ file_path)), F')
         | (Some n, F') \<Rightarrow> (Inr (succ_response empty_response), write_out n data F'))"

definition dn_get :: "string \<Rightarrow> string \<Rightarrow> (files, response \<times> string) eff" where
  "dn_get data_dir blkid =
     catchE (bindE (read_file (block_path data_dir blkid)) (\<lambda>data. retE (succ_response empty_response, data)))
       (\<lambda>e. retE (dn_fail (exn_text e), []))"

text \<open>
  The two lists.  Both handlers log the list first, and printing an empty one is undefined.
\<close>

definition list_nodes :: "node list \<Rightarrow> (response \<times> string list) res" where
  "list_nodes nodes =
     rbind (nodes_to_string nodes) (\<lambda>_. Inr (succ_response empty_response, map node_to_string nodes))"

definition get_namenodes :: "node list \<Rightarrow> (response \<times> string list) res" where
  "get_namenodes namenode_list = list_nodes namenode_list"

definition get_datanodes :: "node list \<Rightarrow> (response \<times> string list) res" where
  "get_datanodes datanode_list = list_nodes datanode_list"

section \<open>What the client relies on\<close>

locale block_store =
  fixes put :: "string \<Rightarrow> string \<Rightarrow> ('s, response) eff" and get :: "string \<Rightarrow> ('s, response \<times> string) eff"
    and inv :: "'s \<Rightarrow> bool" and holds :: "'s \<Rightarrow> string \<Rightarrow> string \<Rightarrow> bool"
  assumes put_holds: "inv s \<Longrightarrow> put b d s = (Inr r, s') \<Longrightarrow> success r \<Longrightarrow> length d < 2 ^ 31 \<Longrightarrow> holds s' b d"
    and put_keeps: "inv s \<Longrightarrow> put b d s = (x, s') \<Longrightarrow> holds s c e \<Longrightarrow> c \<noteq> b \<or> e = d \<Longrightarrow> holds s' c e"
    and put_inv: "inv s \<Longrightarrow> put b d s = (x, s') \<Longrightarrow> inv s'"
    and get_holds: "inv s \<Longrightarrow> holds s b d \<Longrightarrow> \<exists>r. get b s = (Inr (r, d), s) \<and> success r"
begin

text \<open>Any number of blocks stored under other identifiers leaves a block readable.\<close>

lemma put_list_keeps:
  assumes "inv s" and "holds s c e" and "\<forall>bd \<in> set bds. fst bd \<noteq> c"
  shows "inv (snd (forE bds (\<lambda>bd. bindE (put (fst bd) (snd bd)) (\<lambda>_. retE ())) s)) \<and>
    holds (snd (forE bds (\<lambda>bd. bindE (put (fst bd) (snd bd)) (\<lambda>_. retE ())) s)) c e"
  using assms
proof (induction bds arbitrary: s)
  case (Cons bd bds)
  obtain x s' where p: "put (fst bd) (snd bd) s = (x, s')" by (cases "put (fst bd) (snd bd) s")
  have "inv s'" and "holds s' c e"
    using put_inv [OF Cons.prems(1) p] put_keeps [OF Cons.prems(1) p Cons.prems(2)] Cons.prems(3) by auto
  with p Cons.IH [of s'] Cons.prems(3) show ?case
    by (cases x) (auto simp: bindE_def retE_def)
qed simp

end

text \<open>
  The datanode's files as a block store: no two names share a file, and a block is held when its file
  can be read and has the data.
\<close>

definition unshared :: "files \<Rightarrow> bool" where
  "unshared F \<longleftrightarrow> files_ok F \<and> (\<forall>p q n. fs_find F p = Some (FFile n) \<longrightarrow> fs_find F q = Some (FFile n) \<longrightarrow> p = q)"

definition holds_block :: "string \<Rightarrow> files \<Rightarrow> string \<Rightarrow> string \<Rightarrow> bool" where
  "holds_block data_dir F blkid data \<longleftrightarrow>
     fs_data F (block_path data_dir blkid) = Some data \<and> \<not> denied F (block_path data_dir blkid) \<and> length data < 2 ^ 31"

section \<open>Facts\<close>

lemma block_path_inject [simp]: "block_path d a = block_path d b \<longleftrightarrow> a = b"
  by (simp add: block_path_def)

lemma unsharedD:
  "unshared F \<Longrightarrow> fs_find F p = Some (FFile n) \<Longrightarrow> fs_find F q = Some (FFile n) \<Longrightarrow> p = q"
  unfolding unshared_def by blast

lemma dn_put_returns: "\<exists>r F'. dn_put d b s F = (Inr r, F')"
  by (cases "open_out False (block_path d b) F"; cases "fst (open_out False (block_path d b) F)")
    (simp_all add: dn_put_def)

lemma unshared_put:
  assumes "unshared F" and "dn_put d b s F = (x, F')"
  shows "unshared F'"
proof -
  obtain r F1 where o: "open_out False (block_path d b) F = (r, F1)" by (cases "open_out False (block_path d b) F")
  with assms have ok: "files_ok F1" using files_ok_open by (auto simp: unshared_def)
  have less: "n < next_ino F" if "fs_find F p = Some (FFile n)" for p n
    using assms(1) fs_find_file [OF that] by (auto simp: unshared_def files_ok_def)
  have "p = q" if "fs_find F1 p = Some (FFile n)" "fs_find F1 q = Some (FFile n)" for p q n
    using that unsharedD [OF assms(1), of p n q] less [of p] less [of q]
    unfolding open_out_find [OF o] by (auto split: if_splits)
  moreover have "fs_find F' p = fs_find F1 p" for p
    using o assms(2) by (auto simp: dn_put_def Let_def split: option.splits)
  moreover have "files_ok F'" using o assms(2) ok by (auto simp: dn_put_def Let_def split: option.splits)
  ultimately show ?thesis by (auto simp: unshared_def)
qed

lemma dn_get_holds:
  assumes "holds_block dir F b d"
  shows "dn_get dir b F = (Inr (succ_response empty_response, d), F)"
  using assms read_file_Inr [of F "block_path dir b" d]
  by (simp add: holds_block_def dn_get_def catchE_def bindE_def retE_def)

lemma dn_get_state: "dn_get dir h F = (x, F') \<Longrightarrow> F' = F"
  using read_file_state [of "block_path dir h" F]
  by (auto simp: dn_get_def catchE_def bindE_def retE_def split: prod.splits sum.splits if_splits)

text \<open>What a \<open>put\<close> changes, and what a \<open>get\<close> can return.\<close>

lemma dn_put_data:
  assumes F: "unshared F" and p: "dn_put dir b d F = (x, F')"
  shows "denied F' = denied F" and "F' = F \<or> fs_data F' (block_path dir b) = Some d"
    and "c \<noteq> b \<Longrightarrow> fs_data F' (block_path dir c) = fs_data F (block_path dir c)"
proof -
  have ok: "files_ok F" using F by (simp add: unshared_def)
  consider "F' = F" | n F1 where "open_out False (block_path dir b) F = (Some n, F1)" "F' = write_out n d F1"
    using p by (auto simp: dn_put_def open_out_def Let_def split: if_splits option.splits fnode.splits)
  then have "denied F' = denied F \<and> (F' = F \<or> fs_data F' (block_path dir b) = Some d) \<and>
    (c \<noteq> b \<longrightarrow> fs_data F' (block_path dir c) = fs_data F (block_path dir c))"
  proof cases
    case (2 n F1)
    have nn: "fs_find F (block_path dir c) \<noteq> Some (FFile n)" if "c \<noteq> b"
    proof
      assume c': "fs_find F (block_path dir c) = Some (FFile n)"
      then have "n < next_ino F" using F fs_find_file [OF c'] by (auto simp: unshared_def files_ok_def)
      with 2(1) have "fs_find F (block_path dir b) = Some (FFile n)"
        by (auto simp: open_out_def split: if_splits option.splits fnode.splits)
      with unsharedD [OF F c', of "block_path dir b"] that show False by simp
    qed
    then show ?thesis using open_write_data(1,3) [OF ok 2(1), of d] open_write_data(2) [OF ok 2(1), of _ d] 2(2) by auto
  qed simp
  then show "denied F' = denied F" "F' = F \<or> fs_data F' (block_path dir b) = Some d"
    "c \<noteq> b \<Longrightarrow> fs_data F' (block_path dir c) = fs_data F (block_path dir c)" by blast+
qed

lemma dn_get_data:
  assumes "fst (dn_get dir h F) = Inr x" and "success (fst x)"
  shows "\<exists>d. fs_data F (block_path dir h) = Some d \<and> snd x = take (nat (to_int32 (int (length d)))) d"
  using assms
  by (auto simp: dn_get_def read_file_def fs_file_size_def fs_data_def catchE_def bindE_def retE_def throwE_def getE_def Let_def dn_fail_def
      split: option.splits fnode.splits if_splits)

lemma dn_get_same:
  assumes "fs_data F' (block_path dir h) = fs_data F (block_path dir h)" and "denied F' = denied F"
  shows "fst (dn_get dir h F') = fst (dn_get dir h F)"
  using assms
  by (auto simp: dn_get_def read_file_def fs_file_size_def fs_data_def catchE_def bindE_def retE_def throwE_def getE_def Let_def
      split: option.splits fnode.splits)

interpretation datanode: block_store "dn_put dir" "dn_get dir" unshared "holds_block dir" for dir
proof
  fix F b d r F'
  assume F: "unshared F" and p: "dn_put dir b d F = (Inr r, F')" "success r" and len: "length d < 2 ^ 31"
  then obtain n F1 where o: "open_out False (block_path dir b) F = (Some n, F1)" and F': "F' = write_out n d F1"
    by (auto simp: dn_put_def dn_fail_def Let_def split: prod.splits option.splits)
  from F o have "\<not> denied F' (block_path dir b)"
    using open_write_data(3) [of F "block_path dir b" n F1 d] unfolding F'
    by (auto simp: unshared_def open_out_def split: if_splits)
  with open_write_data(1) [OF _ o, of d] F len show "holds_block dir F' b d"
    by (simp add: holds_block_def unshared_def F')
next
  fix F b d x F' c e
  assume F: "unshared F" and p: "dn_put dir b d F = (x, F')" and h: "holds_block dir F c e"
    and ne: "c \<noteq> b \<or> e = d"
  show "holds_block dir F' c e"
    using h ne dn_put_data(1,2) [OF F p] dn_put_data(3) [OF F p, of c] by (cases "c = b") (auto simp: holds_block_def)
qed (auto intro: unshared_put dest: dn_get_holds simp: succ_response_def)

section \<open>Properties\<close>

lemma unshared_empty_disk: "unshared empty_disk"
  by (auto simp: unshared_def files_ok_def fs_find_def empty_disk_def split: if_splits)

text \<open>
A datanode returns what it stored: after \<open>put\<close> of a block of less than two gigabytes reported
success, \<open>get\<close> of its identifier succeeds with the same bytes, and every other block the datanode
held before is still returned unchanged.
\<close>

lemma datanode_put_get:
  assumes "unshared F" and "dn_put dir blkid data F = (Inr r, F')" and "success r" and "length data < 2 ^ 31"
  shows "dn_get dir blkid F' = (Inr (succ_response empty_response, data), F') \<and>
    (\<forall>c e. c \<noteq> blkid \<longrightarrow> holds_block dir F c e \<longrightarrow>
       dn_get dir c F' = (Inr (succ_response empty_response, e), F')) \<and> unshared F'"
  using datanode.put_holds [OF assms] datanode.put_keeps [OF assms(1,2)] datanode.put_inv [OF assms(1,2)]
  by (blast intro: dn_get_holds)

end
