(* ===== verification/PathLocks.thy ===== *)
theory PathLocks
  imports Effects
begin

text \<open>
  \<^verbatim>\<open>include/common/pathlocks.h\<close> and \<^verbatim>\<open>src/common/pathlocks.cpp\<close>: reader-writer locks by path, on
  \<^verbatim>\<open>std::shared_mutex\<close>.  The map remembers with each mutex the mode of the call that created it, and
  \<open>unlock\<close> goes by that mode.  A call that would block is the error \<open>Hang\<close>; in the step relation such
  a call is a step that cannot be taken yet.
\<close>

section \<open>Locks\<close>

record shared_mutex =
  exclusive :: bool
  sharers :: nat

definition free_mutex :: shared_mutex where
  "free_mutex = \<lparr>exclusive = False, sharers = 0\<rparr>"

type_synonym pathlocks = "string \<rightharpoonup> bool \<times> shared_mutex"

definition ensure_lock :: "bool \<Rightarrow> string \<Rightarrow> pathlocks \<Rightarrow> pathlocks" where
  "ensure_lock mode key locks = (if locks key = None then locks(key \<mapsto> (mode, free_mutex)) else locks)"

definition pl_read_lock :: "string \<Rightarrow> (pathlocks, unit) eff" where
  "pl_read_lock key locks =
     (let locks' = ensure_lock False key locks; (flag, mtx) = the (locks' key)
      in if exclusive mtx then (Inl (Hang ''lock_shared''), locks')
         else (Inr (), locks'(key \<mapsto> (flag, mtx\<lparr>sharers := Suc (sharers mtx)\<rparr>))))"

definition pl_write_lock :: "string \<Rightarrow> (pathlocks, unit) eff" where
  "pl_write_lock key locks =
     (let locks' = ensure_lock True key locks; (flag, mtx) = the (locks' key)
      in if exclusive mtx \<or> 0 < sharers mtx then (Inl (Hang ''lock''), locks')
         else (Inr (), locks'(key \<mapsto> (flag, mtx\<lparr>exclusive := True\<rparr>))))"

text \<open>Releasing a mode that is not held is undefined.\<close>

definition pl_unlock :: "string \<Rightarrow> (pathlocks, unit) eff" where
  "pl_unlock key locks =
     (case locks key of
        None \<Rightarrow> (Inr (), locks)
      | Some (flag, mtx) \<Rightarrow>
          if flag then
            if exclusive mtx then (Inr (), locks(key \<mapsto> (flag, mtx\<lparr>exclusive := False\<rparr>)))
            else (Inl (Undefined ''unlock of a mutex not held''), locks)
          else if 0 < sharers mtx then (Inr (), locks(key \<mapsto> (flag, mtx\<lparr>sharers := sharers mtx - 1\<rparr>)))
          else (Inl (Undefined ''unlock_shared of a mutex not held''), locks))"

section \<open>Threads that keep to one mode per path\<close>

text \<open>
  The threads of a client, each path used in one mode only (\<open>mode k\<close> is true for writing): \<open>held k\<close>
  counts the calls that hold the lock of \<open>k\<close>, and only a holder unlocks.
\<close>

record lock_state =
  table :: pathlocks
  held :: "string \<Rightarrow> nat"

inductive lock_step :: "(string \<Rightarrow> bool) \<Rightarrow> lock_state \<Rightarrow> lock_state \<Rightarrow> bool" for mode where
  acquire: "(if mode k then pl_write_lock k (table s) else pl_read_lock k (table s)) = (Inr (), t) \<Longrightarrow>
     lock_step mode s (s\<lparr>table := t, held := (held s)(k := Suc (held s k))\<rparr>)"
| release: "0 < held s k \<Longrightarrow> pl_unlock k (table s) = (Inr (), t) \<Longrightarrow>
     lock_step mode s (s\<lparr>table := t, held := (held s)(k := held s k - 1)\<rparr>)"

definition no_locks :: lock_state where
  "no_locks = \<lparr>table = Map.empty, held = (\<lambda>_. 0)\<rparr>"

inductive_cases lock_stepE: "lock_step mode s s'"

section \<open>Facts\<close>

text \<open>The mutex of a path agrees with its mode and with the number of holders.\<close>

fun agrees :: "bool \<Rightarrow> (bool \<times> shared_mutex) option \<Rightarrow> nat \<Rightarrow> bool" where
  "agrees b None h \<longleftrightarrow> h = 0"
| "agrees b (Some (flag, mtx)) h \<longleftrightarrow> flag = b \<and>
     (if b then sharers mtx = 0 \<and> h = (if exclusive mtx then 1 else 0)
      else \<not> exclusive mtx \<and> h = sharers mtx)"

definition lock_inv :: "(string \<Rightarrow> bool) \<Rightarrow> lock_state \<Rightarrow> bool" where
  "lock_inv mode s \<longleftrightarrow> (\<forall>k. agrees (mode k) (table s k) (held s k))"

lemma acquire_agrees:
  assumes "(if b then pl_write_lock k locks else pl_read_lock k locks) = (Inr (), t)" and "agrees b (locks k) h"
  shows "agrees b (t k) (Suc h) \<and> (\<forall>j. j \<noteq> k \<longrightarrow> t j = locks j)"
  using assms
  by (cases "locks k"; cases b)
    (auto simp: pl_write_lock_def pl_read_lock_def ensure_lock_def free_mutex_def Let_def split: if_splits)

lemma release_agrees:
  assumes "agrees b (locks k) h" and "0 < h"
  shows "\<exists>t. pl_unlock k locks = (Inr (), t) \<and> agrees b (t k) (h - 1) \<and> (\<forall>j. j \<noteq> k \<longrightarrow> t j = locks j)"
  using assms by (cases "locks k"; cases b) (auto simp: pl_unlock_def split: if_splits)

lemma lock_step_inv:
  assumes "lock_step mode s s'" and inv: "lock_inv mode s"
  shows "lock_inv mode s'"
  using assms(1)
proof cases
  case (acquire k t)
  have "agrees (mode k) (table s k) (held s k)" using inv by (simp add: lock_inv_def)
  from acquire_agrees [OF acquire(2) this] show ?thesis
    using inv acquire(1) by (auto simp: lock_inv_def)
next
  case (release k t)
  have "agrees (mode k) (table s k) (held s k)" using inv by (simp add: lock_inv_def)
  from release_agrees [where locks = "table s", OF this release(2)] show ?thesis
    using inv release(1,3) by (auto simp: lock_inv_def)
qed

lemma lock_steps_inv: "(lock_step mode)\<^sup>*\<^sup>* no_locks s \<Longrightarrow> lock_inv mode s"
proof (induction rule: rtranclp_induct)
  case base
  show ?case by (simp add: lock_inv_def no_locks_def)
qed (rule lock_step_inv)

section \<open>Properties\<close>



text \<open>
C33: A path used in both modes breaks: whichever mode locked a path first, releasing a lock taken later
in the other mode releases the mode that is not held, which is undefined; \<open>unlock\<close> goes by the mode of
the call that created the entry.
\<close>

theorem pathlocks_mixed_modes:
  assumes "locks k = None"
  shows "fst (thenE (pl_read_lock k) (thenE (pl_unlock k) (thenE (pl_write_lock k) (pl_unlock k))) locks) =
      Inl (Undefined ''unlock_shared of a mutex not held'') \<and>
    fst (thenE (pl_write_lock k) (thenE (pl_unlock k) (thenE (pl_read_lock k) (pl_unlock k))) locks) =
      Inl (Undefined ''unlock of a mutex not held'')"
  using assms
  by (simp add: thenE_def bindE_def pl_read_lock_def pl_write_lock_def pl_unlock_def ensure_lock_def free_mutex_def)

theorem pathlocks_mixed_modes_witness:
  "fst (thenE (pl_read_lock ''p'') (thenE (pl_unlock ''p'') (thenE (pl_write_lock ''p'') (pl_unlock ''p''))) Map.empty) =
     Inl (Undefined ''unlock_shared of a mutex not held'')"
  using pathlocks_mixed_modes [of Map.empty "''p''"] by simp

end
