(* ===== verification/RaftDN.thy ===== *)
theory RaftDN
  imports Files Node
begin

text \<open>
  \<^verbatim>\<open>include/node/raft_dn.h\<close> and \<^verbatim>\<open>src/node/raft_dn.cpp\<close>: the state machine all nodes share.  Its log
  carries the list of namenodes; the leader chooses the list when it is elected and when a namenode
  stops answering.  The outcome of every round of echo calls is a parameter, so is the leader the
  consensus library reports; the callback that starts and stops the local namenode is an argument,
  which \<open>Server\<close> supplies.
\<close>

section \<open>State\<close>

record dn_conf =
  conf_nn_port :: int
  conf_dn_port :: int
  expected_nn :: nat

text \<open>
  \<open>timers\<close> has an entry for every timer the process created, true while its thread runs; \<open>nn_timer\<close>
  is the pointer, the index of the timer it refers to.
\<close>

record raft_dn =
  dn_my_ip :: string
  namenode_list :: "node list"
  datanode_list :: "node list"
  nn_timer :: "nat option"
  timers :: "bool list"

definition new_raft_dn :: "dn_conf \<Rightarrow> string \<Rightarrow> node list \<Rightarrow> raft_dn" where
  "new_raft_dn conf my nodes =
     \<lparr>dn_my_ip = my, namenode_list = [], datanode_list = map (\<lambda>n. n\<lparr>port := conf_dn_port conf\<rparr>) nodes,
      nn_timer = None, timers = []\<rparr>"

definition dn_leader :: "dn_conf \<Rightarrow> raft_dn \<Rightarrow> (string \<times> int) option \<Rightarrow> node" where
  "dn_leader conf d leader_id =
     (case leader_id of
        None \<Rightarrow> default_node\<lparr>ip := dn_my_ip d, port := conf_nn_port conf\<rparr>
      | Some (i, p) \<Rightarrow> default_node\<lparr>ip := i, port := p\<rparr>)"

section \<open>Choosing the namenodes\<close>

text \<open>The inner loop over one batch: online nodes are appended until there are enough.\<close>

fun add_online :: "nat \<Rightarrow> int \<Rightarrow> node list \<Rightarrow> node list \<Rightarrow> node list" where
  "add_online expected p nodes [] = nodes"
| "add_online expected p nodes (n # sub) =
     (if nodeStatus n = ONLINE then
        (let nodes' = nodes @ [n\<lparr>port := p\<rparr>]
         in if expected \<le> length nodes' then nodes' else add_online expected p nodes' sub)
      else add_online expected p nodes sub)"

text \<open>The outer loop takes the remaining nodes in batches; \<open>nets k\<close> is the outcome of round \<open>k\<close>.\<close>

function fill_namenodes ::
    "(nat \<Rightarrow> node \<Rightarrow> echo_outcome) \<Rightarrow> nat \<Rightarrow> nat \<Rightarrow> int \<Rightarrow> node list \<Rightarrow> node list \<Rightarrow> node list res" where
  "fill_namenodes nets k expected p nodes allnodes =
     (if allnodes \<noteq> [] \<and> length nodes < expected then
        rbind (node_discovery (nets k) (take expected allnodes)) (\<lambda>sub.
          fill_namenodes nets (Suc k) expected p (add_online expected p nodes sub) (drop expected allnodes))
      else Inr nodes)"
  by pat_completeness auto
termination
  by (relation "measure (\<lambda>(nets, k, expected, p, nodes, allnodes). length allnodes)") auto

declare fill_namenodes.simps [simp del]

definition choose_namenodes ::
    "dn_conf \<Rightarrow> (nat \<Rightarrow> node \<Rightarrow> echo_outcome) \<Rightarrow> raft_dn \<Rightarrow> node list res" where
  "choose_namenodes conf nets d =
     rbind (node_discovery (nets 0) (sort_key ip (namenode_list d))) (\<lambda>ns.
       let nodes = filter (\<lambda>n. nodeStatus n = ONLINE) ns;
           allnodes = filter (\<lambda>n. \<not> binary_search nodes n) (datanode_list d)
       in fill_namenodes nets 1 (expected_nn conf) (conf_nn_port conf) nodes allnodes)"

text \<open>The data of the task given to the consensus library.\<close>

definition on_leader_start ::
    "json_lib \<Rightarrow> dn_conf \<Rightarrow> (nat \<Rightarrow> node \<Rightarrow> echo_outcome) \<Rightarrow> raft_dn \<Rightarrow> string res" where
  "on_leader_start J conf nets d =
     rbind (choose_namenodes conf nets d) (\<lambda>nodes.
       if nodes = [] then Inl (StdException ''no node ready'') else jdump J (nodes_to_json nodes))"

section \<open>Applying a list\<close>

definition stop_timer :: "raft_dn \<Rightarrow> raft_dn" where
  "stop_timer d =
     (case nn_timer d of None \<Rightarrow> d | Some i \<Rightarrow> d\<lparr>timers := (timers d)[i := False], nn_timer := None\<rparr>)"

definition start_timer :: "raft_dn \<Rightarrow> raft_dn" where
  "start_timer d = d\<lparr>nn_timer := Some (length (timers d)), timers := timers d @ [True]\<rparr>"

text \<open>
  \<^verbatim>\<open>RaftDN::on_apply\<close>: only the last entry of the batch counts.  The callback acts on the state of the
  server.
\<close>

definition dn_on_apply ::
    "json_lib \<Rightarrow> dn_conf \<Rightarrow> (node list \<Rightarrow> ('s, unit) eff) \<Rightarrow> (string \<times> int) option \<Rightarrow> string list \<Rightarrow>
     (raft_dn \<times> 's, unit) eff" where
  "dn_on_apply J conf callback leader_id entries =
     (let data = (if entries = [] then [] else last entries)
      in bindE (liftE (rbind (jparse J data) nodes_from_json)) (\<lambda>ns.
         thenE (modifyE (\<lambda>(d, s). (d\<lparr>namenode_list := ns\<rparr>, s)))
        (thenE (onE snd (\<lambda>s (d, _). (d, s)) (callback ns))
               (modifyE (\<lambda>(d, s).
                  (if ip (dn_leader conf d leader_id) \<noteq> dn_my_ip d then stop_timer d else start_timer d, s))))))"

section \<open>Watching the namenodes\<close>

datatype scan_end = AllOnline | LostNode string

text \<open>
  One run of the timer: node \<open>i\<close> is scanned, again up to three times while it is offline; \<open>t\<close> counts
  the scans and \<open>outs t\<close> is the outcome of scan \<open>t\<close>.  The result has the list with the statuses found.
\<close>

function nn_scan ::
    "(nat \<Rightarrow> node \<Rightarrow> echo_outcome) \<Rightarrow> nat \<Rightarrow> nat \<Rightarrow> nat \<Rightarrow> node list \<Rightarrow> (scan_end \<times> node list \<times> nat) res" where
  "nn_scan outs t i retryCount nodes =
     (if length nodes \<le> i then Inr (AllOnline, nodes, t)
      else case scan (outs t) (nodes ! i) of
        Inl e \<Rightarrow> Inl e
      | Inr n \<Rightarrow>
          if nodeStatus n = OFFLINE then
            if 3 \<le> retryCount then Inr (LostNode (ip n), nodes[i := n], Suc t)
            else nn_scan outs (Suc t) i (Suc retryCount) (nodes[i := n])
          else nn_scan outs (Suc t) (Suc i) 0 (nodes[i := n]))"
  by pat_completeness auto
termination
  by (relation "measures [\<lambda>(outs, t, i, rc, nodes). length nodes - i, \<lambda>(outs, t, i, rc, nodes). 3 - rc]") auto

declare nn_scan.simps [simp del]

text \<open>
  The timer's run and, after a loss, its timeout callback, both in the timer's thread: an exception
  other than the timeout ends the process.  The result is the data of a new proposal, if any.
\<close>

definition on_nodes_loss ::
    "json_lib \<Rightarrow> dn_conf \<Rightarrow> (nat \<Rightarrow> node \<Rightarrow> echo_outcome) \<Rightarrow> raft_dn \<Rightarrow> string res" where
  "on_nodes_loss J conf nets d = on_leader_start J conf nets d"

fun in_thread :: "'a res \<Rightarrow> 'a res" where
  "in_thread (Inl e) = Inl (if catchable e then Abort ''terminate'' else e)"
| "in_thread (Inr x) = Inr x"

definition timer_tick ::
    "json_lib \<Rightarrow> dn_conf \<Rightarrow> (nat \<Rightarrow> node \<Rightarrow> echo_outcome) \<Rightarrow> (nat \<Rightarrow> node \<Rightarrow> echo_outcome) \<Rightarrow> nat \<Rightarrow> raft_dn \<Rightarrow>
     (string option \<times> raft_dn) res" where
  "timer_tick J conf outs nets me d =
     in_thread (rbind (nn_scan outs 0 0 0 (namenode_list d)) (\<lambda>(r, nodes, t).
       let d' = d\<lparr>namenode_list := nodes\<rparr>
       in case r of
            AllOnline \<Rightarrow> Inr (None, d')
          | LostNode lossip \<Rightarrow>
              rbind (new_node lossip 0 UNKNOWN) (\<lambda>_.
                rmap (\<lambda>data. (Some data, d'\<lparr>timers := (timers d')[me := False]\<rparr>)) (on_nodes_loss J conf nets d'))))"

section \<open>Snapshots\<close>

definition snapshot_path :: "string \<Rightarrow> string" where
  "snapshot_path dir = dir @ ''/namenodes.json''"

text \<open>A file that cannot be opened sets the error of the closure, and the write is lost.\<close>

definition dn_on_snapshot_save :: "json_lib \<Rightarrow> string \<Rightarrow> raft_dn \<Rightarrow> (files, bool) eff" where
  "dn_on_snapshot_save J dir d F =
     (case open_out False (snapshot_path dir) F of
        (h, F') \<Rightarrow>
          (case jdump J (nodes_to_json (namenode_list d)) of
             Inl e \<Rightarrow> (Inl e, F')
           | Inr s \<Rightarrow> (Inr (h \<noteq> None), case h of None \<Rightarrow> F' | Some n \<Rightarrow> write_out n s F')))"

definition dn_on_snapshot_load :: "json_lib \<Rightarrow> string \<Rightarrow> files \<Rightarrow> raft_dn \<Rightarrow> (int \<times> raft_dn) res" where
  "dn_on_snapshot_load J dir F d =
     rbind (fst (read_file (snapshot_path dir) F)) (\<lambda>str.
       if str = [] then Inr (0, d)
       else rmap (\<lambda>ns. (0, d\<lparr>namenode_list := ns\<rparr>)) (rbind (jparse J str) nodes_from_json))"

section \<open>Facts\<close>

subsection \<open>The choice\<close>

lemma add_online_eq:
  assumes "length nodes < expected"
  shows "add_online expected p nodes sub =
    nodes @ take (expected - length nodes) (map (\<lambda>n. n\<lparr>port := p\<rparr>) (filter (\<lambda>n. nodeStatus n = ONLINE) sub))"
  using assms
proof (induction expected p nodes sub rule: add_online.induct)
  case (2 expected p nodes n sub)
  show ?case
  proof (cases "nodeStatus n = ONLINE \<and> length nodes + 1 < expected")
    case True
    then have "expected - length nodes = Suc (expected - length (nodes @ [n\<lparr>port := p\<rparr>]))" by auto
    with 2(1) [OF _ refl] True show ?thesis by (simp add: Let_def)
  next
    case False
    then show ?thesis using 2 by (cases "nodeStatus n = ONLINE") (auto simp: le_Suc_eq take_Cons')
  qed
qed simp

text \<open>The candidates among the remaining nodes, as they enter the list.\<close>

definition candidates :: "(node \<Rightarrow> echo_outcome) \<Rightarrow> int \<Rightarrow> node list \<Rightarrow> node list" where
  "candidates net p ns =
     map (\<lambda>n. n\<lparr>nodeStatus := ONLINE, port := p\<rparr>) (filter (\<lambda>n. net n = RpcOk) ns)"

lemma filter_discovered:
  "filter (\<lambda>n. nodeStatus n = ONLINE) (map (\<lambda>n. n\<lparr>nodeStatus := (if net n = RpcOk then ONLINE else OFFLINE)\<rparr>) ns) =
     map (\<lambda>n. n\<lparr>nodeStatus := ONLINE\<rparr>) (filter (\<lambda>n. net n = RpcOk) ns)"
  by (induction ns) auto

lemma fill_namenodes_eq:
  assumes "\<forall>n \<in> set allnodes. net n \<noteq> ChannelInitFailed"
  shows "fill_namenodes (\<lambda>_. net) k expected p nodes allnodes =
    Inr (nodes @ take (expected - length nodes) (candidates net p allnodes))"
  using assms
proof (induction "\<lambda>_ :: nat. net" k expected p nodes allnodes rule: fill_namenodes.induct)
  case (1 k expected p nodes allnodes)
  show ?case
  proof (cases "allnodes \<noteq> [] \<and> length nodes < expected")
    case False
    then show ?thesis by (subst fill_namenodes.simps) (auto simp: candidates_def)
  next
    case True
    let ?sub = "map (\<lambda>n. n\<lparr>nodeStatus := (if net n = RpcOk then ONLINE else OFFLINE)\<rparr>) (take expected allnodes)"
    let ?m = "expected - length nodes"
    have net: "\<forall>n \<in> set (take expected allnodes). net n \<noteq> ChannelInitFailed"
      "\<forall>n \<in> set (drop expected allnodes). net n \<noteq> ChannelInitFailed"
      using "1.prems" by (auto dest: in_set_takeD in_set_dropD)
    have disc: "node_discovery net (take expected allnodes) = Inr ?sub"
      by (rule node_discovery_total [OF net(1)])
    have add: "add_online expected p nodes ?sub = nodes @ take ?m (candidates net p (take expected allnodes))"
      using True by (simp add: add_online_eq filter_discovered candidates_def o_def)
    have split: "candidates net p allnodes =
        candidates net p (take expected allnodes) @ candidates net p (drop expected allnodes)"
      unfolding candidates_def by (metis append_take_drop_id filter_append map_append)
    have "fill_namenodes (\<lambda>_. net) (Suc k) expected p (add_online expected p nodes ?sub) (drop expected allnodes) =
        Inr (add_online expected p nodes ?sub @
          take (expected - length (add_online expected p nodes ?sub)) (candidates net p (drop expected allnodes)))"
      by (rule "1.hyps") (use True net(2) in auto)
    moreover have "fill_namenodes (\<lambda>_. net) k expected p nodes allnodes =
        fill_namenodes (\<lambda>_. net) (Suc k) expected p (add_online expected p nodes ?sub) (drop expected allnodes)"
      using True disc by (subst fill_namenodes.simps) simp
    ultimately show ?thesis by (simp add: add split min_def)
  qed
qed

lemma sorted_kept:
  assumes "\<And>n. ip (f n) = ip n"
  shows "sorted (map ip (map f (filter P (sort_key ip ns))))"
proof -
  have "map ip (map f (filter P (sort_key ip ns))) = map ip (filter P (sort_key ip ns))" using assms by simp
  then show ?thesis by (simp only: sorted_filter sorted_sort_key)
qed

subsection \<open>Watching\<close>

text \<open>The scans from \<open>a\<close> up to before \<open>b\<close> all failed for the address \<open>x\<close>.\<close>

definition failed_scans :: "(nat \<Rightarrow> node \<Rightarrow> echo_outcome) \<Rightarrow> nat \<Rightarrow> nat \<Rightarrow> string \<Rightarrow> bool" where
  "failed_scans outs a b x \<longleftrightarrow> (\<forall>s. a \<le> s \<and> s < b \<longrightarrow> (\<exists>n. ip n = x \<and> outs s n = RpcFailed))"

definition scan_ok :: "(nat \<Rightarrow> node \<Rightarrow> echo_outcome) \<Rightarrow> scan_end \<times> node list \<times> nat \<Rightarrow> bool" where
  "scan_ok outs x \<longleftrightarrow>
     (case x of
        (AllOnline, ns, t) \<Rightarrow> \<forall>n \<in> set ns. nodeStatus n = ONLINE
      | (LostNode a, ns, t) \<Rightarrow> a \<in> ip ` set ns \<and> 4 \<le> t \<and> failed_scans outs (t - 4) t a)"

text \<open>The three ways a scan goes on.\<close>

lemma nn_scan_step:
  assumes "i < length nodes"
  defines "n \<equiv> nodes ! i"
  shows "outs t n = RpcOk \<Longrightarrow> nn_scan outs t i rc nodes = nn_scan outs (Suc t) (Suc i) 0 (nodes[i := n\<lparr>nodeStatus := ONLINE\<rparr>])"
    and "outs t n = RpcFailed \<Longrightarrow> 3 \<le> rc \<Longrightarrow>
      nn_scan outs t i rc nodes = Inr (LostNode (ip n), nodes[i := n\<lparr>nodeStatus := OFFLINE\<rparr>], Suc t)"
    and "outs t n = RpcFailed \<Longrightarrow> \<not> 3 \<le> rc \<Longrightarrow>
      nn_scan outs t i rc nodes = nn_scan outs (Suc t) i (Suc rc) (nodes[i := n\<lparr>nodeStatus := OFFLINE\<rparr>])"
  using assms(1) unfolding n_def by (subst nn_scan.simps, simp)+

lemma nn_scan_spec:
  assumes "\<forall>t n. outs t n \<noteq> ChannelInitFailed" and "rc \<le> 3" and "rc \<le> t"
    and "i < length nodes \<or> i = length nodes \<and> rc = 0"
    and "\<forall>j < i. nodeStatus (nodes ! j) = ONLINE"
    and "i < length nodes \<longrightarrow> failed_scans outs (t - rc) t (ip (nodes ! i))"
  shows "\<exists>r ns t'. nn_scan outs t i rc nodes = Inr (r, ns, t') \<and> t' + rc \<le> t + 4 * (length nodes - i) \<and>
    map ip ns = map ip nodes \<and> scan_ok outs (r, ns, t')"
  using assms
proof (induction outs t i rc nodes rule: nn_scan.induct)
  case (1 outs t i rc nodes)
  show ?case
  proof (cases "i < length nodes")
    case False
    with "1.prems" show ?thesis
      by (subst nn_scan.simps) (auto simp: scan_ok_def in_set_conv_nth)
  next
    case i: True
    let ?on = "(nodes ! i)\<lparr>nodeStatus := ONLINE\<rparr>" and ?off = "(nodes ! i)\<lparr>nodeStatus := OFFLINE\<rparr>"
    have ips: "map ip (nodes[i := ?on]) = map ip nodes" "map ip (nodes[i := ?off]) = map ip nodes"
      using i by (simp_all add: map_update list_update_same_conv)
    show ?thesis
    proof (cases "outs t (nodes ! i)")
      case ChannelInitFailed
      with "1.prems"(1) show ?thesis by blast
    next
      case RpcOk
      then have sc: "scan (outs t) (nodes ! i) = Inr ?on" by simp
      have "\<exists>r ns t'. nn_scan outs (Suc t) (Suc i) 0 (nodes[i := ?on]) = Inr (r, ns, t') \<and>
          t' + 0 \<le> Suc t + 4 * (length (nodes[i := ?on]) - Suc i) \<and>
          map ip ns = map ip (nodes[i := ?on]) \<and> scan_ok outs (r, ns, t')"
        by (rule "1.IH"(2) [OF _ sc]) (use i "1.prems" in \<open>auto simp: nth_list_update failed_scans_def\<close>)
      then show ?thesis using i "1.prems"(2) unfolding ips nn_scan_step(1) [of i nodes outs t rc, OF i RpcOk] by fastforce
    next
      case RpcFailed
      then have sc: "scan (outs t) (nodes ! i) = Inr ?off" by simp
      have fs: "failed_scans outs (t - rc) (Suc t) (ip (nodes ! i))"
        using "1.prems"(6) i RpcFailed unfolding failed_scans_def by (metis less_SucE)
      show ?thesis
      proof (cases "3 \<le> rc")
        case True
        then have "rc = 3" using "1.prems"(2) by simp
        moreover note nn_scan_step(2) [of i nodes outs t rc, OF i RpcFailed True]
        moreover have "ip (nodes ! i) \<in> ip ` set (nodes[i := ?off])"
          using i by (intro image_eqI [of _ _ ?off]) (simp_all add: set_update_memI)
        ultimately show ?thesis using fs i ips "1.prems"(3) by (auto simp: scan_ok_def)
      next
        case False
        have "\<exists>r ns t'. nn_scan outs (Suc t) i (Suc rc) (nodes[i := ?off]) = Inr (r, ns, t') \<and>
            t' + Suc rc \<le> Suc t + 4 * (length (nodes[i := ?off]) - i) \<and>
            map ip ns = map ip (nodes[i := ?off]) \<and> scan_ok outs (r, ns, t')"
          by (rule "1.IH"(1) [OF _ sc _ False]) (use i False fs "1.prems" in \<open>auto simp: nth_list_update\<close>)
        then show ?thesis unfolding ips nn_scan_step(3) [of i nodes outs t rc, OF i RpcFailed False] by auto
      qed
    qed
  qed
qed

subsection \<open>The text of a list\<close>

context json_codec
begin

lemma nodes_reload:
  assumes "jdump J (nodes_to_json ns) = Inr s" and "\<forall>n \<in> set ns. - (2 ^ 31) \<le> port n \<and> port n < 2 ^ 31"
  shows "rbind (jparse J s) nodes_from_json = Inr (map (\<lambda>n. n\<lparr>nodeStatus := UNKNOWN\<rparr>) ns)"
  using parse_dump [OF canon_nodes_to_json assms(1)] nodes_json_roundtrip [OF assms(2)] by simp

end

text \<open>Every list applied as leader adds a running timer and stops none.\<close>

lemma leader_apply_adds_timer:
  assumes "dn_on_apply J conf cb leader_id es (d, s) = (Inr (), (d', s'))"
    and "ip (dn_leader conf d leader_id) = dn_my_ip d"
  shows "timers d' = timers d @ [True]"
proof -
  have lead: "ip (dn_leader conf (d\<lparr>namenode_list := ns\<rparr>) leader_id) = dn_my_ip d" for ns
    using assms(2) by (auto simp: dn_leader_def split: option.splits prod.splits)
  obtain ns where ns: "rbind (jparse J (if es = [] then [] else last es)) nodes_from_json = Inr ns"
    using assms(1) by (cases "rbind (jparse J (if es = [] then [] else last es)) nodes_from_json")
      (simp_all add: dn_on_apply_def Let_def thenE_def bindE_def liftE_def)
  obtain x s1 where cb: "cb ns s = (x, s1)" by fastforce
  show ?thesis
    using assms(1) lead ns cb
    by (cases x) (auto simp: dn_on_apply_def Let_def thenE_def bindE_def liftE_def modifyE_def onE_def start_timer_def)
qed

section \<open>Properties\<close>

text \<open>
C28: The leader's choice of namenodes, with its sorting, binary search, batches and early exits, is the
simple one: the namenodes that answer, sorted by address, and after them as many of the other
datanodes that answer as are missing to the expected number, in their order, with the namenode's
port.
\<close>

theorem choose_namenodes_reference:
  assumes "\<forall>n \<in> set (namenode_list d) \<union> set (datanode_list d). net n \<noteq> ChannelInitFailed"
  shows "choose_namenodes conf (\<lambda>_. net) d =
    (let kept = map (\<lambda>n. n\<lparr>nodeStatus := ONLINE\<rparr>) (filter (\<lambda>n. net n = RpcOk) (sort_key ip (namenode_list d)));
         others = filter (\<lambda>n. ip n \<notin> ip ` set kept) (datanode_list d)
     in Inr (kept @ take (expected_nn conf - length kept) (candidates net (conf_nn_port conf) others)))"
proof -
  let ?kept = "map (\<lambda>n. n\<lparr>nodeStatus := ONLINE\<rparr>) (filter (\<lambda>n. net n = RpcOk) (sort_key ip (namenode_list d)))"
  have "sorted (map ip ?kept)" by (rule sorted_kept) simp
  then have bs: "binary_search ?kept n = (ip n \<in> ip ` set ?kept)" for n by (rule binary_search_iff)
  have "node_discovery net (sort_key ip (namenode_list d)) =
      Inr (map (\<lambda>n. n\<lparr>nodeStatus := (if net n = RpcOk then ONLINE else OFFLINE)\<rparr>) (sort_key ip (namenode_list d)))"
    by (rule node_discovery_total) (use assms in simp)
  then have "choose_namenodes conf (\<lambda>_. net) d = fill_namenodes (\<lambda>_. net) 1 (expected_nn conf) (conf_nn_port conf) ?kept
      (filter (\<lambda>n. \<not> binary_search ?kept n) (datanode_list d))"
    by (simp only: choose_namenodes_def rbind.simps filter_discovered Let_def)
  also have "\<dots> = Inr (?kept @ take (expected_nn conf - length ?kept)
      (candidates net (conf_nn_port conf) (filter (\<lambda>n. \<not> binary_search ?kept n) (datanode_list d))))"
    by (rule fill_namenodes_eq) (use assms in auto)
  finally show ?thesis by (simp only: bs Let_def)
qed

theorem choose_namenodes_reference_witness:
  "choose_namenodes \<lparr>conf_nn_port = 10001, conf_dn_port = 10002, expected_nn = 2\<rparr> (\<lambda>_ _. RpcOk)
     (new_raft_dn \<lparr>conf_nn_port = 10001, conf_dn_port = 10002, expected_nn = 2\<rparr> ''a''
        [default_node\<lparr>ip := ''a''\<rparr>, default_node\<lparr>ip := ''b''\<rparr>, default_node\<lparr>ip := ''c''\<rparr>]) =
   Inr [\<lparr>ip = ''a'', port = 10001, nodeStatus = ONLINE\<rparr>, \<lparr>ip = ''b'', port = 10001, nodeStatus = ONLINE\<rparr>]"
  by (subst choose_namenodes_reference) (simp_all add: new_raft_dn_def candidates_def default_node_def numeral_2_eq_2)

text \<open>
C29: The watch over the namenodes ends and is right: when every channel can be opened, one run of the
timer makes at most four scans per namenode and then either found every namenode online, or reports
the address of a namenode whose last four scans in a row failed.
\<close>

theorem namenode_watch:
  assumes "\<forall>t n. outs t n \<noteq> ChannelInitFailed"
  shows "\<exists>r ns t. nn_scan outs 0 0 0 nodes = Inr (r, ns, t) \<and> t \<le> 4 * length nodes \<and> map ip ns = map ip nodes \<and>
    (case r of
       AllOnline \<Rightarrow> \<forall>n \<in> set ns. nodeStatus n = ONLINE
     | LostNode a \<Rightarrow> a \<in> ip ` set nodes \<and> 4 \<le> t \<and> failed_scans outs (t - 4) t a)"
proof -
  obtain r ns t where s: "nn_scan outs 0 0 0 nodes = Inr (r, ns, t)" "t \<le> 4 * length nodes"
    "map ip ns = map ip nodes" "scan_ok outs (r, ns, t)"
    using nn_scan_spec [OF assms, of 0 0 0 nodes] by (auto simp: failed_scans_def)
  then have "ip ` set ns = ip ` set nodes" by (metis list.set_map)
  with s show ?thesis by (auto simp: scan_ok_def split: scan_end.splits)
qed

theorem namenode_watch_witness:
  "\<exists>r ns t. nn_scan (\<lambda>_ _. RpcFailed) 0 0 0 [default_node\<lparr>ip := ''a''\<rparr>] = Inr (r, ns, t) \<and> t \<le> 4"
  using namenode_watch [of "\<lambda>_ _. RpcFailed" "[default_node\<lparr>ip := ''a''\<rparr>]"] by auto

text \<open>
The list of namenodes survives a snapshot: a node that loads the file another node saved has its
list, with unknown statuses.
\<close>

lemma namenode_snapshot_roundtrip:
  assumes "json_codec J" and "files_ok F" and "dn_on_snapshot_save J dir d F = (Inr True, F')"
    and "\<forall>n \<in> set (namenode_list d). - (2 ^ 31) \<le> port n \<and> port n < 2 ^ 31"
    and "\<And>s. jdump J (nodes_to_json (namenode_list d)) = Inr s \<Longrightarrow> length s < 2 ^ 31"
  shows "dn_on_snapshot_load J dir F' d' =
    Inr (0, d'\<lparr>namenode_list := map (\<lambda>n. n\<lparr>nodeStatus := UNKNOWN\<rparr>) (namenode_list d)\<rparr>)"
proof -
  from assms(3) obtain n F1 s where o: "open_out False (snapshot_path dir) F = (Some n, F1)"
    and s: "jdump J (nodes_to_json (namenode_list d)) = Inr s" and F': "F' = write_out n s F1"
    by (auto simp: dn_on_snapshot_save_def split: prod.splits sum.splits option.splits)
  have "fs_data F' (snapshot_path dir) = Some s" "\<not> denied F' (snapshot_path dir)"
    using open_write_data(1,3) [OF assms(2) o, of s] o unfolding F' by (auto simp: open_out_def split: if_splits)
  then have "read_file (snapshot_path dir) F' = (Inr s, F')" by (intro read_file_Inr assms(5) s)
  with json_codec.nodes_reload [OF assms(1) s assms(4)] json_codec.dump_not_empty [OF assms(1) s] show ?thesis
    by (simp add: dn_on_snapshot_load_def)
qed

end
