(* ===== verification/Server.thy ===== *)
theory Server
  imports RaftDN RaftNN
begin

text \<open>
  \<^verbatim>\<open>include/node/server.h\<close> and \<^verbatim>\<open>src/node/server.cpp\<close>: the process on every node.  It always runs the
  datanode; the callback \<open>on_namenodes_change\<close>, which the shared state machine of \<open>RaftDN\<close> calls with
  every new list of namenodes, starts, reconfigures or stops the local namenode.  How far a start gets
  is up to the service and consensus libraries and is a parameter.
\<close>

section \<open>State\<close>

text \<open>
  \<open>nn_raft_ptr\<close> has the peers the local \<^verbatim>\<open>RaftNN\<close> remembers, \<open>nn_serving\<close> says whether \<^verbatim>\<open>nn_server\<close> was
  started, \<open>nn_inited\<close> whether the raft node was, \<open>nn_services\<close> counts the services added to
  \<^verbatim>\<open>nn_server\<close>, and \<open>nn_calls\<close> are the membership calls made on the raft node.
\<close>

record server =
  srv_ip :: string
  nn_raft_ptr :: "node list option"
  nn_services :: nat
  nn_serving :: bool
  nn_inited :: bool
  nn_calls :: "raft_call list"

text \<open>Where the libraries refuse, in the order of the calls.\<close>

datatype start_outcome =
    OpenDbFailed string | AddCommonFailed | AddNamenodeFailed | AddRaftFailed | ListenFailed | RaftInitFailed | Started

definition new_server :: "dn_conf \<Rightarrow> string list \<Rightarrow> start_outcome \<Rightarrow> node list \<Rightarrow> (raft_dn \<times> server) res" where
  "new_server conf interface_ips out nodes =
     rbind (get_my_ip (map ip nodes) interface_ips) (\<lambda>my.
       case out of
         AddCommonFailed \<Rightarrow> Inl (StdException ''server failed to add dn common service'')
       | AddNamenodeFailed \<Rightarrow> Inl (StdException ''server failed to add dn service'')
       | AddRaftFailed \<Rightarrow> Inl (StdException ''server failed to add dn service'')
       | _ \<Rightarrow> Inr (new_raft_dn conf my nodes,
                   \<lparr>srv_ip = my, nn_raft_ptr = None, nn_services = 0, nn_serving = False, nn_inited = False,
                    nn_calls = []\<rparr>))"

section \<open>Following the list of namenodes\<close>

definition alive_count :: "node list \<Rightarrow> node list \<Rightarrow> nat" where
  "alive_count old new = length (filter (\<lambda>n. \<exists>m \<in> set new. node_eq m n) old)"

text \<open>
  Both lists are logged first.  With more than half of the new list already members the change goes
  through the old group, else the group is reset.
\<close>

definition change_namenodes_list :: "node list \<Rightarrow> (server, unit) eff" where
  "change_namenodes_list new_namenodes s =
     (let old = the (nn_raft_ptr s)
      in case rbind (nodes_to_string old) (\<lambda>_. rbind (nodes_to_string new_namenodes) (\<lambda>_.
             if length new_namenodes div 2 < alive_count old new_namenodes
             then change_peers new_namenodes else reset_peers new_namenodes)) of
           Inl e \<Rightarrow> (Inl e, s)
         | Inr (call, ps) \<Rightarrow> (Inr (), s\<lparr>nn_raft_ptr := Some ps, nn_calls := nn_calls s @ [call]\<rparr>))"

text \<open>
  The start of a namenode.  The constructor of \<^verbatim>\<open>RaftNN\<close> opens the store and prints the list; once it
  returned, \<open>nn_raft_ptr\<close> is set whatever fails after it.
\<close>

definition start_namenode :: "start_outcome \<Rightarrow> node list \<Rightarrow> (server, unit) eff" where
  "start_namenode out namenodes s =
     (let s1 = s\<lparr>nn_raft_ptr := Some namenodes\<rparr>;
          s2 = s1\<lparr>nn_services := nn_services s + 1\<rparr>;
          s3 = s1\<lparr>nn_services := nn_services s + 2\<rparr>;
          s4 = s1\<lparr>nn_services := nn_services s + 3\<rparr>;
          s5 = s4\<lparr>nn_serving := True\<rparr>
      in case nodes_to_string namenodes of
           Inl e \<Rightarrow> (Inl e, s)
         | Inr _ \<Rightarrow>
            (case out of
               OpenDbFailed w \<Rightarrow> (Inl (StdException w), s)
             | AddCommonFailed \<Rightarrow> (Inl (StdException ''server failed to add common nn service''), s1)
             | AddNamenodeFailed \<Rightarrow> (Inl (StdException ''server failed to add nn service''), s2)
             | AddRaftFailed \<Rightarrow> (Inl (StdException ''server failed to add nn service''), s3)
             | ListenFailed \<Rightarrow> (Inl (StdException ''nn server failed to start service''), s4)
             | RaftInitFailed \<Rightarrow> (Inl (StdException ''raft namenode init failed''), s5)
             | Started \<Rightarrow> (Inr (), s5\<lparr>nn_inited := True\<rparr>)))"

definition stop_namenode :: "server \<Rightarrow> server" where
  "stop_namenode s = s\<lparr>nn_raft_ptr := None, nn_services := 0, nn_serving := False, nn_inited := False\<rparr>"

definition on_namenodes_change :: "start_outcome \<Rightarrow> node list \<Rightarrow> (server, unit) eff" where
  "on_namenodes_change out namenodes s =
     (if \<exists>n \<in> set namenodes. ip n = srv_ip s then
        if nn_raft_ptr s \<noteq> None then change_namenodes_list namenodes s else start_namenode out namenodes s
      else (Inr (), if nn_raft_ptr s \<noteq> None then stop_namenode s else s))"

definition srv_leader :: "dn_conf \<Rightarrow> server \<Rightarrow> (string \<times> int) option \<Rightarrow> node res" where
  "srv_leader conf s leader_id =
     (if nn_raft_ptr s = None then Inl (StdException ''not running namenode'')
      else Inr (nn_leader (srv_ip s) (conf_nn_port conf) leader_id))"

text \<open>A node: the shared state machine with the server's callback.\<close>

definition server_apply ::
    "json_lib \<Rightarrow> dn_conf \<Rightarrow> start_outcome \<Rightarrow> (string \<times> int) option \<Rightarrow> string list \<Rightarrow> (raft_dn \<times> server, unit) eff" where
  "server_apply J conf out leader_id entries = dn_on_apply J conf (on_namenodes_change out) leader_id entries"

section \<open>Facts\<close>

text \<open>The local namenode is up with the given peers, or fully down.\<close>

definition nn_matches :: "node list \<Rightarrow> server \<Rightarrow> bool" where
  "nn_matches ns s \<longleftrightarrow>
     (if \<exists>n \<in> set ns. ip n = srv_ip s
      then nn_raft_ptr s = Some ns \<and> nn_serving s \<and> nn_inited s \<and> nn_services s = 3
      else nn_raft_ptr s = None \<and> \<not> nn_serving s \<and> \<not> nn_inited s \<and> nn_services s = 0)"

lemma nodes_to_string_Cons: "ns \<noteq> [] \<Longrightarrow> \<exists>t. nodes_to_string ns = Inr t"
  by (cases ns) (auto simp: nodes_to_string_def Let_def)

lemma change_namenodes_list_Inr:
  assumes "nn_raft_ptr s = Some old" and "old \<noteq> []" and "new \<noteq> []"
  shows "\<exists>t. change_namenodes_list new s =
    (Inr (), s\<lparr>nn_raft_ptr := Some new, nn_calls := nn_calls s @
       [if length new div 2 < alive_count old new then CallChangePeers t else CallResetPeers t]\<rparr>) \<and>
    nodes_to_string new = Inr t"
  using nodes_to_string_Cons [OF assms(2)] nodes_to_string_Cons [OF assms(3)] assms(1)
  by (auto simp: change_namenodes_list_def change_peers_def reset_peers_def Let_def)

lemma on_namenodes_change_matches:
  assumes "nn_matches old s"
  shows "\<exists>s'. on_namenodes_change Started new s = (Inr (), s') \<and> nn_matches new s' \<and> srv_ip s' = srv_ip s"
proof (cases "\<exists>n \<in> set new. ip n = srv_ip s")
  case listed: True
  then have ne: "new \<noteq> []" by auto
  show ?thesis
  proof (cases "nn_raft_ptr s")
    case None
    with assms have "nn_services s = 0" by (auto simp: nn_matches_def split: if_splits)
    with None listed nodes_to_string_Cons [OF ne] show ?thesis
      by (auto simp: on_namenodes_change_def start_namenode_def nn_matches_def Let_def)
  next
    case (Some ps)
    with assms have "ps = old" "old \<noteq> []" by (auto simp: nn_matches_def split: if_splits)
    with change_namenodes_list_Inr [of s old new] Some ne listed assms show ?thesis
      by (auto simp: on_namenodes_change_def nn_matches_def split: if_splits)
  qed
next
  case False
  with assms show ?thesis
    by (auto simp: on_namenodes_change_def nn_matches_def stop_namenode_def split: if_splits)
qed

section \<open>Properties\<close>









end
