(* ===== verification/Process.thy ===== *)
theory Process
  imports Server Files
begin

text \<open>
  The life of a node's process: \<^verbatim>\<open>src/node/main.cpp\<close>, the constructors, \<open>start\<close> and destructor of \<^verbatim>\<open>Server\<close>,
  \<^verbatim>\<open>RaftDN\<close>, \<^verbatim>\<open>RaftNN\<close> and \<^verbatim>\<open>RocksDB\<close>, and \<open>get_all_ips\<close> of \<^verbatim>\<open>src/common/utils.cpp\<close>.  What the operating system, the
  service, the consensus and the store libraries answer is a parameter.
\<close>

section \<open>The machine's addresses\<close>

text \<open>One entry of \<^verbatim>\<open>getifaddrs\<close>: no address, an IPv4 address in its printed form, or another family.\<close>

datatype ifaddr = NoAddr | Inet string | OtherFamily

fun inet_of :: "ifaddr \<Rightarrow> string list" where
  "inet_of (Inet a) = [a]"
| "inet_of _ = []"

definition get_all_ips :: "ifaddr list option \<Rightarrow> string list res" where
  "get_all_ips interfaces =
     (case interfaces of
        None \<Rightarrow> Inl (StdException ''get_all_ips getifaddrs failed'')
      | Some addrs \<Rightarrow> Inr (std_set (concat (map inet_of addrs))))"

section \<open>Options of the raft nodes\<close>

text \<open>The directories of a raft node and the peers it starts with.\<close>

record raft_options =
  log_uri :: string
  raft_meta_uri :: string
  snapshot_uri :: string
  initial_conf :: "node list"
  server_id :: node

definition dn_raft_options :: "string \<Rightarrow> dn_conf \<Rightarrow> raft_dn \<Rightarrow> raft_options" where
  "dn_raft_options data_dir conf d =
     (let prefix = ''local://'' @ data_dir @ ''/datanode''
      in \<lparr>log_uri = prefix @ ''/log'', raft_meta_uri = prefix @ ''/raft_meta'', snapshot_uri = prefix @ ''/snapshot'',
          initial_conf = datanode_list d, server_id = default_node\<lparr>ip := dn_my_ip d, port := conf_dn_port conf\<rparr>\<rparr>)"

text \<open>\<^verbatim>\<open>parse_from\<close> reads the text of the list; that the list is empty shows before, in \<open>to_string\<close>.\<close>

definition nn_raft_options :: "string \<Rightarrow> dn_conf \<Rightarrow> string \<Rightarrow> node list \<Rightarrow> raft_options res" where
  "nn_raft_options data_dir conf my nodes =
     (let prefix = ''local://'' @ data_dir @ ''/namenode''
      in rmap (\<lambda>_. \<lparr>log_uri = prefix @ ''/log'', raft_meta_uri = prefix @ ''/raft_meta'', snapshot_uri = prefix @ ''/snapshot'',
                    initial_conf = nodes, server_id = default_node\<lparr>ip := my, port := conf_nn_port conf\<rparr>\<rparr>)
              (nodes_to_string nodes))"

section \<open>Constructors\<close>

text \<open>\<open>engine_ok\<close> says whether the backup engine opens; \<open>db\<close> and \<open>bk\<close> are what the two directories hold.\<close>

definition rdb_new :: "('db, 'bk) kv_lib \<Rightarrow> bool \<Rightarrow> 'db \<Rightarrow> 'bk \<Rightarrow> string \<Rightarrow> (files, ('db, 'bk) rocksdb) eff" where
  "rdb_new K engine_ok db bk db_dir =
     thenE (mkdir_f (db_dir @ ''/origin''))
    (thenE (mkdir_f (db_dir @ ''/backup''))
      (if \<not> engine_ok then throwE (Abort ''assert s.ok()'')
       else liftE (rdb_open K \<lparr>db_ready = False, store = db, backups = bk\<rparr>)))"

record ('db, 'bk) raft_nn =
  nn_my_ip :: string
  nn_peers :: "node list"
  nn_db :: "('db, 'bk) rocksdb"
  nn_options :: raft_options

definition raft_nn_new ::
    "('db, 'bk) kv_lib \<Rightarrow> bool \<Rightarrow> 'db \<Rightarrow> 'bk \<Rightarrow> string \<Rightarrow> dn_conf \<Rightarrow> string \<Rightarrow> node list \<Rightarrow> (files, ('db, 'bk) raft_nn) eff" where
  "raft_nn_new K engine_ok db bk data_dir conf my nodes =
     bindE (rdb_new K engine_ok db bk (data_dir @ ''/db'')) (\<lambda>r.
     bindE (liftE (nn_raft_options data_dir conf my nodes)) (\<lambda>opts.
       retE \<lparr>nn_my_ip = my, nn_peers = nodes, nn_db = r, nn_options = opts\<rparr>))"

definition list_peers :: "('db, 'bk) raft_nn \<Rightarrow> node list" where
  "list_peers n = nn_peers n"

section \<open>The server\<close>

text \<open>The node's process: the datanode's server and raft node, the shared state machine and the local namenode.\<close>

record process =
  dn_serving :: bool
  dn_inited :: bool
  dn_raft :: "raft_dn option"
  proc_server :: server

definition raft_dn_start :: "bool \<Rightarrow> (process, unit) eff" where
  "raft_dn_start init_ok p =
     (if init_ok then (Inr (), p\<lparr>dn_inited := True\<rparr>) else (Inl (StdException ''raft datanode init failed''), p))"

text \<open>
  The loop of \<open>start\<close>: \<open>quit t\<close> says whether the process was asked to quit at poll \<open>t\<close>; the result has the
  number of polls and of the lines \<^verbatim>\<open>Running\<close>.  The first argument bounds the polls.
\<close>

fun run_loop :: "nat \<Rightarrow> (nat \<Rightarrow> bool) \<Rightarrow> nat \<Rightarrow> nat \<Rightarrow> nat \<Rightarrow> (nat \<times> nat) res" where
  "run_loop 0 quit t count lines_out = Inl (Hang ''start'')"
| "run_loop (Suc fuel) quit t count lines_out =
     (if quit t then Inr (t, lines_out)
      else if Suc count = 5 then run_loop fuel quit (Suc t) 0 (Suc lines_out)
      else run_loop fuel quit (Suc t) (Suc count) lines_out)"

definition server_start :: "bool \<Rightarrow> bool \<Rightarrow> nat \<Rightarrow> (nat \<Rightarrow> bool) \<Rightarrow> (process, nat \<times> nat) eff" where
  "server_start listen_ok init_ok fuel quit =
     bindE (getE (\<lambda>p. p)) (\<lambda>_.
       if \<not> listen_ok then throwE (StdException ''start service failed'')
       else thenE (modifyE (\<lambda>p. p\<lparr>dn_serving := True\<rparr>))
           (thenE (raft_dn_start init_ok) (liftE (run_loop fuel quit 0 0 0))))"

text \<open>\<open>waiting_for_rpc\<close>: \<open>net t\<close> is the outcome of the echo call \<open>t\<close> to the node itself.\<close>

fun waiting_for_rpc :: "nat \<Rightarrow> (nat \<Rightarrow> echo_outcome) \<Rightarrow> nat \<Rightarrow> nat res" where
  "waiting_for_rpc 0 net t = Inl (Hang ''waiting_for_rpc'')"
| "waiting_for_rpc (Suc fuel) net t =
     (case net t of
        ChannelInitFailed \<Rightarrow> Inl (StdException ''init channel failed'')
      | RpcOk \<Rightarrow> Inr (Suc t)
      | RpcFailed \<Rightarrow> waiting_for_rpc fuel net (Suc t))"

definition server_delete :: "process \<Rightarrow> process" where
  "server_delete p =
     p\<lparr>dn_serving := False, dn_inited := False, dn_raft := None,
       proc_server := (proc_server p)\<lparr>nn_serving := False, nn_inited := False, nn_raft_ptr := None\<rparr>\<rparr>"

section \<open>The program\<close>

record node_flags =
  log_dir :: string
  coredumps_dir :: string
  data_dir :: string
  nodes_flag :: string

text \<open>The values when no flag is given.\<close>

definition default_conf :: dn_conf where
  "default_conf = \<lparr>conf_nn_port = 10001, conf_dn_port = 10002, expected_nn = 6\<rparr>"

text \<open>
  \<^verbatim>\<open>main\<close>.  An exception no one catches ends the process without the destructor; the server is a local
  variable, so its destructor runs when \<open>start\<close> returned.
\<close>

definition node_main ::
    "node_flags \<Rightarrow> dn_conf \<Rightarrow> ifaddr list option \<Rightarrow> start_outcome \<Rightarrow> bool \<Rightarrow> bool \<Rightarrow> nat \<Rightarrow> (nat \<Rightarrow> bool) \<Rightarrow>
     (files, process) eff" where
  "node_main flags conf interfaces services listen_ok init_ok fuel quit =
     thenE (mkdir_f (log_dir flags)) (thenE (mkdir_f (coredumps_dir flags)) (thenE (mkdir_f (data_dir flags))
       (liftE (rbind (parse_nodes (nodes_flag flags)) (\<lambda>nodes.
               rbind (get_all_ips interfaces) (\<lambda>ips.
               rbind (new_server conf ips services nodes) (\<lambda>(d, s).
                 let p = \<lparr>dn_serving = False, dn_inited = False, dn_raft = Some d, proc_server = s\<rparr>
                 in case server_start listen_ok init_ok fuel quit p of
                      (Inl e, _) \<Rightarrow> Inl e
                    | (Inr _, p') \<Rightarrow> Inr (server_delete p'))))))))"

section \<open>Facts\<close>

text \<open>The raft nodes of a process do not share a directory.\<close>

lemma raft_directories_disjoint:
  assumes "nn_raft_options dir conf my nodes = Inr n"
  shows "distinct [log_uri (dn_raft_options dir conf d), raft_meta_uri (dn_raft_options dir conf d),
    snapshot_uri (dn_raft_options dir conf d), log_uri n, raft_meta_uri n, snapshot_uri n]"
  using assms by (auto simp: nn_raft_options_def dn_raft_options_def Let_def res_simps)

text \<open>The loop ends at the first poll that asks to quit, with one line every fifth poll.\<close>

lemma run_loop_ends:
  assumes "quit (t + n)" and "\<forall>k < n. \<not> quit (t + k)" and "n < fuel" and "count < 5"
  shows "run_loop fuel quit t count lines_out = Inr (t + n, lines_out + (count + n) div 5)"
  using assms
proof (induction n arbitrary: t count lines_out fuel)
  case 0
  then show ?case by (cases fuel) auto
next
  case (Suc n)
  from Suc.prems(3) obtain f where f: "fuel = Suc f" "n < f" by (cases fuel) auto
  have nq: "\<not> quit t" using Suc.prems(2) [rule_format, of 0] by simp
  have q: "quit (Suc t + n)" "\<forall>k < n. \<not> quit (Suc t + k)"
    using Suc.prems(1) Suc.prems(2) by (auto dest: spec [of _ "Suc _"])
  show ?case
  proof (cases "count = 4")
    case True
    then show ?thesis using f nq Suc.IH [OF q f(2), of 0 "Suc lines_out"] by simp
  next
    case False
    then have "Suc count < 5" using Suc.prems(4) by simp
    with f nq False show ?thesis using Suc.IH [OF q f(2), of "Suc count" lines_out] by simp
  qed
qed

lemma waiting_ends:
  assumes "net (t + n) = RpcOk" and "\<forall>k < n. net (t + k) = RpcFailed" and "n < fuel"
  shows "waiting_for_rpc fuel net t = Inr (Suc (t + n))"
  using assms
proof (induction n arbitrary: t fuel)
  case 0
  then show ?case by (cases fuel) auto
next
  case (Suc n)
  from Suc.prems(3) obtain f where f: "fuel = Suc f" "n < f" by (cases fuel) auto
  have "net t = RpcFailed" using Suc.prems(2) [rule_format, of 0] by simp
  moreover have "net (Suc t + n) = RpcOk" "\<forall>k < n. net (Suc t + k) = RpcFailed"
    using Suc.prems(1) Suc.prems(2) by (auto dest: spec [of _ "Suc _"])
  ultimately show ?case using Suc.IH f by simp
qed

lemma server_start_ends:
  assumes "quit n" and "\<forall>k < n. \<not> quit k" and "n < fuel"
  shows "server_start True True fuel quit p = (Inr (n, n div 5), p\<lparr>dn_serving := True, dn_inited := True\<rparr>)"
proof -
  have "run_loop fuel quit 0 0 0 = Inr (n, n div 5)" using run_loop_ends [of quit 0 n fuel 0 0] assms by simp
  then show ?thesis
    by (simp add: server_start_def raft_dn_start_def bindE_def thenE_def getE_def modifyE_def liftE_def)
qed

lemma get_all_ips_set:
  assumes "get_all_ips (Some addrs) = Inr ips"
  shows "a \<in> set ips \<longleftrightarrow> Inet a \<in> set addrs"
proof -
  from assms have "ips = std_set (concat (map inet_of addrs))" by (simp add: get_all_ips_def)
  then have "set ips = set (concat (map inet_of addrs))" by (simp only: std_set_def set_sort set_remdups)
  moreover have "a \<in> set (inet_of x) \<longleftrightarrow> x = Inet a" for x by (cases x) auto
  ultimately show ?thesis by simp
qed

section \<open>Properties\<close>



end
