(* ===== verification/Blocks.thy ===== *)
theory Blocks
  imports Datanode PathLocks Inode Namenode
begin

text \<open>
  The part of \<^verbatim>\<open>src/client/sdk.cpp\<close> that moves blocks between a client and the datanodes: remote calls
  and their failures, the list of online datanodes, \<open>encode_one\<close>, which spreads the fragments of a
  block, and \<open>decode_one\<close>, which collects enough of them.  The datanodes are those of \<open>Datanode\<close>, one
  file system per address; the storage types those of \<open>Inode\<close>.
\<close>

section \<open>The client and its surroundings\<close>

text \<open>
  What becomes of a remote call: answered, never executed, or executed with the answer lost.  The
  client cannot tell the last two apart.
\<close>

datatype call_fate = Delivered | Lost | NoReply

text \<open>
  The fields of the class \<open>SDK\<close>, its machine's files, and the servers it talks to: \<open>disks n\<close> are the
  files of the datanode at address \<open>n\<close>, \<open>namenodes\<close> the state of the namenodes.  \<open>calls\<close> counts the remote
  calls made so far.
\<close>

record 'n world =
  dn_stubs :: "string list"
  pathlocks :: pathlocks
  remoteLocks :: "string list"
  local_inode_cache :: "string \<rightharpoonup> inode"
  local :: files
  disks :: "string \<Rightarrow> files"
  namenodes :: 'n
  calls :: nat

text \<open>
  What the client's code is given: the fate of each call, the outcome of the echo calls made at a
  time, the hash functions, the libraries, the datanodes' data directory and list of nodes, the
  namenodes' handlers, which element is first in the unordered map \<^verbatim>\<open>dn_stubs\<close>, and the value found in
  uninitialised memory.
\<close>

record 'n cluster =
  fate :: "nat \<Rightarrow> call_fate"
  echoes :: "nat \<Rightarrow> node \<Rightarrow> echo_outcome"
  cal_sha256sum :: "string \<Rightarrow> string"
  cal_md5sum :: "string \<Rightarrow> string"
  ec :: ec_lib
  js :: json_lib
  dn_dir :: string
  dn_nodes :: "string \<Rightarrow> node list"
  first_stub :: "string list \<Rightarrow> string"
  uninit :: bool
  nn_master :: "request \<Rightarrow> 'n \<Rightarrow> response res \<times> 'n"
  nn_master_lock :: "string list \<Rightarrow> 'n \<Rightarrow> response res \<times> 'n"
  nn_slave_ls :: "string \<Rightarrow> 'n \<Rightarrow> (response \<times> string) res"

section \<open>Remote calls\<close>

text \<open>A synchronous call: \<open>None\<close> is a controller that failed, also when the server died on the call.\<close>

definition rpc :: "'n cluster \<Rightarrow> ('n world, 'a) eff \<Rightarrow> ('n world, 'a option) eff" where
  "rpc N m w =
     (let w1 = w\<lparr>calls := Suc (calls w)\<rparr>
      in case fate N (calls w) of
           Lost \<Rightarrow> (Inr None, w1)
         | NoReply \<Rightarrow> (Inr None, snd (m w1))
         | Delivered \<Rightarrow> (case m w1 of (Inl _, w2) \<Rightarrow> (Inr None, w2) | (Inr x, w2) \<Rightarrow> (Inr (Some x), w2)))"

fun check_response :: "response option \<Rightarrow> unit res" where
  "check_response None = Inl (StdException ''brpc not success: '')"
| "check_response (Some response) =
     (if success response then Inr () else Inl (MessageException (fail_info response)))"

text \<open>
  The result of \<^verbatim>\<open>Channel::Init\<close> is ignored, so an address that cannot be resolved shows as failed
  calls; the \<^verbatim>\<open>catch\<close> clause is for an allocation that fails.
\<close>

definition get_dn_stub :: "string \<Rightarrow> ('n world, unit) eff" where
  "get_dn_stub node =
     modifyE (\<lambda>w. if node \<in> set (dn_stubs w) then w else w\<lparr>dn_stubs := dn_stubs w @ [node]\<rparr>)"

definition on_disk :: "string \<Rightarrow> (files, 'a) eff \<Rightarrow> ('n world, 'a) eff" where
  "on_disk node = onE (\<lambda>w. disks w node) (\<lambda>F w. w\<lparr>disks := (disks w)(node := F)\<rparr>)"

definition put_to_datanode :: "'n cluster \<Rightarrow> string \<Rightarrow> string \<Rightarrow> ('n world, string) eff" where
  "put_to_datanode N datanode block =
     (let sha256sum = cal_sha256sum N block
      in thenE (get_dn_stub datanode)
         (bindE (rpc N (on_disk datanode (dn_put (dn_dir N) sha256sum block))) (\<lambda>resp.
            thenE (liftE (check_response resp)) (retE sha256sum))))"

definition get_from_datanode :: "'n cluster \<Rightarrow> string \<Rightarrow> string \<Rightarrow> ('n world, string) eff" where
  "get_from_datanode N datanode blkid =
     thenE (get_dn_stub datanode)
       (bindE (rpc N (on_disk datanode (dn_get (dn_dir N) blkid))) (\<lambda>resp.
          thenE (liftE (check_response (map_option fst resp)))
            (let data = snd (the resp)
             in if cal_sha256sum N data \<noteq> blkid then throwE (StdException ''sha256sum check fail'')
                else retE data)))"

text \<open>Any datanode known so far is asked; without one the iterator is the end of the map.\<close>

definition sdk_get_datanodes :: "'n cluster \<Rightarrow> ('n world, string list) eff" where
  "sdk_get_datanodes N =
     bindE (getE dn_stubs) (\<lambda>stubs.
       if stubs = [] then throwE (Undefined ''begin of an empty map'')
       else bindE (rpc N (liftE (get_datanodes (dn_nodes N (first_stub N stubs))))) (\<lambda>resp.
              thenE (liftE (check_response (map_option fst resp))) (retE (snd (the resp)))))"

definition get_online_datanodes :: "'n cluster \<Rightarrow> ('n world, string list) eff" where
  "get_online_datanodes N =
     bindE (sdk_get_datanodes N) (\<lambda>strs.
     bindE (liftE (rmapM (\<lambda>s. node_from_string s default_node) strs)) (\<lambda>vec.
     bindE (getE calls) (\<lambda>t.
     bindE (liftE (node_discovery (echoes N t) vec)) (\<lambda>vec'.
       retE (map node_to_string (filter (\<lambda>n. nodeStatus n = ONLINE) vec'))))))"

section \<open>Spreading the fragments of a block\<close>

text \<open>
  The loop of \<open>encode_one\<close>.  Its \<^verbatim>\<open>i--\<close> after a failure repeats the fragment on the next node.  The
  first argument bounds the iterations; the loop may run forever, which is the error \<open>Hang\<close>.
\<close>

fun encode_loop ::
    "'n cluster \<Rightarrow> storage_type \<Rightarrow> string list \<Rightarrow> string list \<Rightarrow> nat \<Rightarrow> nat \<Rightarrow> nat \<Rightarrow> nat \<Rightarrow> nat \<Rightarrow>
     (string \<times> string) list \<Rightarrow> ('n world, (string \<times> string) list) eff" where
  "encode_loop N st vec nodes 0 i node_index succ fail_count nodes_hashs = throwE (Hang ''encode_one'')"
| "encode_loop N st vec nodes (Suc fuel) i node_index succ fail_count nodes_hashs =
     (if length vec \<le> i then retE nodes_hashs
      else if nodes = [] then throwE (Undefined ''nodes[0] of an empty vector'')
      else bindE (catchE (bindE (put_to_datanode N (nodes ! node_index) (vec ! i)) (\<lambda>h. retE (Some h))) (\<lambda>_. retE None)) (\<lambda>put.
        let (i', succ', fail_count', nodes_hashs') =
              (case put of
                 Some sha256sum \<Rightarrow> (Suc i, Suc succ, fail_count, nodes_hashs @ [(nodes ! node_index, sha256sum)])
               | None \<Rightarrow> (i, succ, Suc fail_count, nodes_hashs));
            node_index' = Suc node_index mod length nodes
        in if node_index' = 0 \<and> \<not> st_check st (int succ') then
             if fail_count' = length nodes then retE nodes_hashs'
             else encode_loop N st vec nodes fuel i' node_index' succ' 0 nodes_hashs'
           else encode_loop N st vec nodes fuel i' node_index' succ' fail_count' nodes_hashs'))"

definition encode_one :: "'n cluster \<Rightarrow> nat \<Rightarrow> storage_type \<Rightarrow> string \<Rightarrow> ('n world, string) eff" where
  "encode_one N fuel st block =
     bindE (liftE (st_encode (ec N) st block)) (\<lambda>vec.
     bindE (get_online_datanodes N) (\<lambda>nodes.
     bindE (encode_loop N st vec nodes fuel 0 0 0 0 []) (\<lambda>nodes_hashs.
       liftE (encode_one_sub nodes_hashs))))"

section \<open>Collecting them\<close>

text \<open>
  The loop of \<open>decode_one\<close>: \<open>datas\<close> are the fragments fetched so far, \<^verbatim>\<open>succ\<close> of them.  An exception of
  the decoder is caught like one of the fetch, and the next fragment then lands outside the vector.
\<close>

fun decode_loop ::
    "'n cluster \<Rightarrow> storage_type \<Rightarrow> string list \<Rightarrow> (string \<times> string) list \<Rightarrow> ('n world, string) eff" where
  "decode_loop N st datas [] = retE []"
| "decode_loop N st datas ((node, blkid) # res) =
     bindE (catchE (bindE (get_from_datanode N node blkid) (\<lambda>d. retE (Some d))) (\<lambda>_. retE None)) (\<lambda>fetched.
       case fetched of
         None \<Rightarrow> decode_loop N st datas res
       | Some d \<Rightarrow>
           if getDecodeBlocks st \<le> int (length datas) then throwE (Undefined ''datas[succ] out of range'')
           else let datas' = datas @ [d]
                in if int (length datas') = getDecodeBlocks st then
                     (case st_decode (ec N) st datas' of
                        Inr block \<Rightarrow> retE block
                      | Inl e \<Rightarrow> if catchable e then decode_loop N st datas' res else throwE e)
                   else decode_loop N st datas' res)"

definition decode_one :: "'n cluster \<Rightarrow> storage_type \<Rightarrow> string \<Rightarrow> ('n world, string) eff" where
  "decode_one N st s =
     (if getDecodeBlocks st < 0 then throwE (StdException ''vector::_M_default_append'')
      else decode_loop N st [] (decode_one_sub s))"

section \<open>Facts\<close>

text \<open>Every datanode keeps its blocks in files of their own.\<close>

definition disks_ok :: "'n world \<Rightarrow> bool" where
  "disks_ok w \<longleftrightarrow> (\<forall>n. unshared (disks w n))"

text \<open>The placement \<open>(node, id)\<close> is good for a fragment: the id is its hash, and the node holds it.\<close>

definition placed :: "'n cluster \<Rightarrow> 'n world \<Rightarrow> string \<times> string \<Rightarrow> string \<Rightarrow> bool" where
  "placed N w p f \<longleftrightarrow> snd p = cal_sha256sum N f \<and> holds_block (dn_dir N) (disks w (fst p)) (snd p) f"

text \<open>
  The placement is good for a fragment on the nodes \<open>good\<close>; a node outside of them holds whatever it
  does, but nothing that passes for another fragment of the same hash.
\<close>

definition kept :: "'n cluster \<Rightarrow> string set \<Rightarrow> 'n world \<Rightarrow> string \<times> string \<Rightarrow> string \<Rightarrow> bool" where
  "kept N good w p f \<longleftrightarrow>
     snd p = cal_sha256sum N f \<and> (fst p \<in> good \<longrightarrow> placed N w p f) \<and>
     (\<forall>x. fst (dn_get (dn_dir N) (snd p) (disks w (fst p))) = Inr x \<longrightarrow> success (fst x) \<longrightarrow>
        cal_sha256sum N (snd x) = snd p \<longrightarrow> snd x = f)"

text \<open>How many of the \<open>n\<close> calls from number \<open>c\<close> on are answered.\<close>

fun deliveries :: "'n cluster \<Rightarrow> nat \<Rightarrow> nat \<Rightarrow> nat" where
  "deliveries N c 0 = 0"
| "deliveries N c (Suc n) = (if fate N c = Delivered then 1 else 0) + deliveries N (Suc c) n"

text \<open>How many of the fetches of \<open>ps\<close>, made from call \<open>c\<close> on, good nodes answer.\<close>

fun answers :: "'n cluster \<Rightarrow> string set \<Rightarrow> nat \<Rightarrow> (string \<times> string) list \<Rightarrow> nat" where
  "answers N good c [] = 0"
| "answers N good c (p # ps) = (if fate N c = Delivered \<and> fst p \<in> good then 1 else 0) + answers N good (Suc c) ps"

subsection \<open>Calls\<close>

text \<open>What a call to a datanode's \<open>put\<close> leaves: the call is counted, and its handler ran or did not.\<close>

lemma put_to_datanode_cases:
  assumes "put_to_datanode N node f w = (r, w')"
  shows "calls w' = Suc (calls w) \<and> (fate N (calls w) \<noteq> Delivered \<longrightarrow> (\<exists>e. r = Inl e \<and> catchable e)) \<and>
    (disks w' = disks w \<and> (\<exists>e. r = Inl e \<and> catchable e) \<or>
     (\<exists>x F'. dn_put (dn_dir N) (cal_sha256sum N f) f (disks w node) = (Inr x, F') \<and> disks w' = (disks w)(node := F') \<and>
        (\<forall>h. r = Inr h \<longrightarrow> h = cal_sha256sum N f \<and> success x) \<and> (\<forall>e. r = Inl e \<longrightarrow> catchable e) \<and>
        (fate N (calls w) = Delivered \<longrightarrow> success x \<longrightarrow> r = Inr (cal_sha256sum N f))))"
proof -
  obtain x F' where p: "dn_put (dn_dir N) (cal_sha256sum N f) f (disks w node) = (Inr x, F')"
    using dn_put_returns by blast
  show ?thesis
    using assms p
    by (cases "fate N (calls w)")
      (auto simp: put_to_datanode_def Let_def get_dn_stub_def rpc_def on_disk_def onE_def thenE_def bindE_def modifyE_def
        liftE_def retE_def throwE_def split: if_splits)
qed

lemma put_keeps_placed:
  assumes "put_to_datanode N node f w = (r, w')" and "disks_ok w"
  shows "disks_ok w'" and "placed N w p g \<Longrightarrow> inj_on (cal_sha256sum N) {f, g} \<Longrightarrow> placed N w' p g"
    and "r = Inr h \<Longrightarrow> length f < 2 ^ 31 \<Longrightarrow> placed N w' (node, h) f"
proof -
  note cs = put_to_datanode_cases [OF assms(1)]
  have u: "unshared (disks w n)" for n using assms(2) by (simp add: disks_ok_def)
  show "disks_ok w'"
    unfolding disks_ok_def using cs u datanode.put_inv [OF u [of node], of "dn_dir N"]
    by (metis fun_upd_apply)
  show "placed N w' p g" if "placed N w p g" "inj_on (cal_sha256sum N) {f, g}"
  proof -
    have "snd p \<noteq> cal_sha256sum N f \<or> g = f" using that by (auto simp: placed_def inj_on_def)
    with that(1) show ?thesis
      using cs datanode.put_keeps [OF u [of node], of "dn_dir N" "cal_sha256sum N f" f _ _ "snd p" g]
      by (auto simp: placed_def split: if_splits)
  qed
  show "placed N w' (node, h) f" if "r = Inr h" "length f < 2 ^ 31"
    using cs that datanode.put_holds [OF u [of node], of "dn_dir N" "cal_sha256sum N f" f] by (auto simp: placed_def split: if_splits)
qed

text \<open>A fetch gives the fragment or fails, and a good node whose call is answered gives it.\<close>

lemma placed_kept: "placed N w p f \<Longrightarrow> kept N good w p f"
  using dn_get_holds by (auto simp: kept_def placed_def)

lemma kept_disks: "disks w' = disks w \<Longrightarrow> kept N good w' = kept N good w"
  by (simp add: kept_def [abs_def] placed_def [abs_def])

lemma fetch_kept:
  assumes "kept N good w (node, h) f"
  shows "\<exists>r w'. get_from_datanode N node h w = (r, w') \<and> disks w' = disks w \<and> calls w' = Suc (calls w) \<and>
    (r = Inr f \<or> (\<exists>e. r = Inl e \<and> catchable e)) \<and> (fate N (calls w) = Delivered \<longrightarrow> node \<in> good \<longrightarrow> r = Inr f)"
proof -
  obtain x where g: "dn_get (dn_dir N) h (disks w node) = (x, disks w node)"
    using dn_get_state by (metis prod.collapse)
  have good: "x = Inr (succ_response empty_response, f)" if "node \<in> good"
    using that assms g dn_get_holds by (fastforce simp: kept_def placed_def)
  have bad: "snd y = f" if "x = Inr y" "success (fst y)" "cal_sha256sum N (snd y) = h" for y
    using assms g that by (auto simp: kept_def)
  have hash: "cal_sha256sum N f = h" using assms by (simp add: kept_def)
  let ?w = "(if node \<in> set (dn_stubs w) then w else w\<lparr>dn_stubs := dn_stubs w @ [node]\<rparr>)"
  let ?r = "case fate N (calls w) of Delivered \<Rightarrow>
      (case x of Inl _ \<Rightarrow> Inl (StdException ''brpc not success: '')
       | Inr y \<Rightarrow> if \<not> success (fst y) then Inl (MessageException (fail_info (fst y)))
           else if cal_sha256sum N (snd y) \<noteq> h then Inl (StdException ''sha256sum check fail'') else Inr (snd y))
    | _ \<Rightarrow> Inl (StdException ''brpc not success: '')"
  have "get_from_datanode N node h w = (?r, ?w\<lparr>calls := Suc (calls w)\<rparr>)"
    using g
    by (auto simp: get_from_datanode_def Let_def get_dn_stub_def rpc_def on_disk_def onE_def thenE_def bindE_def modifyE_def
        liftE_def retE_def throwE_def split: call_fate.splits sum.splits)
  moreover have "?r = Inr f \<or> (\<exists>e. ?r = Inl e \<and> catchable e)"
    using bad by (auto split: call_fate.splits sum.splits)
  moreover have "fate N (calls w) = Delivered \<longrightarrow> node \<in> good \<longrightarrow> ?r = Inr f"
    using good hash by (simp add: succ_response_def)
  ultimately show ?thesis by simp
qed

subsection \<open>Decoding\<close>

lemma decode_loop_kept:
  assumes "storage_codec (ec N) st" and "st_encode (ec N) st block = Inr vec"
    and "list_all2 (kept N good w) ps fs" and "subseq (datas @ fs) vec" and "int (length datas) < getDecodeBlocks st"
    and "getDecodeBlocks st \<le> int (length datas + answers N good (calls w) ps)"
  shows "\<exists>w'. decode_loop N st datas ps w = (Inr block, w') \<and> disks w' = disks w"
  using assms(3-)
proof (induction ps arbitrary: fs datas w)
  case (Cons p ps)
  obtain node h where p: "p = (node, h)" by (cases p)
  from Cons.prems(1) p obtain f fs' where fs: "fs = f # fs'" "kept N good w (node, h) f" "list_all2 (kept N good w) ps fs'"
    by (auto simp: list_all2_Cons1)
  from fetch_kept [OF fs(2)] obtain r w1 where g: "get_from_datanode N node h w = (r, w1)" "disks w1 = disks w"
    "calls w1 = Suc (calls w)" "r = Inr f \<or> (\<exists>e. r = Inl e \<and> catchable e)"
    "fate N (calls w) = Delivered \<longrightarrow> node \<in> good \<longrightarrow> r = Inr f" by blast
  have still: "list_all2 (kept N good w1) ps fs'" using fs(3) kept_disks [OF g(2)] by metis
  show ?case
  proof (cases "r = Inr f")
    case False
    with g(4) obtain e where "r = Inl e" "catchable e" by auto
    then have step: "decode_loop N st datas (p # ps) w = decode_loop N st datas ps w1"
      using g(1) p by (simp add: bindE_def catchE_def retE_def)
    have "subseq (datas @ fs') (datas @ fs)" unfolding fs(1) by (simp add: subseq_append' list_emb_Cons)
    then have "subseq (datas @ fs') vec" using Cons.prems(2) by (rule subseq_order.trans)
    from Cons.IH [OF still this Cons.prems(3)] Cons.prems(4) False g(2,3,5) p show ?thesis unfolding step by auto
  next
    case r: True
    let ?ds = "datas @ [f]"
    have sub: "subseq (?ds @ fs') vec" using Cons.prems(2) fs(1) by simp
    have fetched: "bindE (catchE (bindE (get_from_datanode N node h) (\<lambda>d. retE (Some d))) (\<lambda>_. retE None)) k w = k (Some f) w1" for k
      using g(1) r by (simp add: bindE_def catchE_def retE_def)
    show ?thesis
    proof (cases "int (length ?ds) = getDecodeBlocks st")
      case True
      have "subseq ?ds vec"
        using sub prefix_imp_subseq [of ?ds "?ds @ fs'"] by (metis prefixI subseq_order.trans)
      with storage_codec.decode_encode [OF assms(1,2) _ True] have "st_decode (ec N) st ?ds = Inr block" by blast
      with True Cons.prems(3) g(2) show ?thesis by (simp add: p fetched retE_def)
    next
      case False
      then have lt: "int (length ?ds) < getDecodeBlocks st" using Cons.prems(3) by simp
      have "getDecodeBlocks st \<le> int (length ?ds + answers N good (calls w1) ps)" using Cons.prems(4) g(3) by (simp split: if_splits)
      from Cons.IH [OF still sub lt this] Cons.prems(3) False g(2) show ?thesis by (auto simp: p fetched Let_def)
    qed
  qed
qed (use assms in simp)


lemma answers_UNIV: "answers N UNIV c ps = deliveries N c (length ps)"
  by (induction ps arbitrary: c) simp_all

lemma answers_all: "\<forall>c' \<ge> c. fate N c' = Delivered \<Longrightarrow> answers N good c ps = length (filter (\<lambda>p. fst p \<in> good) ps)"
  by (induction ps arbitrary: c) auto

subsection \<open>Encoding\<close>

text \<open>The rest of an iteration of \<open>encode_loop\<close> after the call.\<close>

definition after_put ::
    "'n cluster \<Rightarrow> storage_type \<Rightarrow> string list \<Rightarrow> string list \<Rightarrow> nat \<Rightarrow> nat \<Rightarrow> nat \<Rightarrow> nat \<Rightarrow> nat \<Rightarrow>
     (string \<times> string) list \<Rightarrow> ('n world, (string \<times> string) list) eff" where
  "after_put N st vec nodes fuel i ni succ fc nhs =
     (if Suc ni mod length nodes = 0 \<and> \<not> st_check st (int succ) then
        if fc = length nodes then retE nhs else encode_loop N st vec nodes fuel i 0 succ 0 nhs
      else encode_loop N st vec nodes fuel i (Suc ni mod length nodes) succ fc nhs)"

lemma encode_loop_done: "length vec \<le> i \<Longrightarrow> encode_loop N st vec nodes (Suc fuel) i ni succ fc nhs w = (Inr nhs, w)"
  by (simp add: retE_def)

lemma encode_loop_step:
  assumes "i < length vec" and "nodes \<noteq> []" and "put_to_datanode N (nodes ! ni) (vec ! i) w = (r, w1)"
  shows "r = Inr h \<Longrightarrow> encode_loop N st vec nodes (Suc fuel) i ni succ fc nhs w =
      after_put N st vec nodes fuel (Suc i) ni (Suc succ) fc (nhs @ [(nodes ! ni, h)]) w1"
    and "r = Inl e \<Longrightarrow> encode_loop N st vec nodes (Suc fuel) i ni succ fc nhs w =
      after_put N st vec nodes fuel i ni succ (Suc fc) nhs w1"
  using assms put_to_datanode_cases [OF assms(3)]
  by (auto simp: bindE_def catchE_def retE_def after_put_def Let_def)

lemma after_put_Inr:
  assumes "after_put N st vec nodes fuel i ni succ fc nhs w = (x, w')" and "nodes \<noteq> []"
  shows "(x, w') = (Inr nhs, w) \<or>
    (\<exists>ni' fc'. ni' < length nodes \<and> encode_loop N st vec nodes fuel i ni' succ fc' nhs w = (x, w'))"
  using assms by (auto simp: after_put_def retE_def split: if_splits)

lemma encode_loop_placed:
  assumes "encode_loop N st vec nodes fuel (length nhs) ni succ fc nhs w = (Inr nhs', w')" and "disks_ok w"
    and "list_all2 (placed N w) nhs (take (length nhs) vec)" and "fst ` set nhs \<subseteq> set nodes"
    and "nodes = [] \<or> ni < length nodes"
    and "inj_on (cal_sha256sum N) (set vec)" and "\<forall>f \<in> set vec. length f < 2 ^ 31"
  shows "list_all2 (placed N w') nhs' (take (length nhs') vec) \<and> disks_ok w' \<and> fst ` set nhs' \<subseteq> set nodes"
  using assms
proof (induction fuel arbitrary: nhs ni succ fc w)
  case (Suc fuel)
  let ?i = "length nhs"
  show ?case
  proof (cases "length vec \<le> ?i \<or> nodes = []")
    case True
    with Suc.prems show ?thesis by (auto simp: retE_def throwE_def split: if_splits)
  next
    case False
    then have i: "?i < length vec" and ne: "nodes \<noteq> []" by auto
    obtain r w1 where p: "put_to_datanode N (nodes ! ni) (vec ! ?i) w = (r, w1)"
      by (cases "put_to_datanode N (nodes ! ni) (vec ! ?i) w")
    note keeps = put_keeps_placed [OF p Suc.prems(2)]
    have old: "list_all2 (placed N w1) nhs (take ?i vec)"
      using Suc.prems(3)
    proof (rule list.rel_mono_strong)
      fix q f
      assume "q \<in> set nhs" "f \<in> set (take ?i vec)" and pl: "placed N w q f"
      then have "{vec ! ?i, f} \<subseteq> set vec" using i by (auto dest: in_set_takeD)
      then show "placed N w1 q f" using keeps(2) [OF pl] inj_on_subset [OF Suc.prems(6)] by blast
    qed
    show ?thesis
    proof (cases r)
      case (Inl e)
      from Suc.prems(1) encode_loop_step(2) [OF i ne p Inl]
      have "after_put N st vec nodes fuel ?i ni succ (Suc fc) nhs w1 = (Inr nhs', w')" by simp
      from after_put_Inr [OF this ne] show ?thesis
        using Suc.IH [OF _ keeps(1) old Suc.prems(4) _ Suc.prems(6,7)] keeps(1) old Suc.prems(4)
        by (elim disjE exE conjE) (simp, blast)
    next
      case (Inr h)
      let ?nhs = "nhs @ [(nodes ! ni, h)]"
      have new: "list_all2 (placed N w1) ?nhs (take (length ?nhs) vec)"
        using old keeps(3) [OF Inr] Suc.prems(7) i by (simp add: take_Suc_conv_app_nth list_all2_append)
      have sub: "fst ` set ?nhs \<subseteq> set nodes" using Suc.prems(4,5) ne by auto
      from Suc.prems(1) encode_loop_step(1) [OF i ne p Inr]
      have "after_put N st vec nodes fuel (length ?nhs) ni (Suc succ) fc ?nhs w1 = (Inr nhs', w')" by simp
      from after_put_Inr [OF this ne] show ?thesis
        using Suc.IH [OF _ keeps(1) new sub _ Suc.prems(6,7)] keeps(1) new sub
        by (elim disjE exE conjE) (simp, blast)
    qed
  qed
qed (simp add: throwE_def)

subsection \<open>The online datanodes\<close>

text \<open>
  What the client relies on of the cluster: addresses that print and parse, and hashes without the
  separators of a placement.
\<close>

definition cluster_ok :: "'n cluster \<Rightarrow> bool" where
  "cluster_ok N \<longleftrightarrow>
     (\<forall>x. \<forall>n \<in> set (dn_nodes N x). addr_ok n \<and> CHR ''|'' \<notin> set (ip n)) \<and>
     (\<forall>d. CHR ''|'' \<notin> set (cal_sha256sum N d) \<and> CHR '','' \<notin> set (cal_sha256sum N d))"

lemma sdk_get_datanodes_Inr:
  assumes "sdk_get_datanodes N w = (Inr strs, w')"
  shows "disks w' = disks w \<and> (\<exists>x. strs = map node_to_string (dn_nodes N x))"
proof -
  let ?ns = "dn_nodes N (first_stub N (dn_stubs w))"
  have "get_datanodes ?ns = Inr (succ_response empty_response, map node_to_string ?ns) \<or> (\<exists>e. get_datanodes ?ns = Inl e)"
    by (cases "nodes_to_string ?ns") (simp_all add: get_datanodes_def list_nodes_def)
  with assms show ?thesis
    by (cases "dn_stubs w = []"; cases "fate N (calls w)")
      (auto simp: sdk_get_datanodes_def rpc_def thenE_def bindE_def getE_def liftE_def retE_def throwE_def succ_response_def)
qed

lemma rmapM_parse_print:
  "\<forall>n \<in> set ns. addr_ok n \<Longrightarrow>
     rmapM (\<lambda>s. node_from_string s default_node) (map node_to_string ns) =
       Inr (map (\<lambda>n. default_node\<lparr>ip := ip n, port := port n\<rparr>) ns)"
  by (induction ns) (simp_all add: node_from_string_to_string)

lemma get_online_datanodes_Inr:
  assumes "cluster_ok N" and "get_online_datanodes N w = (Inr nodes, w')"
  shows "disks w' = disks w \<and> (\<forall>s \<in> set nodes. \<exists>n. addr_ok n \<and> CHR ''|'' \<notin> set (ip n) \<and> s = node_to_string n)"
proof -
  from assms(2) obtain strs w1 where s: "sdk_get_datanodes N w = (Inr strs, w1)"
    by (auto simp: get_online_datanodes_def bindE_Inr)
  from sdk_get_datanodes_Inr [OF this] obtain x where x: "disks w1 = disks w" "strs = map node_to_string (dn_nodes N x)" by blast
  have ok: "\<forall>n \<in> set (dn_nodes N x). addr_ok n \<and> CHR ''|'' \<notin> set (ip n)" using assms(1) unfolding cluster_ok_def by blast
  let ?ms = "map (\<lambda>n. default_node\<lparr>ip := ip n, port := port n\<rparr>) (dn_nodes N x)"
  have ms: "rmapM (\<lambda>s. node_from_string s default_node) strs = Inr ?ms"
    unfolding x(2) using ok by (intro rmapM_parse_print) blast
  from assms(2) s ms obtain vs where vs: "node_discovery (echoes N (calls w1)) ?ms = Inr vs" 
    and nodes: "nodes = map node_to_string (filter (\<lambda>n. nodeStatus n = ONLINE) vs)" and w': "w' = w1"
    by (auto simp: get_online_datanodes_def bindE_def getE_def liftE_def retE_def split: sum.splits)
  have "node_to_string ` set vs = node_to_string ` set (dn_nodes N x)"
    using node_discovery_Inr [OF vs] by (auto simp: node_to_string_def image_iff)
  with ok show ?thesis unfolding nodes w' x(1) by (fastforce simp: x(1))
qed

lemma placed_placement_ok:
  assumes "cluster_ok N" and "\<forall>s \<in> set nodes. \<exists>n. addr_ok n \<and> CHR ''|'' \<notin> set (ip n) \<and> s = node_to_string n"
    and "list_all2 (placed N w) nhs fs" and "fst ` set nhs \<subseteq> set nodes"
  shows "\<forall>q \<in> set nhs. placement_ok q"
proof
  fix q assume q: "q \<in> set nhs"
  then have "fst q \<in> set nodes" using assms(4) by auto
  moreover from assms(3) q obtain f where "placed N w q f" by (auto simp: list_all2_conv_all_nth in_set_conv_nth)
  ultimately show "placement_ok q" using assms(1,2) unfolding placement_ok_def cluster_ok_def placed_def by metis
qed

lemma encode_one_placed:
  assumes "encode_one N fuel st block w = (Inr s, w')" and "cluster_ok N" and "disks_ok w"
    and "st_encode (ec N) st block = Inr vec" and "inj_on (cal_sha256sum N) (set vec)" and "\<forall>f \<in> set vec. length f < 2 ^ 31"
  shows "list_all2 (placed N w') (decode_one_sub s) (take (length (decode_one_sub s)) vec) \<and> disks_ok w'"
proof -
  from assms(1,4) obtain nodes w1 nhs where n: "get_online_datanodes N w = (Inr nodes, w1)"
    and l: "encode_loop N st vec nodes fuel 0 0 0 0 [] w1 = (Inr nhs, w')" and s: "encode_one_sub nhs = Inr s"
    by (auto simp: encode_one_def bindE_Inr liftE_def)
  note on = get_online_datanodes_Inr [OF assms(2) n]
  then have "disks_ok w1" using assms(3) by (simp add: disks_ok_def)
  with encode_loop_placed [of N st vec nodes fuel "[]" 0 0 0 w1 nhs w'] l assms(5,6)
  have p: "list_all2 (placed N w') nhs (take (length nhs) vec)" "disks_ok w'" "fst ` set nhs \<subseteq> set nodes" by auto
  have "\<forall>q \<in> set nhs. placement_ok q" using placed_placement_ok [OF assms(2) _ p(1,3)] on by blast
  moreover have "nhs \<noteq> []" using s by (auto simp: encode_one_sub_def)
  ultimately have "decode_one_sub s = nhs" using decode_encode_one_sub [of nhs] s by auto
  with p show ?thesis by simp
qed

text \<open>A datanode that can write every block the client may send.\<close>

definition writable :: "'n cluster \<Rightarrow> files \<Rightarrow> bool" where
  "writable N F \<longleftrightarrow>
     (\<forall>d. let p = block_path (dn_dir N) (cal_sha256sum N d)
          in \<not> denied F p \<and> fs_find F p \<noteq> Some FDir \<and> (fs_find F p = None \<longrightarrow> fs_is_directory F (path_parent p)))"

lemma writable_put:
  assumes "writable N F" and "dn_put (dn_dir N) (cal_sha256sum N d) f F = (Inr x, F')"
  shows "success x \<and> writable N F'"
proof -
  let ?p = "block_path (dn_dir N) (cal_sha256sum N d)"
  obtain h F1 where o: "open_out False ?p F = (h, F1)" by fastforce
  with assms(1) obtain n where h: "h = Some n"
    unfolding writable_def Let_def by (auto simp: open_out_def split: if_splits option.splits fnode.splits)
  have den: "denied F1 = denied F" using o by (auto simp: open_out_def split: if_splits option.splits fnode.splits)
  from assms(2) o h have F': "F' = write_out n f F1" "success x" by (auto simp: dn_put_def succ_response_def)
  have "denied F' = denied F" using den by (simp add: F' write_out_def)
  moreover have "fs_find F' q = (if q = ?p \<and> fs_find F ?p = None then Some (FFile (next_ino F)) else fs_find F q)" for q
    using open_out_find [OF o] h by (simp add: F')
  ultimately show ?thesis
    using assms(1) F'(2) unfolding writable_def Let_def fs_is_directory_def by auto
qed

lemma put_writable:
  assumes "put_to_datanode N node f w = (r, w')" and "writable N (disks w node)"
  shows "fate N (calls w) = Delivered \<Longrightarrow> r = Inr (cal_sha256sum N f)"
    and "writable N (disks w n) \<Longrightarrow> writable N (disks w' n)"
proof -
  obtain x F' where p: "dn_put (dn_dir N) (cal_sha256sum N f) f (disks w node) = (Inr x, F')" using dn_put_returns by blast
  note wr = writable_put [OF assms(2) p]
  show "r = Inr (cal_sha256sum N f)" if "fate N (calls w) = Delivered"
    using assms(1) p wr that
    by (auto simp: put_to_datanode_def Let_def get_dn_stub_def rpc_def on_disk_def onE_def thenE_def bindE_def modifyE_def
        liftE_def retE_def throwE_def split: if_splits)
  show "writable N (disks w' n)" if "writable N (disks w n)"
    using put_to_datanode_cases [OF assms(1)] p wr that by (auto split: if_splits)
qed

text \<open>
  While the fragments placed are too few, \<open>fail_count\<close> counts the failures of the current round, and
  when it counts all its calls they all failed.
\<close>

definition round_ok :: "'n cluster \<Rightarrow> storage_type \<Rightarrow> nat \<Rightarrow> nat \<Rightarrow> nat \<Rightarrow> nat \<Rightarrow> bool" where
  "round_ok N st c ni succ fc \<longleftrightarrow>
     st_check st (int succ) \<or>
     fc \<le> ni \<and> (fc = ni \<longrightarrow> ni \<le> c \<and> (\<forall>j < ni. fate N (c - ni + j) \<noteq> Delivered))"

lemma st_check_mono: "st_check st (int n) \<Longrightarrow> n \<le> m \<Longrightarrow> st_check st (int m)"
  by (cases st) auto

lemma round_ok_step:
  assumes "round_ok N st c ni succ fc"
  shows "fate N c \<noteq> Delivered \<Longrightarrow> round_ok N st (Suc c) (Suc ni) succ (Suc fc)"
    and "round_ok N st (Suc c) (Suc ni) (Suc succ) fc"
  using assms st_check_mono [of st succ "Suc succ"]
  by (auto simp: round_ok_def Suc_diff_le less_Suc_eq)

lemma after_put_ok:
  assumes "round_ok N st (calls w) (Suc ni) succ fc" and "ni < length nodes"
    and "\<exists>j < length nodes. fate N (calls w - length nodes + j) = Delivered"
  shows "\<exists>ni' fc'. after_put N st vec nodes fuel i ni succ fc nhs w = encode_loop N st vec nodes fuel i ni' succ fc' nhs w \<and>
    ni' < length nodes \<and> round_ok N st (calls w) ni' succ fc'"
proof (cases "Suc ni = length nodes")
  case True
  show ?thesis
  proof (cases "st_check st (int succ)")
    case ck: True
    then show ?thesis using True by (intro exI [of _ 0] exI [of _ fc]) (auto simp: after_put_def round_ok_def)
  next
    case False
    with assms(1,3) True have "fc \<noteq> length nodes" by (auto simp: round_ok_def)
    then show ?thesis using True False by (intro exI [of _ 0]) (auto simp: after_put_def round_ok_def)
  qed
next
  case False
  then show ?thesis using assms(1,2) by (intro exI [of _ "Suc ni"] exI [of _ fc]) (simp add: after_put_def)
qed

lemma encode_loop_ends:
  assumes "\<forall>c. \<exists>j < length nodes. fate N (c + j) = Delivered" and "\<forall>n \<in> set nodes. writable N (disks w n)"
    and "ni < length nodes" and "round_ok N st (calls w) ni succ fc"
    and "fate N (calls w + e) = Delivered" and "e < length nodes"
    and "(if i < length vec then (length vec - Suc i) * length nodes + Suc e else 0) < fuel"
  shows "\<exists>nhs' w'. encode_loop N st vec nodes fuel i ni succ fc nhs w = (Inr nhs', w') \<and>
    length nhs' = length nhs + (length vec - i)"
  using assms(2-)
proof (induction fuel arbitrary: i ni succ fc nhs w e)
  case (Suc fuel)
  show ?case
  proof (cases "i < length vec")
    case False
    then show ?thesis by (simp add: retE_def)
  next
    case i: True
    have ne: "nodes \<noteq> []" using Suc.prems(2) by auto
    have node: "nodes ! ni \<in> set nodes" using Suc.prems(2) by simp
    obtain r w1 where p: "put_to_datanode N (nodes ! ni) (vec ! i) w = (r, w1)" by fastforce
    note cs = put_to_datanode_cases [OF p] and wr = put_writable [OF p bspec [OF Suc.prems(1) node]]
    have c1: "calls w1 = Suc (calls w)" using cs by blast
    have w1: "\<forall>n \<in> set nodes. writable N (disks w1 n)" using wr(2) Suc.prems(1) by blast
    obtain e' where e': "fate N (calls w1 + e') = Delivered" "e' < length nodes" using assms(1) by blast
    have win: "\<exists>j < length nodes. fate N (calls w1 - length nodes + j) = Delivered" using assms(1) by blast
    show ?thesis
    proof (cases r)
      case (Inr h)
      have "round_ok N st (calls w1) (Suc ni) (Suc succ) fc" using round_ok_step(2) [OF Suc.prems(3)] c1 by simp
      from after_put_ok [OF this Suc.prems(2) win] obtain ni' fc' where n:
        "after_put N st vec nodes fuel (Suc i) ni (Suc succ) fc (nhs @ [(nodes ! ni, h)]) w1 =
           encode_loop N st vec nodes fuel (Suc i) ni' (Suc succ) fc' (nhs @ [(nodes ! ni, h)]) w1"
        "ni' < length nodes" "round_ok N st (calls w1) ni' (Suc succ) fc'" by blast
      have "(if Suc i < length vec then (length vec - Suc (Suc i)) * length nodes + Suc e' else 0) < fuel"
      proof (cases "Suc i < length vec")
        case True
        then obtain k where "length vec = Suc (Suc i) + k" by (metis Suc_leI le_Suc_ex)
        with True i Suc.prems(6) e'(2) show ?thesis by simp
      qed (use i Suc.prems(6) in simp)
      from Suc.IH [OF w1 n(2,3) e' this, of "nhs @ [(nodes ! ni, h)]"] show ?thesis
        unfolding encode_loop_step(1) [OF i ne p Inr] n(1) using i by (simp add: Suc_diff_le Suc_diff_Suc)
    next
      case (Inl x)
      with wr(1) have nd: "fate N (calls w) \<noteq> Delivered" by auto
      with Suc.prems(4) obtain e0 where e0: "e = Suc e0" by (cases e) auto
      have "round_ok N st (calls w1) (Suc ni) succ (Suc fc)" using round_ok_step(1) [OF Suc.prems(3) nd] c1 by simp
      from after_put_ok [OF this Suc.prems(2) win] obtain ni' fc' where n:
        "after_put N st vec nodes fuel i ni succ (Suc fc) nhs w1 = encode_loop N st vec nodes fuel i ni' succ fc' nhs w1"
        "ni' < length nodes" "round_ok N st (calls w1) ni' succ fc'" by blast
      have "fate N (calls w1 + e0) = Delivered" "e0 < length nodes"
        "(if i < length vec then (length vec - Suc i) * length nodes + Suc e0 else 0) < fuel"
        using Suc.prems(4-6) e0 c1 i by auto
      from Suc.IH [OF w1 n(2,3) this] show ?thesis unfolding encode_loop_step(2) [OF i ne p Inl] n(1) .
    qed
  qed
qed simp

lemma encode_loop_stuck:
  assumes "st_check st (int succ)" and "i < length vec" and "nodes \<noteq> []" and "\<forall>c \<ge> calls w. fate N c = Lost"
  shows "fst (encode_loop N st vec nodes fuel i ni succ fc nhs w) = Inl (Hang ''encode_one'')"
  using assms
proof (induction fuel arbitrary: ni fc w)
  case (Suc fuel)
  obtain r w1 where p: "put_to_datanode N (nodes ! ni) (vec ! i) w = (r, w1)" by fastforce
  from put_to_datanode_cases [OF p] Suc.prems(4) obtain e where e: "r = Inl e" "calls w1 = Suc (calls w)" by auto
  with Suc.IH [OF Suc.prems(1-3), of w1] Suc.prems show ?case
    by (simp only: encode_loop_step(2) [OF Suc.prems(2,3) p e(1)]) (simp add: after_put_def)
qed (simp add: throwE_def)

text \<open>A cluster with one datanode and a one-valued hash, for concrete runs that store one content.\<close>

definition demo_cluster :: "unit cluster" where
  "demo_cluster =
     \<lparr>fate = (\<lambda>_. Delivered), echoes = (\<lambda>_ _. RpcOk), cal_sha256sum = (\<lambda>_. ''h''), cal_md5sum = (\<lambda>_. ''m''),
      ec = copy_code, js = text_json, dn_dir = ''/d'', dn_nodes = (\<lambda>_. [default_node\<lparr>ip := ''a'', port := 1\<rparr>]),
      first_stub = hd, uninit = False, nn_master = (\<lambda>_ n. (Inr echo, n)), nn_master_lock = (\<lambda>_ n. (Inr echo, n)),
      nn_slave_ls = (\<lambda>_ _. Inr (echo, []))\<rparr>"

definition demo_world :: "unit world" where
  "demo_world =
     \<lparr>dn_stubs = [''a:1''], pathlocks = Map.empty, remoteLocks = [], local_inode_cache = Map.empty, local = empty_disk,
      disks = (\<lambda>_. empty_disk), namenodes = (), calls = 0\<rparr>"

lemma demo_ok: "cluster_ok demo_cluster" "disks_ok demo_world"
  by (simp_all add: cluster_ok_def demo_cluster_def addr_ok_def disks_ok_def demo_world_def unshared_empty_disk)

lemma demo_writable: "writable demo_cluster empty_disk"
proof -
  have "path_parent (block_path ''/d'' ''h'') = ''/d''" by code_simp
  then show ?thesis
    by (simp add: writable_def demo_cluster_def empty_disk_def fs_find_def fs_is_directory_def block_path_def)
qed

section \<open>Properties\<close>

text \<open>
C6: What \<open>encode_one\<close> spread, \<open>decode_one\<close> collects: whenever it returned a placement of a block, by
whatever calls failed meanwhile, and as long as the good datanodes keep what they stored and the others
hold no data that collides with it, decoding the placement returns the block if at least as many of its
fetches are answered by good nodes as the storage type needs, whichever they are.
\<close>

theorem decode_after_encode:
  assumes "cluster_ok N" and "disks_ok w" and "storage_codec (ec N) st" and "st_encode (ec N) st block = Inr vec"
    and "inj_on (cal_sha256sum N) (set vec)" and "\<forall>f \<in> set vec. length f < 2 ^ 31"
    and "encode_one N fuel st block w = (Inr s, w1)" and "\<forall>p f. placed N w1 p f \<longrightarrow> kept N good w2 p f"
    and "getDecodeBlocks st \<le> int (answers N good (calls w2) (decode_one_sub s))"
  shows "fst (decode_one N st s w2) = Inr block \<and> disks (snd (decode_one N st s w2)) = disks w2"
proof -
  let ?ps = "decode_one_sub s"
  have "list_all2 (placed N w1) ?ps (take (length ?ps) vec)"
    using encode_one_placed [OF assms(7,1,2,4-6)] by blast
  then have pl: "list_all2 (kept N good w2) ?ps (take (length ?ps) vec)"
    using assms(8) by (auto elim: list_all2_mono)
  have pos: "0 < getDecodeBlocks st" by (rule storage_codec.decode_blocks_pos [OF assms(3)])
  have "subseq ([] @ take (length ?ps) vec) vec" by (simp add: prefix_imp_subseq take_is_prefix)
  from decode_loop_kept [OF assms(3,4) pl this] pos assms(9) show ?thesis by (auto simp: decode_one_def)
qed

theorem decode_after_encode_witness:
  "\<exists>s w1. encode_one demo_cluster 20 (RS 2 1 1) ''data'' demo_world = (Inr s, w1) \<and>
     fst (decode_one demo_cluster (RS 2 1 1) s w1) = Inr ''data''"
proof -
  have "\<not> isl (fst (encode_one demo_cluster 20 (RS 2 1 1) ''data'' demo_world))" by code_simp
  then obtain s w1 where e: "encode_one demo_cluster 20 (RS 2 1 1) ''data'' demo_world = (Inr s, w1)"
    by (cases "encode_one demo_cluster 20 (RS 2 1 1) ''data'' demo_world"; cases "fst (encode_one demo_cluster 20 (RS 2 1 1) ''data'' demo_world)") auto
  have "(case encode_one demo_cluster 20 (RS 2 1 1) ''data'' demo_world of (Inr t, _) \<Rightarrow> length (decode_one_sub t) = 3 | _ \<Rightarrow> False)"
    by code_simp
  then have len: "length (decode_one_sub s) = 3" using e by simp
  have vec: "st_encode (ec demo_cluster) (RS 2 1 1) ''data'' = Inr [''data'', ''data'', ''data'']" by code_simp
  have del: "deliveries demo_cluster c 3 = 3" for c by (simp add: demo_cluster_def numeral_3_eq_3)
  have codec: "storage_codec (ec demo_cluster) (RS 2 1 1)"
    unfolding demo_cluster_def by (simp add: storage_codec_RS mds_copy_code)
  from decode_after_encode [OF demo_ok codec vec _ _ e, of UNIV w1] e show ?thesis by (auto simp: len del answers_UNIV placed_kept)
qed

text \<open>
C7: \<open>encode_one\<close> returns while the network makes progress: when at least one of any \<open>n\<close> calls in a row
is answered, with \<open>n\<close> online datanodes that can write, the loop ends after at most \<open>n\<close> iterations per
fragment with every fragment placed.
\<close>

theorem encode_one_ends:
  assumes "cluster_ok N" and "disks_ok w" and "st_encode (ec N) st block = Inr vec" and "vec \<noteq> []"
    and "get_online_datanodes N w = (Inr nodes, w0)" and "nodes \<noteq> []"
    and "\<forall>c. \<exists>j < length nodes. fate N (c + j) = Delivered" and "\<forall>n \<in> set nodes. writable N (disks w n)"
    and "inj_on (cal_sha256sum N) (set vec)" and "\<forall>f \<in> set vec. length f < 2 ^ 31"
    and "length vec * length nodes < fuel"
  shows "\<exists>s w'. encode_one N fuel st block w = (Inr s, w') \<and> length (decode_one_sub s) = length vec"
proof -
  note on = get_online_datanodes_Inr [OF assms(1,5)]
  from assms(7) obtain e where e: "fate N (calls w0 + e) = Delivered" "e < length nodes" by blast
  have "(if 0 < length vec then (length vec - Suc 0) * length nodes + Suc e else 0) < fuel"
    using assms(4,11) e(2) by (cases vec) auto
  from encode_loop_ends [where st = st and i = 0 and ni = 0 and succ = 0 and fc = 0 and nhs = "[]", OF assms(7) _ _ _ e this]
  obtain nhs w' where l: "encode_loop N st vec nodes fuel 0 0 0 0 [] w0 = (Inr nhs, w')" "length nhs = length vec"
    using on assms(6,8) by (simp add: round_ok_def) blast
  have "disks_ok w0" using on assms(2) by (simp add: disks_ok_def)
  with encode_loop_placed [of N st vec nodes fuel "[]" 0 0 0 w0 nhs w'] l(1) assms(9,10)
  have p: "list_all2 (placed N w') nhs (take (length nhs) vec)" "fst ` set nhs \<subseteq> set nodes" by auto
  have "rmap decode_one_sub (encode_one_sub nhs) = Inr nhs"
  proof (rule decode_encode_one_sub)
    show "\<forall>q \<in> set nhs. placement_ok q"
      using placed_placement_ok [OF assms(1) _ p] on by blast
    show "nhs \<noteq> []" using l(2) assms(4) by auto
  qed
  then obtain s where "encode_one_sub nhs = Inr s" "decode_one_sub s = nhs" by (auto simp: rmap_Inr_iff)
  with l assms(3,5) show ?thesis by (auto simp: encode_one_def bindE_def liftE_def)
qed
theorem encode_one_ends_witness:
  "\<exists>s w'. encode_one demo_cluster 4 (RS 2 1 1) ''data'' demo_world = (Inr s, w') \<and> length (decode_one_sub s) = 3"
proof -
  have vec: "st_encode (ec demo_cluster) (RS 2 1 1) ''data'' = Inr [''data'', ''data'', ''data'']" by code_simp
  have on: "fst (get_online_datanodes demo_cluster demo_world) = Inr [''a:1'']" by code_simp
  then obtain w0 where "get_online_datanodes demo_cluster demo_world = (Inr [''a:1''], w0)"
    by (cases "get_online_datanodes demo_cluster demo_world") auto
  from encode_one_ends [OF demo_ok vec _ this, of 4] demo_writable show ?thesis
    by (auto simp: demo_world_def demo_cluster_def)
qed

text \<open>
C35: \<open>encode_one\<close> may never return, which \<open>fail_count\<close> is there to prevent: once enough fragments are
placed for the storage type's check, but not all of them, and the datanodes stop answering, no number
of iterations ends the loop.
\<close>

theorem encode_one_endless:
  assumes "st_check st (int succ)" and "i < length vec" and "nodes \<noteq> []" and "\<forall>c \<ge> calls w. fate N c = Lost"
  shows "\<forall>fuel. fst (encode_loop N st vec nodes fuel i node_index succ fail_count nodes_hashs w) = Inl (Hang ''encode_one'')"
  using encode_loop_stuck [OF assms] by blast

theorem encode_one_endless_witness:
  "\<forall>fuel. fst (encode_loop (demo_cluster\<lparr>fate := \<lambda>_. Lost\<rparr>) (RE 2 1) [''data'', ''data''] [''a:1''] fuel 1 0 1 0
     [(''a:1'', ''h'')] demo_world) = Inl (Hang ''encode_one'')"
  by (rule encode_one_endless) simp_all

end
