(* ===== verification/Sdk.thy ===== *)
theory Sdk
  imports Blocks
begin

text \<open>
  The rest of \<^verbatim>\<open>src/client/sdk.cpp\<close>: whole files (\<open>put\<close>, \<open>get\<close>), the calls on the namespace, and the
  files an application opens, reads, writes and closes through local copies of their blocks.  The
  calls to the namenode and the datanodes are those of \<open>Blocks\<close>; the local copies lie in the file system
  of \<open>Files\<close>, guarded by the locks of \<open>PathLocks\<close>.
\<close>

unbundle bit_operations_syntax

section \<open>State and paths\<close>

definition on_local :: "(files, 'a) eff \<Rightarrow> ('n world, 'a) eff" where
  "on_local = onE local (\<lambda>F w. w\<lparr>local := F\<rparr>)"

definition on_locks :: "(pathlocks, 'a) eff \<Rightarrow> ('n world, 'a) eff" where
  "on_locks = onE pathlocks (\<lambda>l w. w\<lparr>pathlocks := l\<rparr>)"

definition get_tmp_path :: "'n cluster \<Rightarrow> string \<Rightarrow> string" where
  "get_tmp_path N path = ''/tmp/spkdfs/fuse/'' @ cal_md5sum N path"

definition get_tmp_write_path :: "'n cluster \<Rightarrow> string \<Rightarrow> string" where
  "get_tmp_write_path N path = get_tmp_path N path @ ''/write''"

text \<open>An index is converted to 32 unsigned bits.\<close>

definition index_name :: "int \<Rightarrow> string" where
  "index_name index = string_of_nat (nat (index mod 2 ^ 32))"

definition get_tmp_index_path :: "'n cluster \<Rightarrow> string \<Rightarrow> int \<Rightarrow> string" where
  "get_tmp_index_path N path index = get_tmp_path N path @ ''/'' @ index_name index"

text \<open>A path's link for writing, made anew.\<close>

definition ln_path_index :: "'n cluster \<Rightarrow> string \<Rightarrow> int \<Rightarrow> ('n world, unit) eff" where
  "ln_path_index N path index =
     (let hard_ln_path = get_tmp_write_path N path @ ''/'' @ index_name index
      in on_local (thenE (fs_remove hard_ln_path)
           (fs_create_hard_link (get_tmp_index_path N path index) hard_ln_path)))"

section \<open>The namespace\<close>

definition sdk_call :: "'n cluster \<Rightarrow> request \<Rightarrow> ('n world, response option) eff" where
  "sdk_call N req = rpc N (onE namenodes (\<lambda>n w. w\<lparr>namenodes := n\<rparr>) (nn_master N req))"

definition sdk_get_inode :: "string \<Rightarrow> ('n world, inode) eff" where
  "sdk_get_inode dst =
     bindE (getE local_inode_cache) (\<lambda>cache.
       case cache dst of
         None \<Rightarrow> throwE (StdException ''cannot find inode in local_inode_cache'')
       | Some i \<Rightarrow> retE i)"

definition get_remote_inode :: "'n cluster \<Rightarrow> string \<Rightarrow> ('n world, inode) eff" where
  "get_remote_inode N dst =
     bindE (rpc N (\<lambda>w. (nn_slave_ls N dst (namenodes w), w))) (\<lambda>resp.
       thenE (liftE (check_response (map_option fst resp))) (liftE (inode_parse (js N) (snd (the resp)))))"

definition sdk_ls :: "'n cluster \<Rightarrow> string \<Rightarrow> ('n world, inode) eff" where
  "sdk_ls N path = get_remote_inode N path"

definition sdk_mkdir :: "'n cluster \<Rightarrow> string \<Rightarrow> ('n world, unit) eff" where
  "sdk_mkdir N dst = bindE (sdk_call N (Mkdir dst)) (\<lambda>resp. liftE (check_response resp))"

definition sdk_rm :: "'n cluster \<Rightarrow> string \<Rightarrow> ('n world, unit) eff" where
  "sdk_rm N dst = bindE (sdk_call N (Rm dst)) (\<lambda>resp. liftE (check_response resp))"

definition guess_storage_type :: string where
  "guess_storage_type = ''RS<7,5,16>''"

section \<open>Locks\<close>

definition lock_remote_paths :: "'n cluster \<Rightarrow> string list \<Rightarrow> ('n world, unit) eff" where
  "lock_remote_paths N paths =
     bindE (rpc N (onE namenodes (\<lambda>n w. w\<lparr>namenodes := n\<rparr>) (nn_master_lock N paths))) (\<lambda>resp.
       liftE (check_response resp))"

definition lock_remote_path :: "'n cluster \<Rightarrow> string \<Rightarrow> ('n world, unit) eff" where
  "lock_remote_path N path = lock_remote_paths N [path]"

definition lock_remote :: "'n cluster \<Rightarrow> string \<Rightarrow> ('n world, unit) eff" where
  "lock_remote N path =
     thenE (lock_remote_path N path) (modifyE (\<lambda>w. w\<lparr>remoteLocks := std_set (path # remoteLocks w)\<rparr>))"

definition unlock_remote :: "string \<Rightarrow> ('n world, unit) eff" where
  "unlock_remote dst = modifyE (\<lambda>w. w\<lparr>remoteLocks := filter (\<lambda>p. p \<noteq> dst) (remoteLocks w)\<rparr>)"

definition sdk_read_lock :: "'n cluster \<Rightarrow> string \<Rightarrow> ('n world, unit) eff" where
  "sdk_read_lock N dst = on_locks (pl_read_lock (get_tmp_path N dst))"

definition sdk_write_lock :: "'n cluster \<Rightarrow> string \<Rightarrow> ('n world, unit) eff" where
  "sdk_write_lock N dst = thenE (on_locks (pl_write_lock (get_tmp_path N dst))) (lock_remote N dst)"

definition sdk_unlock :: "'n cluster \<Rightarrow> string \<Rightarrow> ('n world, unit) eff" where
  "sdk_unlock N dst = thenE (unlock_remote dst) (on_locks (pl_unlock (get_tmp_path N dst)))"

text \<open>
  The client's timer renews the locks; the third retry that fails ends the timer, and the callback's
  exception the process.
\<close>

fun refresh_locks :: "'n cluster \<Rightarrow> nat \<Rightarrow> ('n world, unit) eff" where
  "refresh_locks N retries w =
     (case bindE (getE remoteLocks) (lock_remote_paths N) w of
        (Inr _, w') \<Rightarrow> (Inr (), w')
      | (Inl e, w') \<Rightarrow>
          if \<not> catchable e then (Inl e, w')
          else if retries = 0 then (Inl (Abort ''update lock fail''), w')
          else refresh_locks N (retries - 1) w')"

declare refresh_locks.simps [simp del]

definition refresh_tick :: "'n cluster \<Rightarrow> ('n world, unit) eff" where
  "refresh_tick N = bindE (getE remoteLocks) (\<lambda>ls. if ls = [] then retE () else refresh_locks N 3)"

section \<open>Whole files\<close>

text \<open>
  The loop of \<open>put\<close>: \<open>rest\<close> is what the stream has left, \<open>block\<close> the buffer, which keeps the end of the
  block before when the last one is short.  A read of no bytes always succeeds.
\<close>

fun put_blocks ::
    "'n cluster \<Rightarrow> nat \<Rightarrow> storage_type \<Rightarrow> nat \<Rightarrow> nat \<Rightarrow> string \<Rightarrow> string \<Rightarrow> ('n world, string list) eff" where
  "put_blocks N limit st blockSize 0 block rest = throwE (Hang ''put'')"
| "put_blocks N limit st blockSize (Suc fuel) block rest =
     (if blockSize \<noteq> 0 \<and> rest = [] then retE []
      else let bytes = take blockSize rest;
               block' = bytes @ drop (length bytes) block
           in bindE (encode_one N limit st block') (\<lambda>res.
              bindE (put_blocks N limit st blockSize fuel block' (drop blockSize rest)) (\<lambda>subs. retE (res # subs))))"

definition sdk_put :: "'n cluster \<Rightarrow> nat \<Rightarrow> string \<Rightarrow> string \<Rightarrow> string \<Rightarrow> ('n world, unit) eff" where
  "sdk_put N fuel srcFilePath dstFilePath storage_type =
     bindE (liftE (st_from_string storage_type)) (\<lambda>st.
     bindE (getE local) (\<lambda>F.
       if \<not> fs_exists F srcFilePath \<or> denied F srcFilePath then
         throwE (StdException (''Failed to open file'' @ srcFilePath))
       else
         bindE (on_local (fs_file_size srcFilePath)) (\<lambda>fsize.
         bindE (sdk_call N (Put dstFilePath storage_type)) (\<lambda>resp.
         thenE (liftE (check_response resp))
        (thenE (lock_remote_path N dstFilePath)
           (if st_block_size st < 0 then throwE (StdException ''basic_string::_M_replace_aux'')
            else let blockSize = nat (st_block_size st)
                 in bindE (put_blocks N fuel st blockSize fuel (replicate blockSize (CHR 0x00)) (the (fs_data F srcFilePath))) (\<lambda>subs.
                    thenE (unlock_remote dstFilePath)
                   (bindE (sdk_call N (PutOk dstFilePath (of_nat fsize) subs)) (\<lambda>resp2.
                      liftE (check_response resp2))))))))))"

text \<open>A file without a storage type has a null pointer, which the first block dereferences.\<close>

definition deref :: "'a option \<Rightarrow> 'a res" where
  "deref p = (case p of None \<Rightarrow> Inl (Undefined ''null pointer'') | Some x \<Rightarrow> Inr x)"

definition sdk_get :: "'n cluster \<Rightarrow> string \<Rightarrow> string \<Rightarrow> ('n world, unit) eff" where
  "sdk_get N src dst =
     bindE (get_remote_inode N src) (\<lambda>inode.
     bindE (on_local (\<lambda>F. case open_out False dst F of (h, F') \<Rightarrow> (Inr h, F'))) (\<lambda>dstFile.
       case dstFile of
         None \<Rightarrow> throwE (StdException (''Failed to open file'' @ dst))
       | Some h \<Rightarrow>
           thenE (forE (sub inode) (\<lambda>s.
                    bindE (liftE (deref (storage_type_ptr inode))) (\<lambda>st.
                    bindE (decode_one N st s) (\<lambda>block. on_local (modifyE (write_out h block))))))
                 (on_local (fs_resize_file dst (unat (filesize inode))))))"

section \<open>Block indices\<close>

text \<open>Offsets are 64 bits wide, the alignment helpers take \<^verbatim>\<open>int\<close>.\<close>

definition get_indexs :: "inode \<Rightarrow> u64 \<Rightarrow> u64 \<Rightarrow> (int \<times> int) res" where
  "get_indexs inode offset len =
     rbind (align_index_down (to_int32 (uint offset)) (inode_block_size inode)) (\<lambda>a.
     rmap (\<lambda>b. (a, b)) (align_index_up (to_int32 (uint (offset + len))) (inode_block_size inode)))"

section \<open>Reading\<close>

text \<open>The local copy of a block, if there is one that is not empty.\<close>

definition cached_block :: "string \<Rightarrow> ('n world, string option) eff" where
  "cached_block tmp_path =
     bindE (getE local) (\<lambda>F.
       if \<not> fs_exists F tmp_path then retE None
       else bindE (on_local (fs_file_size tmp_path)) (\<lambda>n.
              if 0 < n then bindE (on_local (read_file tmp_path)) (\<lambda>b. retE (Some b)) else retE None))"

definition read_block :: "'n cluster \<Rightarrow> inode \<Rightarrow> int \<Rightarrow> string \<Rightarrow> ('n world, string) eff" where
  "read_block N inode index blks =
     (let tmp_path = get_tmp_index_path N (fullpath inode) index
      in bindE (cached_block tmp_path) (\<lambda>c. case c of
           Some block \<Rightarrow> retE block
         | None \<Rightarrow>
             thenE (on_locks (pl_write_lock tmp_path))
            (bindE (bindE (cached_block tmp_path) (\<lambda>c'. case c' of
                Some block \<Rightarrow> retE block
              | None \<Rightarrow>
                  bindE (on_local (\<lambda>F. case open_out False tmp_path F of (h, F') \<Rightarrow> (Inr h, F'))) (\<lambda>ofile.
                    case ofile of
                      None \<Rightarrow> throwE (StdException (''openfile error:'' @ tmp_path))
                    | Some h \<Rightarrow>
                        bindE (liftE (deref (storage_type_ptr inode))) (\<lambda>st.
                        bindE (decode_one N st blks) (\<lambda>block.
                          thenE (on_local (modifyE (write_out h block))) (retE block))))))
              (\<lambda>block. thenE (on_locks (pl_unlock tmp_path)) (retE block)))))"

text \<open>Past the blocks of the file the loop writes zeros for all indices left and ends.\<close>

fun read_loop :: "'n cluster \<Rightarrow> inode \<Rightarrow> nat \<Rightarrow> int \<Rightarrow> string list \<Rightarrow> ('n world, string) eff" where
  "read_loop N inode 0 index subs = retE []"
| "read_loop N inode (Suc n) index [] =
     (let count = to_int32 (int (Suc n) * inode_block_size inode)
      in if count < 0 then throwE (StdException ''basic_string::_M_create'')
         else retE (replicate (nat count) (CHR 0x00)))"
| "read_loop N inode (Suc n) index (blks # subs) =
     bindE (read_block N inode index blks) (\<lambda>block.
     bindE (read_loop N inode n (index + 1) subs) (\<lambda>s. retE (block @ s)))"

definition read_blocks :: "'n cluster \<Rightarrow> inode \<Rightarrow> int \<times> int \<Rightarrow> ('n world, string) eff" where
  "read_blocks N inode indexs =
     (if fst indexs < 0 \<or> int (length (sub inode)) < fst indexs then throwE (Undefined ''iterator out of range'')
      else read_loop N inode (nat (snd indexs - fst indexs)) (fst indexs) (drop (nat (fst indexs)) (sub inode)))"

definition read_data :: "'n cluster \<Rightarrow> string \<Rightarrow> u64 \<Rightarrow> u64 \<Rightarrow> ('n world, string) eff" where
  "read_data N path offset len =
     bindE (sdk_get_inode path) (\<lambda>inode.
       if filesize inode < offset then retE []
       else let len' = (if filesize inode < offset + len then filesize inode - offset else len)
            in bindE (liftE (get_indexs inode offset len')) (\<lambda>indexs.
               bindE (read_blocks N inode indexs) (\<lambda>s.
                 let pos = uint offset - to_int32 (fst indexs * inode_block_size inode)
                 in if pos < 0 \<or> int (length s) < pos + uint len' then throwE (Undefined ''iterator out of range'')
                    else retE (take (unat len') (drop (nat pos) s)))))"

section \<open>Writing\<close>

text \<open>
  One index of \<open>write_data\<close>.  The stream is open for appending, so \<^verbatim>\<open>seekp(left)\<close> has no effect on where
  the bytes go.
\<close>

definition write_index ::
    "'n cluster \<Rightarrow> string \<Rightarrow> inode \<Rightarrow> u64 \<Rightarrow> u64 \<Rightarrow> int \<times> int \<Rightarrow> int \<Rightarrow> string \<Rightarrow> ('n world, string) eff" where
  "write_index N path inode offset len indexs index iter =
     (let bs = word_of_int (inode_block_size inode);
          left = (if index = fst indexs then offset mod bs else 0);
          right = (if index = snd indexs - 1 then (offset + len) mod bs else bs);
          localSize = unat (right - left);
          dst = get_tmp_index_path N path index
      in bindE (on_local (\<lambda>F. case open_out True dst F of (h, F') \<Rightarrow> (Inr h, F'))) (\<lambda>dstFile.
           case dstFile of
             None \<Rightarrow> throwE (StdException (''failed to write data to '' @ dst))
           | Some h \<Rightarrow>
               if length iter < localSize then throwE (Undefined ''iterator out of range'')
               else thenE (on_local (modifyE (write_out h (take localSize iter))))
                   (thenE (ln_path_index N path index) (retE (drop localSize iter)))))"

fun write_loop ::
    "'n cluster \<Rightarrow> string \<Rightarrow> inode \<Rightarrow> u64 \<Rightarrow> u64 \<Rightarrow> int \<times> int \<Rightarrow> nat \<Rightarrow> int \<Rightarrow> string \<Rightarrow> ('n world, unit) eff" where
  "write_loop N path inode offset len indexs 0 index iter = retE ()"
| "write_loop N path inode offset len indexs (Suc n) index iter =
     bindE (write_index N path inode offset len indexs index iter) (\<lambda>iter'.
       write_loop N path inode offset len indexs n (index + 1) iter')"

definition write_data :: "'n cluster \<Rightarrow> string \<Rightarrow> u64 \<Rightarrow> string \<Rightarrow> ('n world, unit) eff" where
  "write_data N path offset s =
     bindE (sdk_get_inode path) (\<lambda>inode.
       let len = of_nat (length s); bs = word_of_int (inode_block_size inode)
       in bindE (liftE (get_indexs inode offset len)) (\<lambda>indexs.
          thenE (whenE (offset < filesize inode \<and> offset mod bs \<noteq> 0)
                   (bindE (read_blocks N inode (fst indexs, fst indexs + 1)) (\<lambda>_. retE ())))
         (thenE (whenE (offset + len < filesize inode \<and> fst indexs \<noteq> snd indexs - 1 \<and> (offset + len) mod bs \<noteq> 0)
                   (bindE (read_blocks N inode (snd indexs - 1, snd indexs)) (\<lambda>_. retE ())))
                (write_loop N path inode offset len indexs (nat (snd indexs - fst indexs)) (fst indexs) s))))"

section \<open>Opening and closing\<close>

text \<open>
  \<open>update_inode\<close>: reading the cache with \<^verbatim>\<open>operator[]\<close> inserts a default inode, which stays when the
  remote one cannot be had.  Copies of blocks that changed or went away are removed.
\<close>

definition stale_indices :: "inode \<Rightarrow> inode \<Rightarrow> nat list" where
  "stale_indices cached remote =
     filter (\<lambda>i. sub cached ! i \<noteq> sub remote ! i) [0..<min (length (sub cached)) (length (sub remote))] @
     [length (sub remote)..<length (sub cached)]"

definition update_inode :: "'n cluster \<Rightarrow> string \<Rightarrow> ('n world, unit) eff" where
  "update_inode N path =
     thenE (modifyE (\<lambda>w. if local_inode_cache w path = None
                         then w\<lparr>local_inode_cache := (local_inode_cache w)(path \<mapsto> new_inode (uninit N))\<rparr> else w))
    (bindE (sdk_get_inode path) (\<lambda>cached.
     bindE (get_remote_inode N path) (\<lambda>remote.
       thenE (forE (stale_indices cached remote) (\<lambda>i. on_local (fs_remove_all (get_tmp_index_path N path (int i)))))
             (modifyE (\<lambda>w. w\<lparr>local_inode_cache := (local_inode_cache w)(path \<mapsto> remote)\<rparr>)))))"

definition create_file :: "'n cluster \<Rightarrow> nat \<Rightarrow> string \<Rightarrow> ('n world, unit) eff" where
  "create_file N fuel path =
     (let dst_path = get_tmp_index_path N [] 0
      in thenE (on_local (\<lambda>F. (Inr (), snd (open_out False dst_path F))))
               (sdk_put N fuel dst_path path guess_storage_type))"

fun truncate_subs :: "string list \<Rightarrow> nat \<Rightarrow> string list res" where
  "truncate_subs subs 0 = Inr []"
| "truncate_subs [] (Suc n) = Inl (Undefined ''sub[i] out of range'')"
| "truncate_subs (s # subs) (Suc n) = rmap (\<lambda>r. s # r) (truncate_subs subs n)"

definition truncate_to :: "'n cluster \<Rightarrow> string \<Rightarrow> u64 \<Rightarrow> ('n world, unit) eff" where
  "truncate_to N dst len =
     bindE (sdk_get_inode dst) (\<lambda>inode.
       if filesize inode = len then retE ()
       else bindE (liftE (align_up (to_int32 (uint len)) (inode_block_size inode))) (\<lambda>n.
            bindE (liftE (truncate_subs (sub inode) (nat n))) (\<lambda>subs.
            bindE (sdk_call N (PutOk dst len subs)) (\<lambda>resp.
            thenE (liftE (check_response resp)) (sdk_unlock N dst)))))"

definition O_ACCMODE :: int where "O_ACCMODE = 3"
definition O_RDONLY :: int where "O_RDONLY = 0"
definition O_WRONLY :: int where "O_WRONLY = 1"
definition O_CREAT :: int where "O_CREAT = 64"
definition O_TRUNC :: int where "O_TRUNC = 512"

definition sdk_open :: "'n cluster \<Rightarrow> nat \<Rightarrow> string \<Rightarrow> int \<Rightarrow> ('n world, unit) eff" where
  "sdk_open N fuel path flags =
     thenE (whenE (flags AND O_CREAT \<noteq> 0) (create_file N fuel path))
    (thenE (on_local (mkdir_f (get_tmp_path N path)))
    (thenE (if flags AND O_ACCMODE \<noteq> O_RDONLY then
              thenE (sdk_write_lock N path)
             (thenE (on_local (mkdir_f (get_tmp_write_path N path))) (on_local (clear_dir (get_tmp_write_path N path))))
            else sdk_read_lock N path)
    (thenE (update_inode N path)
           (whenE (flags AND O_TRUNC \<noteq> 0) (truncate_to N path 0)))))"

definition sdk_create :: "'n cluster \<Rightarrow> nat \<Rightarrow> string \<Rightarrow> ('n world, unit) eff" where
  "sdk_create N fuel path = sdk_open N fuel path (O_WRONLY OR O_CREAT)"

definition sdk_truncate :: "'n cluster \<Rightarrow> nat \<Rightarrow> string \<Rightarrow> u64 \<Rightarrow> ('n world, unit) eff" where
  "sdk_truncate N fuel dst len = thenE (sdk_open N fuel dst (O_WRONLY OR O_TRUNC)) (sdk_unlock N dst)"

text \<open>\<open>fsync\<close> spreads every block written, and does not look at the answer to its \<open>put_ok\<close>.\<close>

definition resize_sub :: "string list \<Rightarrow> int \<Rightarrow> string list res" where
  "resize_sub subs back =
     (if back < -1 then Inl (StdException ''vector::_M_default_append'')
      else if 0 \<le> back \<and> back < int (length subs) then Inr subs
      else Inr (take (nat (back + 1)) subs @ replicate (nat (back + 1) - length subs) []))"

fun fsync_loop ::
    "'n cluster \<Rightarrow> nat \<Rightarrow> inode \<Rightarrow> string \<Rightarrow> int list \<Rightarrow> string list \<Rightarrow> nat \<Rightarrow> ('n world, string list \<times> nat) eff" where
  "fsync_loop N fuel inode write_dst [] subs last_size = retE (subs, last_size)"
| "fsync_loop N fuel inode write_dst (i # res) subs last_size =
     (let index_file_path = write_dst @ ''/'' @ string_of_int i
      in thenE (on_locks (pl_read_lock index_file_path))
        (bindE (on_local (read_file index_file_path)) (\<lambda>index_block.
         bindE (liftE (deref (storage_type_ptr inode))) (\<lambda>st.
         bindE (encode_one N fuel st index_block) (\<lambda>s.
           if i < 0 \<or> int (length subs) \<le> i then throwE (Undefined ''sub[i] out of range'')
           else thenE (on_local (fs_remove index_file_path))
               (thenE (on_locks (pl_unlock index_file_path))
                      (fsync_loop N fuel inode write_dst res (subs[nat i := s]) (length index_block))))))))"

definition sdk_fsync :: "'n cluster \<Rightarrow> nat \<Rightarrow> string \<Rightarrow> ('n world, unit) eff" where
  "sdk_fsync N fuel dst =
     (let write_dst = get_tmp_write_path N dst
      in bindE (getE local) (\<lambda>F.
           if \<not> fs_exists F write_dst then retE ()
           else if \<not> fs_is_directory F write_dst then throwE (StdException (write_dst @ '' is not directory''))
           else
             bindE (on_local (list_dir write_dst)) (\<lambda>files.
             bindE (liftE (rmapM stoi_res files)) (\<lambda>is.
               if is = [] then retE ()
               else let res = sort is
                    in bindE (sdk_get_inode dst) (\<lambda>inode.
                       bindE (liftE (resize_sub (sub inode) (last res))) (\<lambda>subs0.
                       bindE (fsync_loop N fuel inode write_dst res subs0 0) (\<lambda>(subs, last_index_filesize).
                         let fsize = to_int32 (uint (max (filesize inode)
                               (word_of_int (last res) * word_of_int (inode_block_size inode) + of_nat last_index_filesize)))
                         in bindE (sdk_call N (PutOk dst (word_of_int fsize) subs)) (\<lambda>_. retE ()))))))))"

definition sdk_close :: "'n cluster \<Rightarrow> nat \<Rightarrow> string \<Rightarrow> ('n world, unit) eff" where
  "sdk_close N fuel dst =
     thenE (sdk_fsync N fuel dst)
    (thenE (modifyE (\<lambda>w. w\<lparr>local_inode_cache := (local_inode_cache w)(dst := None)\<rparr>))
           (sdk_unlock N dst))"

end
