(* ===== verification/FileTransfer.thy ===== *)
theory FileTransfer
  imports Sdk Namespace
begin

text \<open>
  Files from end to end: the client of \<open>Sdk\<close> with the namenode of \<open>Namenode\<close> and the datanodes of
  \<open>Datanode\<close>.  The locale \<open>file_service\<close> is what the client relies on of the namenode; a reliable
  store makes the namenode's handlers an instance of it.
\<close>

section \<open>What the client's calls leave alone\<close>

definition same_client :: "'n world \<Rightarrow> 'n world \<Rightarrow> bool" where
  "same_client w w' \<longleftrightarrow>
     namenodes w' = namenodes w \<and> local w' = local w \<and> pathlocks w' = pathlocks w \<and>
     remoteLocks w' = remoteLocks w \<and> local_inode_cache w' = local_inode_cache w"

lemma same_client_refl [simp]: "same_client w w"
  by (simp add: same_client_def)

lemma same_client_trans: "same_client w w' \<Longrightarrow> same_client w' w'' \<Longrightarrow> same_client w w''"
  by (simp add: same_client_def)

lemma same_client_put: "put_to_datanode N node f w = (r, w') \<Longrightarrow> same_client w w'"
  using dn_put_returns [of "dn_dir N" "cal_sha256sum N f" f "disks w node"]
  by (cases "fate N (calls w)")
    (auto simp: put_to_datanode_def Let_def get_dn_stub_def rpc_def on_disk_def onE_def thenE_def bindE_def modifyE_def
      liftE_def retE_def throwE_def same_client_def split: if_splits)

lemma same_client_get: "get_from_datanode N node h w = (r, w') \<Longrightarrow> same_client w w'"
  by (cases "fate N (calls w)"; cases "dn_get (dn_dir N) h (disks w node)")
    (auto simp: get_from_datanode_def Let_def get_dn_stub_def rpc_def on_disk_def onE_def thenE_def bindE_def modifyE_def
      liftE_def retE_def throwE_def same_client_def split: if_splits sum.splits)

lemma get_calls: "get_from_datanode N node h w = (r, w') \<Longrightarrow> calls w' = Suc (calls w)"
  by (cases "fate N (calls w)"; cases "dn_get (dn_dir N) h (disks w node)")
    (auto simp: get_from_datanode_def Let_def get_dn_stub_def rpc_def on_disk_def onE_def thenE_def bindE_def modifyE_def
      liftE_def retE_def throwE_def split: if_splits sum.splits)

lemma same_client_online: "get_online_datanodes N w = (r, w') \<Longrightarrow> same_client w w'"
  by (auto simp: get_online_datanodes_def sdk_get_datanodes_def rpc_def Let_def thenE_def bindE_def getE_def liftE_def retE_def
      throwE_def same_client_def split: if_splits sum.splits call_fate.splits prod.splits)

lemma same_client_encode_loop:
  "encode_loop N st vec nodes fuel i ni succ fc nhs w = (r, w') \<Longrightarrow> same_client w w'"
proof (induction fuel arbitrary: i ni succ fc nhs w)
  case (Suc fuel)
  show ?case
  proof (cases "length vec \<le> i \<or> nodes = []")
    case True
    with Suc.prems show ?thesis by (auto simp: retE_def throwE_def split: if_splits)
  next
    case False
    then have i: "i < length vec" and ne: "nodes \<noteq> []" by auto
    obtain x w1 where p: "put_to_datanode N (nodes ! ni) (vec ! i) w = (x, w1)" by fastforce
    have 1: "same_client w w1" by (rule same_client_put [OF p])
    from encode_loop_step [OF i ne p] Suc.prems obtain i' succ' fc' nhs' where
      "after_put N st vec nodes fuel i' ni succ' fc' nhs' w1 = (r, w')" by (cases x) force+
    from after_put_Inr [OF this ne] Suc.IH have "same_client w1 w'" by auto
    with 1 show ?thesis by (rule same_client_trans)
  qed
qed (simp add: throwE_def)

lemma same_client_encode: "encode_one N fuel st block w = (r, w') \<Longrightarrow> same_client w w'"
  by (auto simp: encode_one_def bindE_def liftE_def split: sum.splits prod.splits
      dest!: same_client_online same_client_encode_loop intro: same_client_trans)

lemma same_client_decode_loop: "decode_loop N st datas ps w = (r, w') \<Longrightarrow> same_client w w'"
proof (induction ps arbitrary: datas w)
  case (Cons p ps)
  obtain node h where p: "p = (node, h)" by (cases p)
  obtain x w1 where g: "get_from_datanode N node h w = (x, w1)" by fastforce
  have 1: "same_client w w1" by (rule same_client_get [OF g])
  have "same_client w1 w'"
    using Cons g p
    by (cases x) (auto simp: bindE_def catchE_def retE_def throwE_def Let_def split: if_splits sum.splits)
  with 1 show ?case by (rule same_client_trans)
qed (simp add: retE_def)

lemma same_client_decode: "decode_one N st s w = (r, w') \<Longrightarrow> same_client w w'"
  by (auto simp: decode_one_def throwE_def dest: same_client_decode_loop split: if_splits)

lemma decode_loop_calls: "decode_loop N st datas ps w = (r, w') \<Longrightarrow> calls w \<le> calls w'"
proof (induction ps arbitrary: datas w)
  case (Cons p ps)
  obtain node h where p: "p = (node, h)" by (cases p)
  obtain x w1 where g: "get_from_datanode N node h w = (x, w1)" by fastforce
  have "calls w \<le> calls w1" using get_calls [OF g] by simp
  moreover have "calls w1 \<le> calls w'"
    using Cons g p
    by (cases x) (auto simp: bindE_def catchE_def retE_def throwE_def Let_def split: if_splits sum.splits)
  ultimately show ?case by simp
qed (simp add: retE_def)

lemma decode_one_calls: "decode_one N st s w = (r, w') \<Longrightarrow> calls w \<le> calls w'"
  by (auto simp: decode_one_def throwE_def dest: decode_loop_calls split: if_splits)

section \<open>Stored blocks\<close>

lemma encode_loop_keeps:
  assumes "encode_loop N st vec nodes fuel i ni succ fc nhs w = (r, w')" and "disks_ok w"
    and "placed N w p g" and "inj_on (cal_sha256sum N) (insert g (set vec))"
  shows "placed N w' p g"
  using assms(1-3)
proof (induction fuel arbitrary: i ni succ fc nhs w)
  case (Suc fuel)
  show ?case
  proof (cases "length vec \<le> i \<or> nodes = []")
    case True
    with Suc.prems show ?thesis by (auto simp: retE_def throwE_def split: if_splits)
  next
    case False
    then have i: "i < length vec" and ne: "nodes \<noteq> []" by auto
    obtain x w1 where pd: "put_to_datanode N (nodes ! ni) (vec ! i) w = (x, w1)" by fastforce
    have "inj_on (cal_sha256sum N) {vec ! i, g}" using i by (intro inj_on_subset [OF assms(4)]) auto
    then have w1: "disks_ok w1" "placed N w1 p g" using put_keeps_placed [OF pd Suc.prems(2)] Suc.prems(3) by auto
    from encode_loop_step [OF i ne pd] Suc.prems(1) obtain i' succ' fc' nhs' where
      "after_put N st vec nodes fuel i' ni succ' fc' nhs' w1 = (r, w')" by (cases x) force+
    from after_put_Inr [OF this ne] show ?thesis using Suc.IH [OF _ w1] w1(2) by auto
  qed
qed (simp add: throwE_def)

lemma encode_one_keeps:
  assumes "encode_one N fuel st block w = (Inr s, w')" and "cluster_ok N" and "disks_ok w"
    and "st_encode (ec N) st block = Inr vec" and "placed N w p g" and "inj_on (cal_sha256sum N) (insert g (set vec))"
  shows "placed N w' p g"
proof -
  from assms(1,4) obtain nodes w1 nhs where n: "get_online_datanodes N w = (Inr nodes, w1)"
    and l: "encode_loop N st vec nodes fuel 0 0 0 0 [] w1 = (Inr nhs, w')"
    by (auto simp: encode_one_def bindE_Inr liftE_def)
  have "disks w1 = disks w" using get_online_datanodes_Inr [OF assms(2) n] by blast
  with assms(3,5) encode_loop_keeps [OF l _ _ assms(6)] show ?thesis by (simp add: disks_ok_def placed_def)
qed

text \<open>Whatever the datanode returns lies in \<open>S\<close>.\<close>

definition answerable :: "'n cluster \<Rightarrow> string set \<Rightarrow> files \<Rightarrow> bool" where
  "answerable N S F \<longleftrightarrow> (\<forall>h x. fst (dn_get (dn_dir N) h F) = Inr x \<longrightarrow> success (fst x) \<longrightarrow> snd x \<in> S)"

lemma answerable_put:
  assumes "answerable N S F" and "unshared F" and "f \<in> S" and "length f < 2 ^ 31"
    and "dn_put (dn_dir N) b f F = (x, F')"
  shows "answerable N S F'"
  unfolding answerable_def
proof (intro allI impI)
  fix h y
  assume y: "fst (dn_get (dn_dir N) h F') = Inr y" "success (fst y)"
  note put = dn_put_data [OF assms(2,5)]
  show "snd y \<in> S"
  proof (cases "h = b \<and> F' \<noteq> F")
    case True
    with put(2) dn_get_data [OF y] have "snd y = take (nat (to_int32 (int (length f)))) f" by auto
    then show ?thesis using assms(3,4) by (simp add: to_int32_id)
  next
    case False
    then have "fst (dn_get (dn_dir N) h F') = fst (dn_get (dn_dir N) h F)"
      using dn_get_same put(1) put(3) [of h] by metis
    with y assms(1) show ?thesis unfolding answerable_def by metis
  qed
qed

text \<open>The disks of a world: blocks in files of their own, and all data in \<open>S\<close>.  Whatever the client stores keeps it.\<close>

definition disks_in :: "'n cluster \<Rightarrow> string set \<Rightarrow> 'n world \<Rightarrow> bool" where
  "disks_in N S w \<longleftrightarrow> (\<forall>n. unshared (disks w n) \<and> answerable N S (disks w n))"

lemma disks_in_ok: "disks_in N S w \<Longrightarrow> disks_ok w"
  by (simp add: disks_in_def disks_ok_def)

lemma disks_in_put:
  assumes "put_to_datanode N node f w = (r, w')" and "disks_in N S w" and "f \<in> S" and "length f < 2 ^ 31"
  shows "disks_in N S w'"
proof -
  from put_to_datanode_cases [OF assms(1)] consider "disks w' = disks w"
    | x F where "dn_put (dn_dir N) (cal_sha256sum N f) f (disks w node) = (Inr x, F)" "disks w' = (disks w)(node := F)" by blast
  then show ?thesis
  proof cases
    case (2 x F)
    with assms(2) unshared_put [OF _ 2(1)] answerable_put [OF _ _ assms(3,4) 2(1)] show ?thesis by (simp add: disks_in_def)
  qed (use assms(2) in \<open>simp add: disks_in_def\<close>)
qed

lemma disks_in_encode_loop:
  assumes "encode_loop N st vec nodes fuel i ni succ fc nhs w = (r, w')" and "disks_in N S w"
    and "set vec \<subseteq> S" and "\<forall>f \<in> set vec. length f < 2 ^ 31"
  shows "disks_in N S w'"
  using assms(1,2)
proof (induction fuel arbitrary: i ni succ fc nhs w)
  case (Suc fuel)
  show ?case
  proof (cases "length vec \<le> i \<or> nodes = []")
    case True
    with Suc.prems show ?thesis by (auto simp: retE_def throwE_def split: if_splits)
  next
    case False
    then have i: "i < length vec" and ne: "nodes \<noteq> []" by auto
    obtain x w1 where p: "put_to_datanode N (nodes ! ni) (vec ! i) w = (x, w1)" by fastforce
    have 1: "disks_in N S w1" by (rule disks_in_put [OF p Suc.prems(2)]) (use i assms(3,4) in auto)
    from encode_loop_step [OF i ne p] Suc.prems(1) obtain i' succ' fc' nhs' where
      "after_put N st vec nodes fuel i' ni succ' fc' nhs' w1 = (r, w')" by (cases x) force+
    from after_put_Inr [OF this ne] show ?thesis using Suc.IH 1 by auto
  qed
qed (simp add: throwE_def)

lemma disks_in_encode:
  assumes "encode_one N fuel st block w = (Inr s, w')" and "disks_in N S w" and "cluster_ok N"
    and "\<forall>vec. st_encode (ec N) st block = Inr vec \<longrightarrow> set vec \<subseteq> S \<and> (\<forall>f \<in> set vec. length f < 2 ^ 31)"
  shows "disks_in N S w'"
proof -
  from assms(1) obtain vec nodes w1 nhs where vec: "st_encode (ec N) st block = Inr vec"
    and n: "get_online_datanodes N w = (Inr nodes, w1)" and l: "encode_loop N st vec nodes fuel 0 0 0 0 [] w1 = (Inr nhs, w')"
    by (auto simp: encode_one_def bindE_Inr liftE_def)
  have "disks w1 = disks w" using get_online_datanodes_Inr [OF assms(3) n] by blast
  with assms(2) have "disks_in N S w1" by (simp add: disks_in_def)
  then show ?thesis by (rule disks_in_encode_loop [OF l]) (use assms(4) vec in auto)
qed

text \<open>A placement text stands for a block: it places the first fragments of the block, in order.\<close>

definition stored :: "'n cluster \<Rightarrow> storage_type \<Rightarrow> 'n world \<Rightarrow> string \<Rightarrow> string \<Rightarrow> bool" where
  "stored N st w s b \<longleftrightarrow>
     (\<exists>vec. st_encode (ec N) st b = Inr vec \<and>
        list_all2 (placed N w) (decode_one_sub s) (take (length (decode_one_sub s)) vec))"

text \<open>The blocks \<open>put\<close> makes of a stream.\<close>

function blocks_of :: "nat \<Rightarrow> string \<Rightarrow> string \<Rightarrow> string list" where
  "blocks_of bs block rest =
     (if bs = 0 \<or> rest = [] then []
      else let block' = take bs rest @ drop (length (take bs rest)) block in block' # blocks_of bs block' (drop bs rest))"
  by pat_completeness auto
termination
  by (relation "measure (\<lambda>(bs, block, rest). length rest)") auto

declare blocks_of.simps [simp del]

lemma blocks_of_length:
  "length block = bs \<Longrightarrow> b \<in> set (blocks_of bs block rest) \<Longrightarrow> length b = bs"
proof (induction bs block rest rule: blocks_of.induct)
  case (1 bs block rest)
  let ?b = "take bs rest @ drop (length (take bs rest)) block"
  have len: "length ?b = bs" using 1(2) by auto
  from 1(3) have ne: "\<not> (bs = 0 \<or> rest = [])" and b: "b = ?b \<or> b \<in> set (blocks_of bs ?b (drop bs rest))"
    by (subst (asm) blocks_of.simps, force simp: Let_def split: if_splits)+
  from b show ?case using 1(1) [OF ne refl len] len by blast
qed

lemma take_blocks_of: "length block = bs \<Longrightarrow> 0 < bs \<Longrightarrow> take (length rest) (concat (blocks_of bs block rest)) = rest"
proof (induction bs block rest rule: blocks_of.induct)
  case (1 bs block rest)
  let ?b = "take bs rest @ drop (length (take bs rest)) block"
  have len: "length ?b = bs" using 1(2) by auto
  show ?case
  proof (cases "rest = []")
    case False
    with 1(3) have e: "blocks_of bs block rest = ?b # blocks_of bs ?b (drop bs rest)"
      by (subst blocks_of.simps) (simp add: Let_def)
    have IH: "take (length (drop bs rest)) (concat (blocks_of bs ?b (drop bs rest))) = drop bs rest"
      using 1(1) [OF _ refl len] 1(3) False by simp
    show ?thesis
    proof (cases "length rest \<le> bs")
      case True
      then show ?thesis unfolding e by simp
    next
      case long: False
      then have "?b = take bs rest" using 1(2) by simp
      with IH long show ?thesis unfolding e by simp
    qed
  qed simp
qed

lemma put_blocks_stored:
  assumes "put_blocks N limit st bs fuel block rest w = (Inr subs, w')" and "0 < bs" and "cluster_ok N" and "disks_in N S w"
    and "inj_on (cal_sha256sum N) S"
    and "\<forall>b \<in> set (blocks_of bs block rest). \<forall>vec. st_encode (ec N) st b = Inr vec \<longrightarrow> set vec \<subseteq> S \<and> (\<forall>f \<in> set vec. length f < 2 ^ 31)"
  shows "list_all2 (stored N st w') subs (blocks_of bs block rest) \<and> same_client w w' \<and> disks_in N S w' \<and>
    (\<forall>p g. g \<in> S \<longrightarrow> placed N w p g \<longrightarrow> placed N w' p g)"
  using assms(1,4,6)
proof (induction fuel arbitrary: block rest w subs)
  case (Suc fuel)
  show ?case
  proof (cases "rest = []")
    case True
    with Suc.prems(1,2) assms(2) show ?thesis by (auto simp: blocks_of.simps retE_def)
  next
    case False
    let ?b = "take bs rest @ drop (length (take bs rest)) block"
    have e: "blocks_of bs block rest = ?b # blocks_of bs ?b (drop bs rest)"
      using False assms(2) by (subst blocks_of.simps) (simp add: Let_def)
    from Suc.prems(1) False obtain s w1 ss where enc: "encode_one N limit st ?b w = (Inr s, w1)"
      and rest: "put_blocks N limit st bs fuel ?b (drop bs rest) w1 = (Inr ss, w')" and subs: "subs = s # ss"
      by (auto simp: Let_def bindE_Inr retE_def)
    from enc obtain vec where vec: "st_encode (ec N) st ?b = Inr vec"
      by (auto simp: encode_one_def bindE_Inr liftE_def)
    with Suc.prems(3) have S: "set vec \<subseteq> S" and len: "\<forall>f \<in> set vec. length f < 2 ^ 31" unfolding e by auto
    note inj = inj_on_subset [OF assms(5)]
    from encode_one_placed [OF enc assms(3) disks_in_ok [OF Suc.prems(2)] vec inj [OF S] len]
    have p: "list_all2 (placed N w1) (decode_one_sub s) (take (length (decode_one_sub s)) vec)" by blast
    have ok: "disks_in N S w1" by (rule disks_in_encode [OF enc Suc.prems(2) assms(3)]) (use vec S len in auto)
    from Suc.IH [OF rest ok] Suc.prems(3) have IH: "list_all2 (stored N st w') ss (blocks_of bs ?b (drop bs rest))"
      "same_client w1 w'" "\<forall>p g. g \<in> S \<longrightarrow> placed N w1 p g \<longrightarrow> placed N w' p g" "disks_in N S w'" unfolding e by auto
    have "list_all2 (placed N w') (decode_one_sub s) (take (length (decode_one_sub s)) vec)"
      using p by (rule list.rel_mono_strong) (use IH(3) S in \<open>blast dest: in_set_takeD\<close>)
    then have "stored N st w' s ?b" using vec by (auto simp: stored_def)
    moreover have "placed N w1 q g" if "g \<in> S" "placed N w q g" for q g
      by (rule encode_one_keeps [OF enc assms(3) disks_in_ok [OF Suc.prems(2)] vec that(2)]) (use inj S that(1) in auto)
    ultimately show ?thesis
      using IH same_client_trans [OF same_client_encode [OF enc]] unfolding e subs by auto
  qed
qed (simp add: throwE_def)

text \<open>
  A placement text from which a block can be had, when the nodes \<open>good\<close> hold its fragments and the others
  nothing that passes for them.
\<close>

definition recoverable :: "'n cluster \<Rightarrow> storage_type \<Rightarrow> string set \<Rightarrow> 'n world \<Rightarrow> string \<Rightarrow> string \<Rightarrow> bool" where
  "recoverable N st good w s b \<longleftrightarrow>
     (\<exists>vec. st_encode (ec N) st b = Inr vec \<and>
        list_all2 (kept N good w) (decode_one_sub s) (take (length (decode_one_sub s)) vec)) \<and>
     getDecodeBlocks st \<le> int (length (filter (\<lambda>p. fst p \<in> good) (decode_one_sub s)))"

lemma recoverable_disks: "disks w' = disks w \<Longrightarrow> recoverable N st good w' = recoverable N st good w"
  using kept_disks [of w' w N good] by (simp add: recoverable_def [abs_def])

lemma stored_recoverable:
  "stored N st w s b \<Longrightarrow> getDecodeBlocks st \<le> int (length (decode_one_sub s)) \<Longrightarrow> recoverable N st UNIV w s b"
  by (auto simp: stored_def recoverable_def intro: list_all2_mono placed_kept)

text \<open>While all calls are answered, such a block decodes.\<close>

lemma recoverable_decode:
  assumes "storage_codec (ec N) st" and "recoverable N st good w s b" and "\<forall>c \<ge> calls w. fate N c = Delivered"
  shows "\<exists>w'. decode_one N st s w = (Inr b, w') \<and> disks w' = disks w \<and> same_client w w' \<and> calls w \<le> calls w'"
proof -
  from assms(2) obtain vec where vec: "st_encode (ec N) st b = Inr vec"
    and p: "list_all2 (kept N good w) (decode_one_sub s) (take (length (decode_one_sub s)) vec)"
    and k: "getDecodeBlocks st \<le> int (answers N good (calls w) (decode_one_sub s))"
    using answers_all [OF assms(3)] by (auto simp: recoverable_def)
  have pos: "0 < getDecodeBlocks st" by (rule storage_codec.decode_blocks_pos [OF assms(1)])
  have "subseq ([] @ take (length (decode_one_sub s)) vec) vec" by (simp add: prefix_imp_subseq take_is_prefix)
  from decode_loop_kept [OF assms(1) vec p this] pos k obtain w' where
    d: "decode_one N st s w = (Inr b, w')" "disks w' = disks w" by (auto simp: decode_one_def)
  moreover have "calls w \<le> calls w'" using d(1) by (rule decode_one_calls)
  ultimately show ?thesis using same_client_decode by blast
qed

section \<open>The namenode as the client sees it\<close>

lemma sdk_call_ok:
  assumes "sdk_call N req w = (Inr resp, w1)" and "check_response resp = Inr ()"
  shows "\<exists>r. nn_master N req (namenodes w) = (Inr r, namenodes w1) \<and> success r \<and> disks w1 = disks w \<and> local w1 = local w"
  using assms
  by (cases "fate N (calls w)"; cases "nn_master N req (namenodes w)")
    (auto simp: sdk_call_def rpc_def onE_def Let_def split: sum.splits if_splits)

lemma lock_remote_path_ok:
  assumes "lock_remote_path N p w = (Inr (), w1)"
  shows "\<exists>r. nn_master_lock N [p] (namenodes w) = (Inr r, namenodes w1) \<and> success r \<and> disks w1 = disks w \<and> local w1 = local w"
  using assms
  by (cases "fate N (calls w)"; cases "nn_master_lock N [p] (namenodes w)")
    (auto simp: lock_remote_path_def lock_remote_paths_def bindE_def liftE_def rpc_def onE_def Let_def
      split: sum.splits if_splits)

text \<open>
  A \<open>put\<close> makes the path a file of its storage type, renewing its lock keeps that, and after a
  \<open>put_ok\<close> the file is listed with the blocks and the size given.
\<close>

locale file_service =
  fixes handle :: "request \<Rightarrow> 'n \<Rightarrow> response res \<times> 'n" and lock :: "string list \<Rightarrow> 'n \<Rightarrow> response res \<times> 'n"
    and ls :: "string \<Rightarrow> 'n \<Rightarrow> (response \<times> string) res" and J :: json_lib
    and ready :: "'n \<Rightarrow> bool" and is_file :: "'n \<Rightarrow> string \<Rightarrow> storage_type \<Rightarrow> bool"
  assumes put_file: "ready n \<Longrightarrow> handle (Put p t) n = (Inr r, n') \<Longrightarrow> success r \<Longrightarrow> st_from_string t = Inr st \<Longrightarrow> is_file n' p st"
    and lock_file: "is_file n p st \<Longrightarrow> lock [p] n = (x, n') \<Longrightarrow> is_file n' p st"
    and put_ok_file: "is_file n p st \<Longrightarrow> handle (PutOk p fsz subs) n = (Inr r, n') \<Longrightarrow> success r \<Longrightarrow>
      ready n' \<and> (\<exists>v i. ls p n' = Inr (succ_response empty_response, v) \<and> inode_parse J v = Inr i \<and> sub i = subs \<and>
        filesize i = fsz \<and> storage_type_ptr i = Some st)"
begin

lemma sdk_put_stored:
  assumes N: "nn_master N = handle" "nn_master_lock N = lock"
    and put: "sdk_put N fuel src dst t w = (Inr (), w')" and ready: "ready (namenodes w)"
    and st: "st_from_string t = Inr st" and src: "fs_data (local w) src = Some content"
    and bs: "0 < st_block_size st" and ok: "cluster_ok N" "disks_in N S w" and inj: "inj_on (cal_sha256sum N) S"
    and frags: "\<forall>b \<in> set (blocks_of (nat (st_block_size st)) (replicate (nat (st_block_size st)) (CHR 0x00)) content).
      \<forall>vec. st_encode (ec N) st b = Inr vec \<longrightarrow> set vec \<subseteq> S \<and> (\<forall>f \<in> set vec. length f < 2 ^ 31)"
  shows "ready (namenodes w') \<and> disks_in N S w' \<and> (\<exists>v i. ls dst (namenodes w') = Inr (succ_response empty_response, v) \<and>
    inode_parse J v = Inr i \<and> filesize i = of_nat (length content) \<and> storage_type_ptr i = Some st \<and>
    list_all2 (stored N st w') (sub i) (blocks_of (nat (st_block_size st)) (replicate (nat (st_block_size st)) (CHR 0x00)) content))"
proof -
  let ?bs = "nat (st_block_size st)"
  have fsz: "on_local (fs_file_size src) w = (Inr (length content), w)"
    using src by (auto simp: on_local_def onE_def fs_file_size_def fs_data_def split: option.splits fnode.splits)
  have neg: "\<not> st_block_size st < 0" using bs by simp
  from put st src fsz neg obtain resp w1 w2 subs w3 resp2 where
    c1: "sdk_call N (Put dst t) w = (Inr resp, w1)" "check_response resp = Inr ()"
    and c2: "lock_remote_path N dst w1 = (Inr (), w2)"
    and pb: "put_blocks N fuel st ?bs fuel (replicate ?bs (CHR 0x00)) content w2 = (Inr subs, w3)"
    and c3: "sdk_call N (PutOk dst (of_nat (length content)) subs) (w3\<lparr>remoteLocks := filter (\<lambda>p. p \<noteq> dst) (remoteLocks w3)\<rparr>)
       = (Inr resp2, w')" "check_response resp2 = Inr ()"
    by (auto simp: sdk_put_def bindE_Inr thenE_def getE_def liftE_def unlock_remote_def modifyE_def Let_def throwE_def
        split: if_splits)
  from sdk_call_ok [OF c1] N obtain r1 where
    r1: "handle (Put dst t) (namenodes w) = (Inr r1, namenodes w1)" "success r1" "disks w1 = disks w" by auto
  from lock_remote_path_ok [OF c2] N obtain r2 where
    r2: "lock [dst] (namenodes w1) = (Inr r2, namenodes w2)" "disks w2 = disks w1" by auto
  from sdk_call_ok [OF c3] N obtain r3 where
    r3: "handle (PutOk dst (of_nat (length content)) subs) (namenodes w3) = (Inr r3, namenodes w')" "success r3"
    "disks w' = disks w3" by auto
  have "disks_in N S w2" using ok(2) r1(3) r2(2) by (simp add: disks_in_def)
  with put_blocks_stored [OF pb _ ok(1) _ inj frags] bs have
    s: "list_all2 (stored N st w3) subs (blocks_of ?bs (replicate ?bs (CHR 0x00)) content)" "same_client w2 w3" "disks_in N S w3" by auto
  have "is_file (namenodes w3) dst st"
    using lock_file [OF put_file [OF ready r1(1,2) st] r2(1)] s(2) by (simp add: same_client_def)
  from put_ok_file [OF this r3(1,2)] s(1) show ?thesis
    using r3(3) s(3) by (auto simp: stored_def [abs_def] placed_def [abs_def] disks_in_def)
qed

end

section \<open>The namenode of the model\<close>

text \<open>
  A call of \<open>update_lock\<close> served alone: its entries applied one after the other.  The answer is the
  failure of a path if there was one, else that of the last entry.
\<close>

definition serve_lock ::
    "json_lib \<Rightarrow> ('db, 'bk) kv_lib \<Rightarrow> nn_env \<Rightarrow> string list \<Rightarrow> ('db, 'bk) rocksdb \<Rightarrow> response res \<times> ('db, 'bk) rocksdb" where
  "serve_lock J K env paths r =
     (case update_lock J K env r paths of
        (ds, x) \<Rightarrow>
          (case on_apply J K (garbage env) (map (\<lambda>d. (d, Some empty_response)) ds) r of
             (Inl e, r') \<Rightarrow> (Inl e, r')
           | (Inr cs, r') \<Rightarrow>
               (case x of
                  Some (Replied resp) \<Rightarrow> Inr resp
                | Some (Crashed e) \<Rightarrow> Inl e
                | _ \<Rightarrow> Inr (the (last cs)), r')))"

definition file_at :: "json_lib \<Rightarrow> ('db \<Rightarrow> string \<rightharpoonup> string) \<Rightarrow> ('db, 'bk) rocksdb \<Rightarrow> string \<Rightarrow> storage_type \<Rightarrow> bool" where
  "file_at J view r p st \<longleftrightarrow>
     db_ok J view (store r) \<and> db_ready r \<and>
     (\<exists>i. ns_of J view (store r) (simplify_path p) = Some i \<and> storage_type_ptr i = Some st)"

lemma upd_eqD: "m(k \<mapsto> v) = m' \<Longrightarrow> m' k = Some v"
  by auto

context meta_reliable
begin

lemma put_makes_file:
  assumes "db_ok J view (store r)" and "db_ready r" and "serve J K env (Put p t) r = (Inr resp, r')"
    and "success resp" and "st_from_string t = Inr st"
  shows "file_at J view r' p st"
proof -
  from serve_success [OF assms(1,3,4)] assms(2) obtain op i where
    p: "a_prepare env (Put p t) (ns r) = Inr (op, i)" "a_apply (garbage env) op i (ns r) = Some (ns r')"
    and ok: "db_ok J view (store r')" "db_ready r'" by metis
  let ?g = "a_get (ns r) (set_fullpath p (new_inode (garbage env)))"
  from p(1) assms(5) obtain i' where l: "inode_lock (now env) (?g\<lparr>is_directory := False, valid := True\<rparr>) = Inr i'"
    and i: "op = OP_PUT" "i = i'\<lparr>storage_type_ptr := Some st\<rparr>"
    by (auto simp: Let_def res_simps split: if_splits)
  have "fullpath ?g = simplify_path p"
    using ns_Some(1) [OF assms(1)] by (auto simp: a_get_def set_fullpath_def split: option.splits)
  with l have "fullpath i' = simplify_path p" by (auto simp: inode_lock_def split: if_splits)
  with p(2) i have "ns r' (simplify_path p) = Some i" by (auto simp: a_put_def dest: upd_eqD)
  with ok i show ?thesis by (auto simp: file_at_def)
qed

lemma lock_keeps_file:
  assumes "file_at J view r p st" and "serve_lock J K env [p] r = (x, r')"
  shows "file_at J view r' p st"
proof -
  have ok: "db_ok J view (store r)" "db_ready r" using assms(1) by (auto simp: file_at_def)
  obtain ds y where u: "update_lock J K env r [p] = (ds, y)" by fastforce
  show ?thesis
  proof (cases ds)
    case Nil
    with assms u show ?thesis by (auto simp: serve_lock_def split: option.splits rpc_outcome.splits)
  next
    case (Cons d ds')
    with u have d: "renew_entry J K env r p = Inr d" "ds' = []"
      by (auto simp: update_lock_def split: sum.splits if_splits prod.splits)
    from assms(1) obtain i where i: "ns r (simplify_path p) = Some i" "storage_type_ptr i = Some st" by (auto simp: file_at_def)
    then have "a_get (ns r) (set_fullpath p (new_inode (garbage env))) = i" by (simp add: a_get_def set_fullpath_def)
    with d(1) rdb_ls_total [OF ok] obtain v where v: "inode_value J (update_ddl_lock (now env) i) = Inr v" "d = entry OP_PUT v"
      by (auto simp: renew_entry_def res_simps split: if_splits)
    have io: "inode_ok (update_ddl_lock (now env) i)" "fullpath i = simplify_path p"
      using ns_Some [OF ok(1) i(1)] by (auto simp: update_ddl_lock_def)
    obtain z r1 where e: "apply_entry J K (garbage env) d r = (z, r1)" by fastforce
    from apply_entry_refines [OF ok(1) v(1) io(1), of "garbage env" OP_PUT]
    have ref: "action_refines J view r (z, r1) (a_put (update_ddl_lock (now env) i) (ns r))" using e v(2) by simp
    have "r' = r1"
      using assms(2) u Cons d(2) e by (auto simp: serve_lock_def apply_one_def split: sum.splits prod.splits option.splits)
    moreover have "db_ok J view (store r1)" "db_ready r1" using action_refines_ns(1,2) [OF ref] ok by auto
    moreover have "\<exists>i'. ns r1 (simplify_path p) = Some i' \<and> storage_type_ptr i' = Some st"
    proof (cases z)
      case (Inr u)
      then have "ns r1 = (ns r)(simplify_path p \<mapsto> update_ddl_lock (now env) i)"
        using action_refines_ns(3) [OF ref] io(2) by (simp add: a_put_def update_ddl_lock_def)
      with i show ?thesis by (simp add: update_ddl_lock_def)
    qed (use action_refines_ns(4) [OF ref] i in auto)
    ultimately show ?thesis by (simp add: file_at_def)
  qed
qed

lemma put_ok_lists_file:
  assumes "file_at J view r p st" and "serve J K env (PutOk p fsz subs) r = (Inr resp, r')" and "success resp"
  shows "(db_ok J view (store r') \<and> db_ready r') \<and>
    (\<exists>v i. nn_ls J K env' r' p = Inr (succ_response empty_response, v) \<and> inode_parse J v = Inr i \<and> sub i = subs \<and>
       filesize i = fsz \<and> storage_type_ptr i = Some st)"
proof -
  have ok: "db_ok J view (store r)" "db_ready r" using assms(1) by (auto simp: file_at_def)
  from assms(1) obtain i where i: "ns r (simplify_path p) = Some i" "storage_type_ptr i = Some st" by (auto simp: file_at_def)
  let ?q = "set_fullpath p (new_inode (garbage env))" and ?new = "i\<lparr>ddl_lock := 0, sub := subs, filesize := fsz\<rparr>"
  have ai: "a_get (ns r) ?q = i" using i by (simp add: a_get_def set_fullpath_def)
  have fp: "fullpath i = simplify_path p" using ns_Some(1) [OF ok(1) i(1)] .
  obtain op k v z where
    k: "a_prepare env (PutOk p fsz subs) (ns r) = Inr (op, k)" "inode_value J k = Inr v" "inode_ok k" "p \<noteq> []"
    and e: "apply_entry J K (garbage env) (entry op v) r = (z, r')" "\<not> isl z"
  proof (cases rule: serve_cases [OF ok(1), of env "PutOk p fsz subs"])
    case (2 op k v x r1)
    then have "r1 = r'" "\<not> isl x"
      using assms(2,3) by (auto dest: fail_response_not_success [OF sym] split: sum.splits)
    with 2 show thesis by (intro that) auto
  qed (use assms(2,3) in auto)
  from k(1) ai have op: "op = OP_PUTOK" "k = i\<lparr>sub := subs, filesize := fsz\<rparr>" "valid i"
    by (auto simp: Let_def split: if_splits)
  have "inode_parse J v = Inr k" by (rule inode_parse_value [OF k(2,3)])
  with e op have pk: "internal_put_ok J K (garbage env) k r = (z, r')" by (simp add: apply_entry_def)
  have "get_inode J K r (set_fullpath (fullpath k) (new_inode (garbage env))) = Inr i"
    using get_inode_total [OF ok] i fp op(2) ns_Some(2) [OF ok(1) i(1)] by (simp add: a_get_def set_fullpath_def inode_ok_def)
  with pk e(2) op obtain v' where v': "inode_value J ?new = Inr v'"
    by (auto simp: internal_put_ok_def write_two_def inode_unlock_def res_simps split: if_splits sum.splits prod.splits)
  from internal_put_ok_refines [OF ok(1) k(3)]
  have "action_refines J view r (z, r') (a_put_ok (garbage env) k (ns r))" using pk by metis
  note ref = this
  have ok': "db_ok J view (store r')" "db_ready r'" using action_refines_ns(1,2) [OF ref] ok by auto
  have "a_get (ns r) (set_fullpath (fullpath k) (new_inode (garbage env))) = i"
    using i fp op(2) ns_Some(2) [OF ok(1) i(1)] by (simp add: a_get_def set_fullpath_def inode_ok_def)
  with action_refines_ns(3) [OF ref] e(2) op fp have "ns r' (simplify_path p) = Some ?new"
    by (cases z) (auto simp: a_put_ok_def inode_unlock_def dest: upd_eqD)
  then have "rdb_ls J K r' (set_fullpath p (new_inode (garbage env'))) = Inr ?new"
    using rdb_ls_total [OF ok'] op(3) by (simp add: a_get_def set_fullpath_def)
  moreover have "inode_ok ?new" using k(3) op(2) by (simp add: inode_ok_def)
  ultimately show ?thesis using v' inode_parse_value [OF v'] k(4) i(2) ok' by (simp add: nn_ls_def)
qed

end

sublocale meta_reliable < namenode: file_service "serve J K env" "serve_lock J K env" "\<lambda>p r. nn_ls J K env' r p" J
    "\<lambda>r. db_ok J view (store r) \<and> db_ready r" "file_at J view" for env env'
proof unfold_locales
  show "file_at J view n' p st"
    if "db_ok J view (store n) \<and> db_ready n" "serve J K env (Put p t) n = (Inr r, n')" "success r" "st_from_string t = Inr st"
    for n p t r n' st
    using that put_makes_file by blast
qed (rule lock_keeps_file, assumption+, rule put_ok_lists_file, assumption+)

context meta_reliable
begin

lemmas served_put = namenode.sdk_put_stored

end

section \<open>Getting a file\<close>

lemma write_out_append: "write_out h b (write_out h a F) = write_out h (a @ b) F"
  by (simp add: write_out_def)

lemma write_out_Nil [simp]: "write_out h [] F = F"
  by (simp add: write_out_def)

lemma stored_disks: "disks w' = disks w \<Longrightarrow> stored N st w' = stored N st w"
  by (simp add: stored_def [abs_def] placed_def [abs_def])

lemma get_loop:
  assumes "storage_codec (ec N) st" and "list_all2 (recoverable N st good w) subs bs" and "\<forall>c \<ge> calls w. fate N c = Delivered"
  shows "\<exists>w'. forE subs (\<lambda>s. bindE (liftE (deref (Some st))) (\<lambda>st.
      bindE (decode_one N st s) (\<lambda>block. on_local (modifyE (write_out h block))))) w = (Inr (), w') \<and>
    local w' = write_out h (concat bs) (local w)"
  using assms(2-)
proof (induction subs arbitrary: w bs)
  case (Cons s subs)
  from Cons.prems(1) obtain b bs' where bs: "bs = b # bs'" "recoverable N st good w s b" "list_all2 (recoverable N st good w) subs bs'"
    by (auto simp: list_all2_Cons1)
  from recoverable_decode [OF assms(1) bs(2) Cons.prems(2)] obtain w1 where
    d: "decode_one N st s w = (Inr b, w1)" "disks w1 = disks w" "same_client w w1" "calls w \<le> calls w1" by auto
  let ?w2 = "w1\<lparr>local := write_out h b (local w1)\<rparr>"
  have "list_all2 (recoverable N st good ?w2) subs bs'" "\<forall>c \<ge> calls ?w2. fate N c = Delivered"
    using bs(3) recoverable_disks [of ?w2 w N st good] d(2,4) Cons.prems(2) by auto
  from Cons.IH [OF this] d show ?case
    unfolding bs(1)
    by (auto simp: bindE_def liftE_def deref_def on_local_def onE_def modifyE_def same_client_def write_out_append)
qed simp

lemma resize_data:
  assumes "fs_data F p = Some s" and "\<not> denied F p" and "n < 2 ^ 63"
  shows "\<exists>F'. fs_resize_file p n F = (Inr (), F') \<and> fs_data F' p = Some (take n (s @ replicate (n - length s) (CHR 0x00)))"
proof -
  from assms(1) obtain k where k: "fs_find F p = Some (FFile k)" "contents F k = s"
    by (auto simp: fs_data_def split: option.splits fnode.splits)
  let ?F = "F\<lparr>contents := (contents F)(k := take n (s @ replicate (n - length s) (CHR 0x00)))\<rparr>"
  have "fs_find ?F p = Some (FFile k)" using k(1) by (simp add: fs_find_def split: if_splits)
  with k assms(2,3) show ?thesis by (intro exI [of _ ?F]) (simp add: fs_resize_file_def fs_data_def)
qed

lemma sdk_get_recoverable:
  assumes ls: "nn_slave_ls N src (namenodes w) = Inr (succ_response empty_response, v)" "inode_parse (js N) v = Inr i"
    and st: "storage_type_ptr i = Some st" "storage_codec (ec N) st"
    and blocks: "list_all2 (recoverable N st good w) (sub i) bs"
    and net: "\<forall>c \<ge> calls w. fate N c = Delivered"
    and F: "files_ok (local w)" "open_out False dst (local w) = (Some h, F1)" and len: "unat (filesize i) < 2 ^ 63"
  shows "\<exists>w'. sdk_get N src dst w = (Inr (), w') \<and>
    fs_data (local w') dst = Some (take (unat (filesize i)) (concat bs @ replicate (unat (filesize i) - length (concat bs)) (CHR 0x00)))"
proof -
  let ?w1 = "w\<lparr>calls := Suc (calls w)\<rparr>"
  let ?w2 = "?w1\<lparr>local := F1\<rparr>"
  have r: "get_remote_inode N src w = (Inr i, ?w1)"
    using net ls by (simp add: get_remote_inode_def rpc_def Let_def bindE_def thenE_def liftE_def succ_response_def)
  have "list_all2 (recoverable N st good ?w2) (sub i) bs" "\<forall>c \<ge> calls ?w2. fate N c = Delivered"
    using blocks recoverable_disks [of ?w2 w N st good] net by auto
  from get_loop [OF st(2) this, of h] obtain w3 where
    l: "forE (sub i) (\<lambda>s. bindE (liftE (deref (Some st))) (\<lambda>st.
      bindE (decode_one N st s) (\<lambda>block. on_local (modifyE (write_out h block))))) ?w2 = (Inr (), w3)"
    "local w3 = write_out h (concat bs) F1" by auto
  have "fs_data (local w3) dst = Some (concat bs)" "\<not> denied (local w3) dst"
    using open_write_data(1,3) [OF F, of "concat bs"] F(2) l(2) by (auto simp: open_out_def split: if_splits)
  from resize_data [OF this len] obtain F' where
    z: "fs_resize_file dst (unat (filesize i)) (local w3) = (Inr (), F')"
    "fs_data F' dst = Some (take (unat (filesize i)) (concat bs @ replicate (unat (filesize i) - length (concat bs)) (CHR 0x00)))"
    by blast
  have "sdk_get N src dst w = (Inr (), w3\<lparr>local := F'\<rparr>)"
    using r F(2) l(1) z(1) st(1) by (simp add: sdk_get_def bindE_def thenE_def on_local_def onE_def)
  with z(2) show ?thesis by auto
qed

section \<open>A concrete run\<close>

text \<open>The namenode with the path \<open>/f\<close> as a file of one replica, locked until the time 62.\<close>

definition typed_inode :: inode where
  "typed_inode =
     \<lparr>fullpath = ''/f'', is_directory = False, filesize = 0, storage_type_ptr = Some (RE 1 1), sub = [], valid = True,
      ddl_lock = 62\<rparr>"

definition typed_text :: string where
  "typed_text = (case inode_value text_json typed_inode of Inr v \<Rightarrow> v | Inl _ \<Rightarrow> [])"

definition typed_db :: "(string \<rightharpoonup> string, (string \<rightharpoonup> string) list) rocksdb" where
  "typed_db = empty_db\<lparr>store := [''/f'' \<mapsto> typed_text]\<rparr>"

lemma typed_texts: "inode_parse text_json typed_text = Inr typed_inode" "inode_value text_json typed_inode = Inr typed_text"
  by code_simp+

lemma typed_put:
  "serve text_json map_kv (leader_env 2) (Put ''/f'' ''RE<1,1>'') empty_db = (Inr (succ_response empty_response), typed_db)"
proof -
  have "nn_handle text_json map_kv (leader_env 2) empty_db (Put ''/f'' ''RE<1,1>'') = Proposed (entry OP_PUT typed_text)"
    by code_simp
  moreover have "fullpath typed_inode = ''/f''" by (simp add: typed_inode_def)
  ultimately show ?thesis
    by (simp add: serve_def apply_one_def apply_entry_def typed_texts internal_put_def typed_db_def map_kv_def empty_db_def)
qed

lemma typed_lock:
  "serve_lock text_json map_kv (leader_env 2) [''/f''] typed_db = (Inr (succ_response empty_response), typed_db)"
proof -
  have "update_lock text_json map_kv (leader_env 2) typed_db [''/f''] = ([entry OP_PUT typed_text], None)"
    by code_simp
  moreover have "fullpath typed_inode = ''/f''" by (simp add: typed_inode_def)
  ultimately show ?thesis
    by (simp add: serve_lock_def apply_one_def apply_entry_def typed_texts internal_put_def typed_db_def map_kv_def empty_db_def)
qed

lemma typed_put_ok:
  "\<exists>r. serve text_json map_kv (leader_env 2) (PutOk ''/f'' 4 [''a:1|h'']) typed_db = (Inr (succ_response empty_response), r)"
proof -
  have "fst (serve text_json map_kv (leader_env 2) (PutOk ''/f'' 4 [''a:1|h'']) typed_db) = Inr (succ_response empty_response)"
    by code_simp
  then show ?thesis by (metis prod.collapse)
qed

lemma typed_file: "file_at text_json (\<lambda>m. m) typed_db ''/f'' (RE 1 1)"
proof -
  have "simplify_path ''/f'' = ''/f''" by code_simp
  with typed_texts(1) show ?thesis
    by (simp add: file_at_def typed_db_def empty_db_def db_ok_def ns_of_def typed_inode_def)
qed

definition file_cluster :: "((string \<rightharpoonup> string, (string \<rightharpoonup> string) list) rocksdb) cluster" where
  "file_cluster =
     \<lparr>fate = (\<lambda>_. Delivered), echoes = (\<lambda>_ _. RpcOk), cal_sha256sum = (\<lambda>_. ''h''), cal_md5sum = (\<lambda>_. ''m''),
      ec = copy_code, js = text_json, dn_dir = ''/d'', dn_nodes = (\<lambda>_. [default_node\<lparr>ip := ''a'', port := 1\<rparr>]),
      first_stub = hd, uninit = False, nn_master = serve text_json map_kv (leader_env 2),
      nn_master_lock = serve_lock text_json map_kv (leader_env 2),
      nn_slave_ls = (\<lambda>p r. nn_ls text_json map_kv (leader_env 2) r p)\<rparr>"

definition file_world :: "((string \<rightharpoonup> string, (string \<rightharpoonup> string) list) rocksdb) world" where
  "file_world =
     \<lparr>dn_stubs = [''a:1''], pathlocks = Map.empty, remoteLocks = [], local_inode_cache = Map.empty,
      local = \<lparr>names = [(''/d/s'', FFile 0), (''/d'', FDir)], contents = (\<lambda>_. ''data''), next_ino = 1, denied = (\<lambda>_. False)\<rparr>,
      disks = (\<lambda>_. empty_disk), namenodes = empty_db, calls = 0\<rparr>"

lemma file_cluster_sel [simp]:
  "fate file_cluster = (\<lambda>_. Delivered)" "echoes file_cluster = (\<lambda>_ _. RpcOk)" "cal_sha256sum file_cluster = (\<lambda>_. ''h'')"
  "ec file_cluster = copy_code" "js file_cluster = text_json" "dn_dir file_cluster = ''/d''" "first_stub file_cluster = hd"
  "dn_nodes file_cluster = (\<lambda>_. [default_node\<lparr>ip := ''a'', port := 1\<rparr>])"
  "nn_master file_cluster = serve text_json map_kv (leader_env 2)"
  "nn_master_lock file_cluster = serve_lock text_json map_kv (leader_env 2)"
  "nn_slave_ls file_cluster = (\<lambda>p r. nn_ls text_json map_kv (leader_env 2) r p)"
  by (simp_all add: file_cluster_def)

lemma file_cluster_ok: "cluster_ok file_cluster" "disks_ok file_world" "writable file_cluster empty_disk"
proof -
  have "path_parent (block_path ''/d'' ''h'') = ''/d''" by code_simp
  then show "writable file_cluster empty_disk"
    by (simp add: writable_def file_cluster_def empty_disk_def fs_find_def fs_is_directory_def block_path_def)
qed (simp_all add: cluster_ok_def file_cluster_def addr_ok_def disks_ok_def file_world_def unshared_empty_disk)

lemma file_online:
  assumes "dn_stubs w = [''a:1'']"
  shows "\<exists>w'. get_online_datanodes file_cluster w = (Inr [''a:1''], w') \<and> disks w' = disks w"
proof -
  have g: "get_datanodes [default_node\<lparr>ip := ''a'', port := 1\<rparr>] = Inr (succ_response empty_response, [''a:1''])" by code_simp
  have p: "rmapM (\<lambda>s. node_from_string s default_node) [''a:1''] = Inr [default_node\<lparr>ip := ''a'', port := 1\<rparr>]" by code_simp
  have d: "node_discovery (\<lambda>_. RpcOk) [default_node\<lparr>ip := ''a'', port := 1\<rparr>] =
      Inr [default_node\<lparr>ip := ''a'', port := 1, nodeStatus := ONLINE\<rparr>]" by code_simp
  have s: "node_to_string (default_node\<lparr>ip := ''a'', port := 1, nodeStatus := ONLINE\<rparr>) = ''a:1''" by code_simp
  have "sdk_get_datanodes file_cluster w = (Inr [''a:1''], w\<lparr>calls := Suc (calls w)\<rparr>)"
    using assms g
    by (simp add: sdk_get_datanodes_def rpc_def Let_def thenE_def bindE_def getE_def liftE_def retE_def succ_response_def)
  then show ?thesis
    using p d s by (simp add: get_online_datanodes_def bindE_def getE_def liftE_def retE_def del: rmapM.simps)
qed

lemma file_encode:
  assumes "dn_stubs w = [''a:1'']" and "disks w = (\<lambda>_. empty_disk)"
  shows "\<exists>w'. encode_one file_cluster 5 (RE 1 1) b w = (Inr ''a:1|h'', w')"
proof -
  from file_online [OF assms(1)] obtain w0 where on: "get_online_datanodes file_cluster w = (Inr [''a:1''], w0)"
    and w0: "disks w0 = disks w" by blast
  obtain r w1 where p: "put_to_datanode file_cluster ([''a:1''] ! 0) ([b] ! 0) w0 = (r, w1)" by fastforce
  have "r = Inr ''h''"
    using put_writable(1) [OF p] file_cluster_ok(3) w0 assms(2) by (simp add: file_cluster_def)
  from encode_loop_step(1) [OF _ _ p this, of "RE 1 1" 4 0 0 "[]"]
  have "encode_loop file_cluster (RE 1 1) [b] [''a:1''] 5 0 0 0 0 [] w0 = (Inr [(''a:1'', ''h'')], w1)"
    by (simp add: after_put_def eval_nat_numeral retE_def)
  moreover have "encode_one_sub [(''a:1'', ''h'')] = Inr ''a:1|h''" by code_simp
  ultimately show ?thesis using on by (simp add: encode_one_def bindE_def liftE_def)
qed

lemma put_one_block:
  assumes "content \<noteq> []" and "length content \<le> bs"
    and "encode_one N limit st (content @ drop (length content) block) w = (Inr s, w')"
  shows "put_blocks N limit st bs (Suc (Suc fuel)) block content w = (Inr [s], w')"
proof -
  have "0 < bs" using assms(1,2) by (cases content) auto
  with assms show ?thesis by (simp add: Let_def bindE_def retE_def)
qed

lemma file_put:
  "\<exists>w'. sdk_put file_cluster 5 ''/d/s'' ''/f'' ''RE<1,1>'' file_world = (Inr (), w') \<and> local w' = local file_world \<and>
     serve text_json map_kv (leader_env 2) (PutOk ''/f'' 4 [''a:1|h'']) typed_db = (Inr (succ_response empty_response), namenodes w')"
proof -
  let ?bs = "nat (st_block_size (RE 1 1))"
  have st: "st_from_string ''RE<1,1>'' = Inr (RE 1 1)" by code_simp
  have bs: "4 \<le> ?bs" "\<not> st_block_size (RE 1 1) < 0" by (simp_all add: st_block_size_def to_int32_id)
  have src: "fs_exists (local file_world) ''/d/s''" "\<not> denied (local file_world) ''/d/s''"
    "fs_data (local file_world) ''/d/s'' = Some ''data''" "on_local (fs_file_size ''/d/s'') file_world = (Inr 4, file_world)"
    by (simp_all add: file_world_def fs_exists_def fs_find_def fs_data_def on_local_def onE_def fs_file_size_def)
  let ?w = "\<lambda>c db. file_world\<lparr>calls := c, namenodes := db\<rparr>"
  have c1: "sdk_call file_cluster (Put ''/f'' ''RE<1,1>'') file_world =
      (Inr (Some (succ_response empty_response)), ?w 1 typed_db)"
    using typed_put by (simp add: sdk_call_def rpc_def Let_def onE_def file_world_def)
  have c2: "lock_remote_path file_cluster ''/f'' (?w 1 typed_db) = (Inr (), ?w 2 typed_db)"
    using typed_lock
    by (simp add: lock_remote_path_def lock_remote_paths_def rpc_def Let_def onE_def file_world_def bindE_def liftE_def
        succ_response_def)
  let ?b = "''data'' @ drop (length ''data'') (replicate ?bs (CHR 0x00))"
  have "dn_stubs (?w 2 typed_db) = [''a:1'']" "disks (?w 2 typed_db) = (\<lambda>_. empty_disk)" by (simp_all add: file_world_def)
  from file_encode [OF this, of ?b] obtain w3 where e:
    "encode_one file_cluster 5 (RE 1 1) ?b (?w 2 typed_db) = (Inr ''a:1|h'', w3)" by blast
  have w3: "namenodes w3 = typed_db" "local w3 = local file_world"
    using same_client_encode [OF e] by (simp_all add: same_client_def)
  have "length ''data'' \<le> ?bs" using bs(1) by simp
  from put_one_block [OF _ this e, of 3]
  have pb: "put_blocks file_cluster 5 (RE 1 1) ?bs 5 (replicate ?bs (CHR 0x00)) ''data'' (?w 2 typed_db) = (Inr [''a:1|h''], w3)"
    by (simp only: numeral_nat) simp
  from typed_put_ok obtain r where p: "serve text_json map_kv (leader_env 2) (PutOk ''/f'' 4 [''a:1|h'']) typed_db =
      (Inr (succ_response empty_response), r)" by blast
  let ?w3 = "w3\<lparr>remoteLocks := filter (\<lambda>p. p \<noteq> ''/f'') (remoteLocks w3)\<rparr>"
  have c3: "sdk_call file_cluster (PutOk ''/f'' 4 [''a:1|h'']) ?w3 =
      (Inr (Some (succ_response empty_response)), ?w3\<lparr>calls := Suc (calls w3), namenodes := r\<rparr>)"
    using p w3 by (simp add: sdk_call_def rpc_def Let_def onE_def)
  have "sdk_put file_cluster 5 ''/d/s'' ''/f'' ''RE<1,1>'' file_world = (Inr (), ?w3\<lparr>calls := Suc (calls w3), namenodes := r\<rparr>)"
    using st bs(2) src c1 c2 pb c3
    by (simp add: sdk_put_def Let_def bindE_def thenE_def getE_def liftE_def unlock_remote_def modifyE_def succ_response_def
        del: put_blocks.simps)
  with p w3(2) show ?thesis by auto
qed

end
