(* ===== verification/Traffic.thy ===== *)
theory Traffic
  imports FileTransfer
begin

text \<open>
  What requests of other clients leave of a path.  A request changes the inode under its own path and
  the listing right above it; a renewal changes the time of a lock.  A file therefore stays listed, and a
  file that was \<open>put\<close> stays locked, through any traffic that does not address it.
\<close>

section \<open>The inode under a key\<close>

definition holds_at ::
    "json_lib \<Rightarrow> ('db \<Rightarrow> string \<rightharpoonup> string) \<Rightarrow> ('db, 'bk) rocksdb \<Rightarrow> string \<Rightarrow> (inode \<Rightarrow> bool) \<Rightarrow> bool" where
  "holds_at J view r key Q \<longleftrightarrow>
     db_ok J view (store r) \<and> db_ready r \<and> (\<exists>i. ns_of J view (store r) key = Some i \<and> Q i)"

text \<open>The key a request changes, and the requests that leave a path and what is right below it alone.\<close>

fun req_key :: "request \<Rightarrow> string" where
  "req_key (Mkdir path) = simplify_path (if hd path \<noteq> slash then slash # path else path)"
| "req_key (Rm path) = simplify_path path"
| "req_key (Put path st) = simplify_path path"
| "req_key (PutOk path fsize subs) = simplify_path path"

definition leaves :: "string \<Rightarrow> request \<Rightarrow> bool" where
  "leaves key req \<longleftrightarrow> req_key req \<noteq> key \<and> path_parent (req_key req) \<noteq> key"

lemma a_apply_key:
  assumes "a_apply g op k ns = Some ns'" and "key \<noteq> fullpath k" and "\<forall>p i. ns p = Some i \<longrightarrow> fullpath i = p"
    and "ns key = Some i"
  shows "ns' key = Some i \<or> (\<exists>n. inode_parent_path k = key \<and> (ns' key = Some (add_sub n i) \<or> ns' key = Some (erase_sub n i)))"
proof -
  have "fullpath p = inode_parent_path k" if "a_parent ns k = Some p" for p
    using that assms(3) by (auto simp: a_parent_def split: option.splits if_splits)
  moreover have "p = i" if "a_parent ns k = Some p" "inode_parent_path k = key" for p
    using that assms(4) by (simp add: a_parent_def)
  moreover have "fullpath (a_get ns (set_fullpath (fullpath k) (new_inode g))) = simplify_path (fullpath k)"
    using assms(3) by (auto simp: a_get_def split: option.splits)
  ultimately show ?thesis
    using assms(1,2,4) by (cases op) (auto simp: a_mkdir_def a_put_def a_put_ok_def a_rm_def split: if_splits)
qed

context meta_reliable
begin

lemma a_prepare_key:
  assumes "db_ok J view (store r)" and "a_prepare env req (ns r) = Inr (op, k)"
  shows "fullpath k = req_key req"
proof -
  have "fullpath (a_get (ns r) (set_fullpath p (new_inode g))) = simplify_path p" for p g
    using a_get_ok [OF assms(1) inode_ok_set_fullpath] by simp
  with assms(2) show ?thesis
    by (cases req) (auto simp: Let_def res_simps inode_lock_Inr split: if_splits)
qed

lemma serve_holds:
  assumes "holds_at J view r key Q" and "serve J K env req r = (x, r')"
    and other: "\<And>op k. a_prepare env req (ns r) = Inr (op, k) \<Longrightarrow> req_key req \<noteq> key"
    and below: "\<And>i n. path_parent (req_key req) = key \<Longrightarrow> Q i \<Longrightarrow> Q (add_sub n i) \<and> Q (erase_sub n i)"
  shows "holds_at J view r' key Q"
proof -
  from assms(1) obtain i where ok: "db_ok J view (store r)" "db_ready r" and i: "ns r key = Some i" "Q i"
    by (auto simp: holds_at_def)
  show ?thesis
  proof (cases rule: serve_cases [OF ok(1), of env req])
    case (1 resp)
    with assms show ?thesis by simp
  next
    case tried: (2 op k v y r1)
    then have r1: "r1 = r'" using assms(2) by simp
    note ref = apply_entry_refines [OF ok(1) tried(2,3), of "garbage env" op, unfolded tried(5)]
    have k: "fullpath k = req_key req" by (rule a_prepare_key [OF ok(1) tried(1)])
    have "\<exists>i. ns r' key = Some i \<and> Q i"
    proof (cases y)
      case (Inl e)
      then show ?thesis using action_refines_ns(4) [OF ref] r1 i by simp
    next
      case (Inr u)
      from action_refines_ns(3) [OF ref Inr] have "a_apply (garbage env) op k (ns r) = Some (ns r')" using r1 by simp
      from a_apply_key [OF this _ _ i(1)] k other [OF tried(1)] ns_Some(1) [OF ok(1)] i(2) below show ?thesis
        by (auto simp: inode_parent_path_def)
    qed
    with ok action_refines_ns(1,2) [OF ref] r1 show ?thesis by (simp add: holds_at_def)
  qed
qed

text \<open>An entry that puts an inode, under the key only one with \<open>Q\<close>.\<close>

definition puts :: "string \<Rightarrow> (inode \<Rightarrow> bool) \<Rightarrow> string \<Rightarrow> bool" where
  "puts key Q d \<longleftrightarrow> (\<exists>k v. d = entry OP_PUT v \<and> inode_value J k = Inr v \<and> inode_ok k \<and> (fullpath k = key \<longrightarrow> Q k))"

lemma on_apply_puts:
  assumes "\<forall>e \<in> set es. puts key Q (fst e)" and "holds_at J view r key Q"
  shows "holds_at J view (snd (on_apply J K g es r)) key Q"
  using assms
proof (induction es arbitrary: r)
  case (Cons e es)
  obtain c r1 where a: "apply_one J K g e r = (c, r1)" by fastforce
  have ok: "db_ok J view (store r)" "db_ready r" using Cons.prems by (auto simp: holds_at_def)
  from Cons.prems(1) obtain k v where k: "fst e = entry OP_PUT v" "inode_value J k = Inr v" "inode_ok k"
    "fullpath k = key \<longrightarrow> Q k" unfolding puts_def by (metis list.set_intros(1))
  obtain z where z: "apply_entry J K g (fst e) r = (z, r1)"
    using apply_one_closure(1) [of J K g "fst e" "snd e" r] a by (metis prod.collapse snd_conv)
  note ref = apply_entry_refines [OF ok(1) k(2,3), of g OP_PUT, folded k(1), unfolded z]
  have "holds_at J view r1 key Q"
  proof (cases z)
    case (Inl e)
    with action_refines_ns(1,2,4) [OF ref] Cons.prems(2) show ?thesis by (simp add: holds_at_def)
  next
    case (Inr u)
    with action_refines_ns(3) [OF ref] have "ns r1 = (ns r)(fullpath k \<mapsto> k)" by (simp add: a_put_def)
    with action_refines_ns(1,2) [OF ref] Cons.prems(2) k(4) show ?thesis by (auto simp: holds_at_def)
  qed
  with Cons.IH [of r1] Cons.prems(1) a show ?case by (cases c) (auto split: prod.splits)
qed simp

lemma renew_all_puts:
  assumes r: "holds_at J view r key Q" and renew: "\<And>i. Q i \<Longrightarrow> dumps J (update_ddl_lock (now env) i) \<Longrightarrow> Q (update_ddl_lock (now env) i)"
    and "renew_all J K env r ss = (ds, y)"
  shows "\<forall>d \<in> set ds. puts key Q d"
  using assms(3)
proof (induction ss arbitrary: ds y)
  case (Cons s ss)
  have ok: "db_ok J view (store r)" "db_ready r" using r by (auto simp: holds_at_def)
  have "puts key Q d" if "renew_entry J K env r s = Inr d" for d
  proof -
    let ?k = "a_get (ns r) (set_fullpath s (new_inode (garbage env)))"
    from that obtain v where v: "inode_value J (update_ddl_lock (now env) ?k) = Inr v" "d = entry OP_PUT v"
      by (auto simp: renew_entry_def rdb_ls_total [OF ok] res_simps split: if_splits)
    have k: "inode_ok ?k" "fullpath ?k = simplify_path s" using a_get_ok [OF ok(1) inode_ok_set_fullpath] by auto
    have "Q (update_ddl_lock (now env) ?k)" if "simplify_path s = key"
      using r that v(1) renew by (auto simp: holds_at_def a_get_def dumps_def)
    with v k show ?thesis unfolding puts_def
      by (intro exI [of _ "update_ddl_lock (now env) ?k"] exI [of _ v]) (auto simp: update_ddl_lock_def)
  qed
  with Cons show ?case by (auto split: sum.splits prod.splits)
qed simp

lemma serve_lock_holds:
  assumes r: "holds_at J view r key Q" and "serve_lock J K env paths r = (x, r')"
    and renew: "\<And>i. Q i \<Longrightarrow> dumps J (update_ddl_lock (now env) i) \<Longrightarrow> Q (update_ddl_lock (now env) i)"
  shows "holds_at J view r' key Q"
proof -
  obtain ds y where u: "update_lock J K env r paths = (ds, y)" by fastforce
  then have "\<forall>d \<in> set ds. puts key Q d"
    using renew_all_puts [OF r renew] by (auto simp: update_lock_def split: sum.splits if_splits prod.splits)
  then have "holds_at J view (snd (on_apply J K (garbage env) (map (\<lambda>d. (d, Some empty_response)) ds) r)) key Q"
    using r by (intro on_apply_puts) auto
  with assms(2) u show ?thesis by (auto simp: serve_lock_def split: prod.splits sum.splits)
qed

end

section \<open>A listed file\<close>

text \<open>The inode \<open>i\<close> is stored under the key, up to the time of its lock, and can be printed.\<close>

definition like :: "json_lib \<Rightarrow> inode \<Rightarrow> inode \<Rightarrow> bool" where
  "like J i j \<longleftrightarrow> j\<lparr>ddl_lock := 0\<rparr> = i\<lparr>ddl_lock := 0\<rparr> \<and> dumps J j"

abbreviation listed :: "json_lib \<Rightarrow> ('db \<Rightarrow> string \<rightharpoonup> string) \<Rightarrow> ('db, 'bk) rocksdb \<Rightarrow> string \<Rightarrow> inode \<Rightarrow> bool" where
  "listed J view r key i \<equiv> holds_at J view r key (like J i)"

lemma like_sel:
  assumes "like J i j"
  shows "sub j = sub i" and "filesize j = filesize i" and "storage_type_ptr j = storage_type_ptr i" and "valid j = valid i"
proof -
  have "\<And>f. f (j\<lparr>ddl_lock := 0\<rparr>) = f (i\<lparr>ddl_lock := 0\<rparr>)" using assms by (simp add: like_def)
  from this [of sub] this [of filesize] this [of storage_type_ptr] this [of valid]
  show "sub j = sub i" "filesize j = filesize i" "storage_type_ptr j = storage_type_ptr i" "valid j = valid i" by simp_all
qed

context meta_reliable
begin

lemma serve_leaves: "listed J view r key i \<Longrightarrow> leaves key req \<Longrightarrow> serve J K env req r = (x, r') \<Longrightarrow> listed J view r' key i"
  by (rule serve_holds) (auto simp: leaves_def)

lemma serve_lock_listed: "listed J view r key i \<Longrightarrow> serve_lock J K env paths r = (x, r') \<Longrightarrow> listed J view r' key i"
  by (rule serve_lock_holds) (auto simp: like_def update_ddl_lock_def)

lemma ls_listed:
  assumes "db_ok J view (store r)" and "db_ready r" and "path \<noteq> []"
    and "nn_ls J K env r path = Inr (succ_response empty_response, v)" and "inode_parse J v = Inr i" and "storage_type_ptr i = Some st"
  shows "listed J view r (simplify_path path) i \<and> valid i"
proof -
  let ?q = "set_fullpath path (new_inode (garbage env))"
  have ls: "rdb_ls J K r ?q = Inr (a_get (ns r) ?q)" "inode_value J (a_get (ns r) ?q) = Inr v" "valid (a_get (ns r) ?q)"
    using assms(3,4) rdb_ls_total [OF assms(1,2)]
    by (auto simp: nn_ls_def res_simps succ_response_def split: sum.splits if_splits dest: fail_response_not_success)
  have "inode_ok (a_get (ns r) ?q)" using a_get_ok [OF assms(1) inode_ok_set_fullpath] by blast
  then have i: "i = a_get (ns r) ?q" using inode_parse_value [OF ls(2)] assms(5) by simp
  then have "ns r (simplify_path path) = Some i"
    using ls(3) assms(6) by (auto simp: a_get_def set_fullpath_def new_inode_def split: option.splits if_splits)
  then show ?thesis using assms(1,2) ls i by (auto simp: holds_at_def like_def dumps_def)
qed

lemma listed_ls:
  assumes "listed J view r (simplify_path path) i" and "valid i" and "path \<noteq> []"
  shows "\<exists>v j. nn_ls J K env r path = Inr (succ_response empty_response, v) \<and> inode_parse J v = Inr j \<and>
    sub j = sub i \<and> filesize j = filesize i \<and> storage_type_ptr j = storage_type_ptr i"
proof -
  from assms(1) obtain j v where ok: "db_ok J view (store r)" "db_ready r"
    and n: "ns r (simplify_path path) = Some j" "inode_value J j = Inr v" and l: "like J i j"
    by (auto simp: holds_at_def like_def dumps_def)
  have "a_get (ns r) (set_fullpath path (new_inode (garbage env))) = j" using n(1) by (simp add: a_get_def)
  then have "nn_ls J K env r path = Inr (succ_response empty_response, v)"
    using rdb_ls_total [OF ok] assms(2,3) n(2) like_sel [OF l] by (simp add: nn_ls_def)
  moreover have "inode_parse J v = Inr j" using inode_parse_value [OF n(2)] ns_Some(2) [OF ok(1) n(1)] .
  ultimately show ?thesis using like_sel [OF l] by blast
qed

end

section \<open>A locked file\<close>

definition locked_until :: "nat \<Rightarrow> inode \<Rightarrow> bool" where
  "locked_until t i \<longleftrightarrow> valid i \<and> \<not> is_directory i \<and> t \<le> unat (ddl_lock i)"

text \<open>
  The traffic of other clients while a file is being written, between the times \<open>t\<close> and \<open>t + 60\<close>: any
  request but the two that end the writing of the path, and any renewal.
\<close>

fun ends_put :: "string \<Rightarrow> request \<Rightarrow> bool" where
  "ends_put key (PutOk path fsize subs) = (simplify_path path = key)"
| "ends_put key (Rm path) = (simplify_path path = key)"
| "ends_put key req = False"

inductive competing ::
    "json_lib \<Rightarrow> ('db, 'bk) kv_lib \<Rightarrow> string \<Rightarrow> nat \<Rightarrow> ('db, 'bk) rocksdb \<Rightarrow> ('db, 'bk) rocksdb \<Rightarrow> bool"
  for J K key t where
  attempt: "t \<le> unat (now env) \<Longrightarrow> unat (now env) \<le> t + 60 \<Longrightarrow> \<not> ends_put key req \<Longrightarrow>
     serve J K env req r = (x, r') \<Longrightarrow> competing J K key t r r'"
| renewal: "t \<le> unat (now env) \<Longrightarrow> unat (now env) \<le> t + 60 \<Longrightarrow> serve_lock J K env paths r = (x, r') \<Longrightarrow>
     competing J K key t r r'"

context meta_reliable
begin

lemma locked_refused:
  assumes "holds_at J view r (simplify_path path) (locked_until (t + 60))" and "unat (now env) \<le> t + 60"
  shows "\<exists>info. a_prepare env (Put path st) (ns r) = Inl (message_exception EXPECTED_LOCK_CONFLICT info)"
proof -
  from assms(1) obtain i where i: "ns r (simplify_path path) = Some i" "valid i" "\<not> is_directory i" "t + 60 \<le> unat (ddl_lock i)"
    by (auto simp: holds_at_def locked_until_def)
  have "a_get (ns r) (set_fullpath path (new_inode (garbage env))) = i" using i(1) by (simp add: a_get_def)
  moreover have "now env \<le> ddl_lock i" using i(4) assms(2) by (simp add: word_le_nat_alt)
  then obtain info where "inode_lock (now env) (i\<lparr>is_directory := False, valid := True\<rparr>) =
      Inl (message_exception EXPECTED_LOCK_CONFLICT info)"
    using inode_lock_conflict [of "now env" "i\<lparr>is_directory := False, valid := True\<rparr>"] by auto
  ultimately show ?thesis using i(3) by (auto simp: Let_def)
qed

lemma competing_keeps_lock:
  assumes "competing J K key t r r'" and l: "holds_at J view r key (locked_until (t + 60))" and t: "t + 120 < 2 ^ 64"
  shows "holds_at J view r' key (locked_until (t + 60))"
  using assms(1)
proof cases
  case (attempt env req x)
  have "req_key req \<noteq> key" if p: "a_prepare env req (ns r) = Inr (op, k)" for op k
  proof
    assume key: "req_key req = key"
    from l obtain i where i: "ns r key = Some i" "valid i" by (auto simp: holds_at_def locked_until_def)
    show False
    proof (cases req)
      case (Mkdir path)
      with p key i show False by (auto simp: Let_def a_exists_def split: if_splits)
    next
      case (Put path st)
      with locked_refused [of r path t env st] p key l attempt(2) show False by auto
    qed (use attempt(3) key in auto)
  qed
  with l attempt(4) show ?thesis by (rule serve_holds) (auto simp: locked_until_def add_sub_def erase_sub_def)
next
  case (renewal env paths x)
  from l renewal(3) show ?thesis
  proof (rule serve_lock_holds)
    fix i assume "locked_until (t + 60) i"
    moreover have "t + 60 \<le> unat (now env + 60)" using renewal(1,2) t by (simp add: unat_word_ariths)
    ultimately show "locked_until (t + 60) (update_ddl_lock (now env) i)"
      by (simp add: locked_until_def update_ddl_lock_def LOCK_REFRESH_INTERVAL_def)
  qed
qed

lemma put_locks:
  assumes "db_ok J view (store r)" and "db_ready r" and "serve J K env (Put path st) r = (Inr resp, r')" and "success resp"
    and "unat (now env) + 60 < 2 ^ 64"
  shows "holds_at J view r' (simplify_path path) (locked_until (unat (now env) + 60))"
proof -
  let ?j = "a_get (ns r) (set_fullpath path (new_inode (garbage env)))"
  from serve_success [OF assms(1,3,4)] assms(2) obtain op k where
    p: "a_prepare env (Put path st) (ns r) = Inr (op, k)" "a_apply (garbage env) op k (ns r) = Some (ns r')"
    and ok: "db_ok J view (store r')" "db_ready r'" by metis
  have key: "fullpath k = simplify_path path" using a_prepare_key [OF assms(1) p(1)] by simp
  from p(1) obtain i' s where k: "op = OP_PUT" "inode_lock (now env) (?j\<lparr>is_directory := False, valid := True\<rparr>) = Inr i'"
    "k = i'\<lparr>storage_type_ptr := Some s\<rparr>" by (auto simp: Let_def res_simps split: if_splits)
  from p(2) k(1) key have "ns r' (simplify_path path) = Some k" by (auto simp: a_put_def dest: upd_eqD)
  moreover have "locked_until (unat (now env) + 60) k"
    using k(2,3) assms(5) by (simp add: locked_until_def inode_lock_Inr LOCK_REFRESH_INTERVAL_def unat_word_ariths)
  ultimately show ?thesis using ok by (simp add: holds_at_def)
qed

end

section \<open>Properties\<close>

text \<open>
C17: A successful \<open>put\<close> locks the file: for sixty seconds, through whatever requests and renewals other
clients have served in between, in whatever order, every further \<open>put\<close> to the same path is refused with
\<open>EXPECTED_LOCK_CONFLICT\<close>, whoever sends it; only a \<open>put_ok\<close> or \<open>rm\<close> of the path ends the lock earlier.
\<close>

theorem put_locks_out:
  assumes "meta_reliable K view J" and "db_ok J view (store r)" and "db_ready r"
    and "serve J K env (Put path st) r = (Inr resp, r1)" and "success resp" and "unat (now env) + 120 < 2 ^ 64"
    and "(competing J K (simplify_path path) (unat (now env)))\<^sup>*\<^sup>* r1 r2"
    and "unat (now env') \<le> unat (now env) + 60" and "check_leader env' = Inr ()" and "path \<noteq> []"
  shows "\<exists>info. nn_handle J K env' r2 (Put path st') =
    Replied \<lparr>success = False, fail_info = \<lparr>err_code = EXPECTED_LOCK_CONFLICT, err_message = info\<rparr>\<rparr>"
proof -
  have start: "holds_at J view r1 (simplify_path path) (locked_until (unat (now env) + 60))"
    using meta_reliable.put_locks [OF assms(1-5)] assms(6) by simp
  from assms(7) have l: "holds_at J view r2 (simplify_path path) (locked_until (unat (now env) + 60))"
    by (induction rule: rtranclp_induct) (use start meta_reliable.competing_keeps_lock [OF assms(1) _ _ assms(6)] in auto)
  from meta_reliable.locked_refused [OF assms(1) l assms(8)] obtain info where
    p: "a_prepare env' (Put path st') (ns_of J view (store r2)) = Inl (message_exception EXPECTED_LOCK_CONFLICT info)" by blast
  have "db_ok J view (store r2)" "db_ready r2" using l by (auto simp: holds_at_def)
  from meta_reliable.nn_handle_spec [OF assms(1) this assms(9), of "Put path st'"] p assms(10) show ?thesis
    by (auto simp: rpc_propose_def rpc_fail_def message_exception_def empty_response_def)
qed

theorem put_locks_out_witness:
  "\<exists>r2 info. (competing text_json map_kv ''/g'' 1)\<^sup>*\<^sup>* (snd (serve text_json map_kv (leader_env 1) (Put ''/g'' ''RE<1,1>'') empty_db)) r2 \<and>
     ns_of text_json (\<lambda>m. m) (store r2) ''/x'' \<noteq> None \<and>
     nn_handle text_json map_kv (leader_env 61) r2 (Put ''/g'' ''RE<2,2>'') =
       Replied \<lparr>success = False, fail_info = \<lparr>err_code = EXPECTED_LOCK_CONFLICT, err_message = info\<rparr>\<rparr>"
proof -
  let ?s = "serve text_json map_kv (leader_env 1) (Put ''/g'' ''RE<1,1>'') empty_db"
  let ?t = "serve text_json map_kv (leader_env 40) (Mkdir ''/x'') (snd ?s)"
  have eval: "fst ?s = Inr (succ_response empty_response)" "check_leader (leader_env 61) = Inr ()" "simplify_path ''/g'' = ''/g''"
    "ns_of text_json (\<lambda>m. m) (store (snd ?t)) ''/x'' \<noteq> None"
    by code_simp+
  have s: "?s = (Inr (succ_response empty_response), snd ?s)" using eval(1) by (metis prod.collapse)
  have "competing text_json map_kv ''/g'' 1 (snd ?s) (snd ?t)"
    by (rule competing.attempt [where env = "leader_env 40" and req = "Mkdir ''/x''" and x = "fst ?t"]) (simp_all add: leader_env_def)
  then have run: "(competing text_json map_kv ''/g'' 1)\<^sup>*\<^sup>* (snd ?s) (snd ?t)" by simp
  have "(competing text_json map_kv (simplify_path ''/g'') (unat (now (leader_env 1))))\<^sup>*\<^sup>* (snd ?s) (snd ?t)"
    using run unfolding eval(3) by (simp add: leader_env_def)
  from put_locks_out [OF map_meta_reliable empty_db_ok(1,2) s _ _ this _ eval(2)] run eval(4) show ?thesis
    by (auto simp: succ_response_def leader_env_def)
qed

end
