(* ===== verification/LocalCopies.thy ===== *)
theory LocalCopies
  imports FileTransfer
begin

text \<open>
  Reading and writing an open file through the local copies of its blocks: \<open>read_data\<close> returns the
  bytes of the file whatever copies there are, and what \<open>write_data\<close> does to the copy of a block.
\<close>

section \<open>The copies of a file's blocks\<close>

definition copy_path :: "'n cluster \<Rightarrow> inode \<Rightarrow> nat \<Rightarrow> string" where
  "copy_path N inode j = get_tmp_index_path N (fullpath inode) (int j)"

text \<open>
  Every copy can be written, is absent, empty or right, shares its file with no other copy, and is not
  locked.
\<close>

definition copies_ok :: "'n cluster \<Rightarrow> inode \<Rightarrow> string list \<Rightarrow> 'n world \<Rightarrow> bool" where
  "copies_ok N inode bs w \<longleftrightarrow>
     files_ok (local w) \<and>
     (\<forall>j < length bs.
        \<not> denied (local w) (copy_path N inode j) \<and> fs_find (local w) (copy_path N inode j) \<noteq> Some FDir \<and>
        (fs_find (local w) (copy_path N inode j) = None \<longrightarrow> fs_is_directory (local w) (path_parent (copy_path N inode j))) \<and>
        fs_data (local w) (copy_path N inode j) \<in> {None, Some [], Some (bs ! j)} \<and>
        pathlocks w (copy_path N inode j) \<in> {None, Some (True, free_mutex)}) \<and>
     (\<forall>j < length bs. \<forall>k < length bs. \<forall>n. fs_find (local w) (copy_path N inode j) = Some (FFile n) \<longrightarrow>
        fs_find (local w) (copy_path N inode k) = Some (FFile n) \<longrightarrow> j = k)"

text \<open>A block that decodes from its placement text whenever it is asked for.\<close>

definition decodable :: "'n cluster \<Rightarrow> storage_type \<Rightarrow> 'n world \<Rightarrow> string \<Rightarrow> string \<Rightarrow> bool" where
  "decodable N st w s b \<longleftrightarrow> (\<forall>w'. disks w' = disks w \<longrightarrow> (\<exists>w''. decode_one N st s w' = (Inr b, w'') \<and> disks w'' = disks w))"

lemma stored_decodable:
  assumes "storage_codec (ec N) st" and "stored N st w s b" and "getDecodeBlocks st \<le> int (length (decode_one_sub s))"
    and "\<forall>c. fate N c = Delivered"
  shows "decodable N st w s b"
  unfolding decodable_def
proof (intro allI impI)
  fix w' :: "'a world"
  assume d: "disks w' = disks w"
  then have "recoverable N st UNIV w' s b"
    using stored_recoverable [OF assms(2,3)] recoverable_disks by metis
  from recoverable_decode [OF assms(1) this] assms(4) d
  show "\<exists>w''. decode_one N st s w' = (Inr b, w'') \<and> disks w'' = disks w" by metis
qed

lemma copy_path_inject:
  assumes "j < 2 ^ 32" and "k < 2 ^ 32" and "copy_path N inode j = copy_path N inode k"
  shows "j = k"
proof -
  from assms(3) have "index_name (int j) = index_name (int k)" by (simp add: copy_path_def get_tmp_index_path_def)
  moreover have "nat (int j mod 2 ^ 32) = j" "nat (int k mod 2 ^ 32) = k" using assms(1,2) by (simp_all add: nat_mod_as_int)
  ultimately show ?thesis using nat_of_digits_string_of_nat by (simp only: index_name_def) metis
qed

lemma cached_block_none:
  assumes "fs_data (local w) p \<in> {None, Some []}" and "fs_find (local w) p \<noteq> Some FDir"
  shows "cached_block p w = (Inr None, w)"
  using assms
  by (auto simp: cached_block_def bindE_def getE_def retE_def on_local_def onE_def fs_exists_def fs_data_def
      fs_file_size_def split: option.splits fnode.splits)

lemma cached_block_some:
  assumes "fs_data (local w) p = Some b" and "b \<noteq> []" and "length b < 2 ^ 31" and "\<not> denied (local w) p"
  shows "cached_block p w = (Inr (Some b), w)"
  using assms read_file_Inr [OF assms(1,3,4)]
  by (auto simp: cached_block_def bindE_def getE_def retE_def on_local_def onE_def fs_exists_def fs_data_def
      fs_file_size_def split: option.splits fnode.splits)

text \<open>Writing the copy of block \<open>j\<close> afresh keeps the copies right.\<close>

lemma copies_ok_write:
  assumes ok: "copies_ok N inode bs w" and j: "j < length bs" and len: "length bs \<le> 2 ^ 32"
    and o: "open_out False (copy_path N inode j) (local w) = (h, F1)"
  shows "\<exists>n. h = Some n \<and>
    (\<forall>locks. locks (copy_path N inode j) = Some (True, free_mutex) \<longrightarrow>
       (\<forall>p. p \<noteq> copy_path N inode j \<longrightarrow> locks p = pathlocks w p) \<longrightarrow>
       (\<forall>w'. local w' = write_out n (bs ! j) F1 \<longrightarrow> pathlocks w' = locks \<longrightarrow> copies_ok N inode bs w'))"
proof -
  let ?p = "copy_path N inode"
  have fok: "files_ok (local w)" using ok by (simp add: copies_ok_def)
  have per: "\<not> denied (local w) (?p k)" "fs_find (local w) (?p k) \<noteq> Some FDir"
    "fs_find (local w) (?p k) = None \<longrightarrow> fs_is_directory (local w) (path_parent (?p k))"
    "fs_data (local w) (?p k) \<in> {None, Some [], Some (bs ! k)}"
    "pathlocks w (?p k) \<in> {None, Some (True, free_mutex)}" if "k < length bs" for k
    using ok that by (auto simp: copies_ok_def)
  have unalias: "i = k" if "i < length bs" "k < length bs" "fs_find (local w) (?p i) = Some (FFile n)"
    "fs_find (local w) (?p k) = Some (FFile n)" for i k n
    using ok that unfolding copies_ok_def by blast
  have inj: "?p i = ?p k \<longleftrightarrow> i = k" if "i < length bs" "k < length bs" for i k
    using copy_path_inject [of i k N inode] that len by auto
  from o per(1-3) [OF j] obtain n where h: "h = Some n"
    and n: "fs_find (local w) (?p j) = Some (FFile n) \<or> fs_find (local w) (?p j) = None \<and> n = next_ino (local w)"
    by (auto simp: open_out_def split: if_splits option.splits fnode.splits)
  have find: "fs_find (write_out n b F1) q = (if q = ?p j then Some (FFile n) else fs_find (local w) q)" for q b
    using open_out_find [OF o, of q] h n by auto
  have less: "m < next_ino (local w)" if "fs_find (local w) q = Some (FFile m)" for q m
    using fok fs_find_file [OF that] by (auto simp: files_ok_def)
  have other: "fs_find (local w) (?p k) \<noteq> Some (FFile n)" if "k < length bs" "k \<noteq> j" for k
    using n unalias [OF j that(1)] less [of "?p k" n] that(2) by auto
  note wr = open_write_data [where s = "bs ! j", OF fok o [unfolded h]]
  have "copies_ok N inode bs w'"
    if lk: "locks (?p j) = Some (True, free_mutex)" "\<forall>p. p \<noteq> ?p j \<longrightarrow> locks p = pathlocks w p"
      and w': "local w' = write_out n (bs ! j) F1" "pathlocks w' = locks" for w' :: "'a world" and locks
  proof -
    have "files_ok (local w')" using w'(1) files_ok_open [OF fok o] by simp
    moreover have "\<not> denied (local w') (?p k) \<and> fs_find (local w') (?p k) \<noteq> Some FDir \<and>
        (fs_find (local w') (?p k) = None \<longrightarrow> fs_is_directory (local w') (path_parent (?p k))) \<and>
        fs_data (local w') (?p k) \<in> {None, Some [], Some (bs ! k)} \<and> pathlocks w' (?p k) \<in> {None, Some (True, free_mutex)}"
      if k: "k < length bs" for k
    proof (cases "k = j")
      case True
      with wr per(1) [OF k] lk w' find show ?thesis by simp
    next
      case False
      then have ne: "?p k \<noteq> ?p j" using inj [OF k j] by simp
      have "fs_is_directory (local w') q" if "fs_is_directory (local w) q" for q
        using that find [of q] n w'(1) per(2) [OF j] by (auto simp: fs_is_directory_def)
      with per [OF k] ne wr(2) [OF other [OF k False] ne] wr(3) find w' lk(2) show ?thesis by simp
    qed
    moreover have "i = k" if "i < length bs" "k < length bs" "fs_find (local w') (?p i) = Some (FFile m)"
      "fs_find (local w') (?p k) = Some (FFile m)" for i k m
      using that find w'(1) unalias [OF that(1,2)] other inj [OF that(1) j] inj [OF that(2) j] by (auto split: if_splits)
    ultimately show ?thesis unfolding copies_ok_def by blast
  qed
  with h show ?thesis by blast
qed

lemma read_block_copies:
  assumes ok: "copies_ok N inode bs w" and j: "j < length bs" and len: "length bs \<le> 2 ^ 32"
    and st: "storage_type_ptr inode = Some st" and dec: "decodable N st w s (bs ! j)"
    and b: "bs ! j \<noteq> []" "length (bs ! j) < 2 ^ 31"
  shows "\<exists>w'. read_block N inode (int j) s w = (Inr (bs ! j), w') \<and> copies_ok N inode bs w' \<and> disks w' = disks w \<and>
    local_inode_cache w' = local_inode_cache w"
proof -
  let ?p = "copy_path N inode j"
  have per: "\<not> denied (local w) ?p" "fs_find (local w) ?p \<noteq> Some FDir"
    "fs_data (local w) ?p \<in> {None, Some [], Some (bs ! j)}" "pathlocks w ?p \<in> {None, Some (True, free_mutex)}"
    using ok j by (auto simp: copies_ok_def)
  show ?thesis
  proof (cases "fs_data (local w) ?p = Some (bs ! j)")
    case True
    with cached_block_some [OF _ b per(1)] ok show ?thesis
      by (simp add: read_block_def Let_def bindE_def retE_def copy_path_def)
  next
    case False
    with per(3) have none: "fs_data (local w) ?p \<in> {None, Some []}" by blast
    let ?held = "(pathlocks w)(?p \<mapsto> (True, \<lparr>exclusive = True, sharers = 0\<rparr>))"
    let ?w1 = "w\<lparr>pathlocks := ?held\<rparr>"
    have lk: "on_locks (pl_write_lock ?p) w = (Inr (), ?w1)"
      using per(4) by (auto simp: on_locks_def onE_def pl_write_lock_def ensure_lock_def free_mutex_def)
    obtain h F1 where o: "open_out False ?p (local w) = (h, F1)" by fastforce
    from copies_ok_write [OF ok j len o] obtain n where h: "h = Some n" and
      fin: "\<And>locks w'. locks ?p = Some (True, free_mutex) \<Longrightarrow> (\<forall>p. p \<noteq> ?p \<longrightarrow> locks p = pathlocks w p) \<Longrightarrow>
        local w' = write_out n (bs ! j) F1 \<Longrightarrow> pathlocks w' = locks \<Longrightarrow> copies_ok N inode bs w'" by blast
    have "disks (?w1\<lparr>local := F1\<rparr>) = disks w" by simp
    with dec obtain w2 where d: "decode_one N st s (?w1\<lparr>local := F1\<rparr>) = (Inr (bs ! j), w2)" "disks w2 = disks w"
      unfolding decodable_def by blast
    from same_client_decode [OF d(1)] have w2: "pathlocks w2 = ?held" "local w2 = F1" "local_inode_cache w2 = local_inode_cache w"
      by (simp_all add: same_client_def)
    let ?w3 = "w2\<lparr>local := write_out n (bs ! j) F1, pathlocks := (pathlocks w)(?p \<mapsto> (True, free_mutex))\<rparr>"
    have ul: "on_locks (pl_unlock ?p) (w2\<lparr>local := write_out n (bs ! j) F1\<rparr>) = (Inr (), ?w3)"
      using w2(1) by (simp add: on_locks_def onE_def pl_unlock_def free_mutex_def)
    have "read_block N inode (int j) s w = (Inr (bs ! j), ?w3)"
      using cached_block_none [OF none per(2)] cached_block_none [of ?w1 ?p] none per(2) lk o h d(1) w2(2) ul st
      by (simp add: read_block_def Let_def copy_path_def bindE_def thenE_def retE_def liftE_def deref_def
          on_local_def onE_def modifyE_def)
    moreover have "copies_ok N inode bs ?w3" by (rule fin [of "pathlocks ?w3"]) simp_all
    ultimately show ?thesis using d(2) w2(3) by auto
  qed
qed

section \<open>Reading\<close>

lemma read_loop_copies:
  assumes "copies_ok N inode bs w" and "a \<le> length bs" and "length bs \<le> 2 ^ 32" and "storage_type_ptr inode = Some st"
    and "length (sub inode) = length bs" and "\<forall>j < length bs. decodable N st w (sub inode ! j) (bs ! j)"
    and "\<forall>b \<in> set bs. length b = bsz" and "0 < bsz" and "bsz < 2 ^ 31" and "inode_block_size inode = int bsz"
    and "(a + n - length bs) * bsz < 2 ^ 31"
  shows "\<exists>w'. read_loop N inode n (int a) (drop a (sub inode)) w =
      (Inr (concat (take n (drop a bs)) @ replicate ((a + n - length bs) * bsz) (CHR 0x00)), w') \<and>
    copies_ok N inode bs w' \<and> disks w' = disks w \<and> local_inode_cache w' = local_inode_cache w"
  using assms(1,2,6,11)
proof (induction n arbitrary: a w)
  case 0
  then show ?case by (simp add: retE_def)
next
  case (Suc n)
  show ?case
  proof (cases "a < length bs")
    case False
    then have "a = length bs" using Suc.prems(2) by simp
    moreover have "to_int32 (int (Suc n) * inode_block_size inode) = int (Suc n * bsz)"
      using Suc.prems(4) assms(10) calculation by (simp add: to_int32_id flip: of_nat_mult of_nat_Suc)
    ultimately show ?thesis
      using Suc.prems(1) assms(5) by (simp add: Let_def retE_def del: of_nat_Suc of_nat_mult)
  next
    case a: True
    have subs: "drop a (sub inode) = sub inode ! a # drop (Suc a) (sub inode)" using a assms(5) by (simp add: Cons_nth_drop_Suc)
    have blk: "bs ! a \<noteq> []" "length (bs ! a) < 2 ^ 31" using a assms(7,8,9) by (metis length_greater_0_conv nth_mem)+
    from Suc.prems(3) a have "decodable N st w (sub inode ! a) (bs ! a)" by blast
    from read_block_copies [OF Suc.prems(1) a assms(3,4) this blk] obtain w1 where
      r: "read_block N inode (int a) (sub inode ! a) w = (Inr (bs ! a), w1)" "copies_ok N inode bs w1" "disks w1 = disks w"
      "local_inode_cache w1 = local_inode_cache w" by blast
    have dec: "\<forall>j < length bs. decodable N st w1 (sub inode ! j) (bs ! j)" using Suc.prems(3) r(3) by (simp add: decodable_def)
    have "(Suc a + n - length bs) * bsz < 2 ^ 31" using Suc.prems(4) by simp
    from Suc.IH [OF r(2) _ dec this] a obtain w2 where
      l: "read_loop N inode n (int (Suc a)) (drop (Suc a) (sub inode)) w1 =
        (Inr (concat (take n (drop (Suc a) bs)) @ replicate ((Suc a + n - length bs) * bsz) (CHR 0x00)), w2)"
      "copies_ok N inode bs w2" "disks w2 = disks w1" "local_inode_cache w2 = local_inode_cache w1" by auto
    have "take (Suc n) (drop a bs) = bs ! a # take n (drop (Suc a) bs)" using a by (simp flip: Cons_nth_drop_Suc)
    then show ?thesis
      unfolding subs using r l by (simp add: bindE_def retE_def add.commute [of 1])
  qed
qed

text \<open>Blocks of one size as slices of their concatenation.\<close>

lemma concat_uniform:
  assumes "\<forall>b \<in> set bs. length b = n"
  shows "concat (take m bs) = take (m * n) (concat bs)" and "concat (drop m bs) = drop (m * n) (concat bs)"
    and "length (concat bs) = length bs * n"
  using assms
proof (induction bs arbitrary: m)
  case (Cons b bs)
  case 1 then show ?case using Cons by (cases m) auto
  case 2 then show ?case using Cons by (cases m) auto
  case 3 then show ?case using Cons by simp
qed simp_all

lemma slice_of_blocks:
  fixes bsz :: nat
  assumes "\<forall>b \<in> set bs. length b = bsz" and "0 < bsz" and "off + len \<le> length bs * bsz"
    and "a = off div bsz" and "n = (off + len) div bsz + 1 - a"
  shows "take len (drop (off - a * bsz) (concat (take n (drop a bs)) @ z)) = take len (drop off (concat bs))"
    and "off - a * bsz + len \<le> length (concat (take n (drop a bs)))"
proof -
  have ab: "a * bsz \<le> off" using assms(4) by simp
  have "off + len < ((off + len) div bsz + 1) * bsz" using dividend_less_times_div [OF assms(2)] by (simp add: algebra_simps)
  moreover have "a \<le> (off + len) div bsz" using assms(4) by (simp add: div_le_mono)
  ultimately have nb: "off + len < (a + n) * bsz" using assms(5) by simp
  have u: "\<forall>b \<in> set (drop a bs). length b = bsz" using assms(1) by (auto dest: in_set_dropD)
  have c: "concat (take n (drop a bs)) = take (n * bsz) (drop (a * bsz) (concat bs))"
    using concat_uniform(1) [OF u] concat_uniform(2) [OF assms(1)] by simp
  have "length (concat (take n (drop a bs))) = min (n * bsz) (length bs * bsz - a * bsz)"
    unfolding c using concat_uniform(3) [OF assms(1)] by simp
  then show l: "off - a * bsz + len \<le> length (concat (take n (drop a bs)))"
    using assms(3) nb ab by (simp add: algebra_simps) linarith
  have "take len (drop (off - a * bsz) (concat (take n (drop a bs)) @ z)) = take len (drop (off - a * bsz) (concat (take n (drop a bs))))"
    using l by simp
  also have "\<dots> = take len (drop off (concat bs))"
    unfolding c using nb ab by (simp add: drop_take min_def algebra_simps)
  finally show "take len (drop (off - a * bsz) (concat (take n (drop a bs)) @ z)) = take len (drop off (concat bs))" .
qed

lemma uint_int_unat: "uint (x :: u64) = int (unat x)"
  by simp

text \<open>The part of a read that lies within the file.\<close>

lemma clip_read:
  fixes fsz offset len :: u64
  assumes "unat offset + unat len < 2 ^ 64" and "\<not> fsz < offset"
  shows "unat (if fsz < offset + len then fsz - offset else len) = min (unat len) (unat fsz - unat offset)"
proof -
  have "unat (offset + len) = unat offset + unat len" using assms(1) by (simp add: unat_add_lem [THEN iffD1])
  moreover have "unat (fsz - offset) = unat fsz - unat offset" using assms(2) by (simp add: unat_sub not_less)
  ultimately show ?thesis using assms(2) by (auto simp: word_less_nat_alt)
qed

lemma read_blocks_nat:
  "a \<le> b \<Longrightarrow> a \<le> length (sub inode) \<Longrightarrow>
     read_blocks N inode (int a, int b) = read_loop N inode (b - a) (int a) (drop a (sub inode))"
  by (simp add: read_blocks_def nat_diff_distrib')

lemma align_nat:
  assumes "1 < bsz" and "n < 2 ^ 31"
  shows "to_int32 (int n) = int n" and "align_index_down (int n) (int bsz) = Inr (int (n div bsz))"
    and "align_index_up (int n) (int bsz) = Inr (int (n div bsz + 1))"
  using assms by (simp_all add: to_int32_id align_index_down_div align_index_up_div zdiv_int)

lemma get_indexs_exact:
  assumes "inode_block_size inode = int bsz" and "1 < bsz" and "unat offset + unat len < 2 ^ 31"
  shows "get_indexs inode offset len =
    Inr (int (unat offset div bsz), int ((unat offset + unat len) div bsz + 1))"
proof -
  have "unat (offset + len) = unat offset + unat len" using assms(3) by (simp add: unat_add_lem [THEN iffD1])
  moreover have "unat offset < 2 ^ 31" using assms(3) by linarith
  ultimately show ?thesis
    unfolding get_indexs_def assms(1) uint_int_unat
    by (simp only: align_nat [OF assms(2)] assms(3) rbind.simps rmap.simps)
qed

text \<open>An open file of one block, which one datanode holds and of which there is no local copy.\<close>

definition read_inode :: inode where
  "read_inode =
     \<lparr>fullpath = ''/f'', is_directory = False, filesize = 100, storage_type_ptr = Some (RE 1 1), sub = [''a:1|h''],
      valid = True, ddl_lock = 0\<rparr>"

definition read_world :: "((string \<rightharpoonup> string, (string \<rightharpoonup> string) list) rocksdb) world" where
  "read_world =
     \<lparr>dn_stubs = [''a:1''], pathlocks = Map.empty, remoteLocks = [], local_inode_cache = [''/f'' \<mapsto> read_inode],
      local = \<lparr>names = [(''/tmp/spkdfs/fuse/m'', FDir)], contents = (\<lambda>_. []), next_ino = 0, denied = (\<lambda>_. False)\<rparr>,
      disks = (\<lambda>_. \<lparr>names = [(''/d/blk_h'', FFile 0), (''/d'', FDir)], contents = (\<lambda>_. replicate 1048576 (CHR ''a'')),
                   next_ino = 1, denied = (\<lambda>_. False)\<rparr>),
      namenodes = empty_db, calls = 0\<rparr>"

text \<open>The blocks around a range of an open file, and where in them the range starts.\<close>

lemma read_blocks_range:
  assumes c: "copies_ok N inode bs w" "storage_type_ptr inode = Some st" "length (sub inode) = length bs"
      "\<forall>j < length bs. decodable N st w (sub inode ! j) (bs ! j)"
    and bsz: "inode_block_size inode = int bsz" "1 < bsz" "\<forall>b \<in> set bs. length b = bsz"
    and lim: "length bs * bsz + bsz < 2 ^ 31" and ol: "off + len \<le> length bs * bsz"
  defines "a \<equiv> off div bsz"
  obtains s w' where "read_blocks N inode (int a, int ((off + len) div bsz + 1)) w = (Inr s, w')"
    and "copies_ok N inode bs w'" and "disks w' = disks w" and "off - a * bsz + len \<le> length s"
    and "take len (drop (off - a * bsz) s) = take len (drop off (concat bs))"
proof -
  let ?b = "(off + len) div bsz + 1"
  have "length bs * 1 \<le> length bs * bsz" using bsz(2) by (intro mult_left_mono) auto
  then have "length bs < 2 ^ 31" using lim by linarith
  then have L: "length bs \<le> 2 ^ 32" by simp
  have "(off + len) div bsz \<le> length bs" using div_le_mono [OF ol, of bsz] bsz(2) by simp
  moreover have "a \<le> (off + len) div bsz" unfolding a_def by (intro div_le_mono) simp
  ultimately have ab: "a \<le> length bs" "a \<le> ?b" "a + (?b - a) - length bs \<le> 1" by linarith+
  have "(a + (?b - a) - length bs) * bsz \<le> 1 * bsz" by (rule mult_right_mono [OF ab(3)]) simp
  then have "(a + (?b - a) - length bs) * bsz < 2 ^ 31" using lim by linarith
  from read_loop_copies [OF c(1) ab(1) L c(2-4) bsz(3) _ _ bsz(1) this] bsz(2) lim obtain w' where
    r: "read_loop N inode (?b - a) (int a) (drop a (sub inode)) w =
      (Inr (concat (take (?b - a) (drop a bs)) @ replicate ((a + (?b - a) - length bs) * bsz) (CHR 0x00)), w')"
    "copies_ok N inode bs w'" "disks w' = disks w" by (auto simp del: Suc_diff_le)
  have "0 < bsz" using bsz(2) by simp
  note sl = slice_of_blocks [OF bsz(3) this ol refl refl, folded a_def]
  from r(1) have "read_blocks N inode (int a, int ?b) w =
      (Inr (concat (take (?b - a) (drop a bs)) @ replicate ((a + (?b - a) - length bs) * bsz) (CHR 0x00)), w')"
    unfolding read_blocks_nat [OF ab(2) ab(1) [folded c(3)]] .
  then show thesis using r(2,3) _ sl(1) by (rule that) (simp only: length_append trans_le_add1 [OF sl(2)])
qed

text \<open>The start of the first block, as the code computes it.\<close>

lemma block_start:
  assumes "inode_block_size inode = int bsz" "1 < bsz" and "unat offset < 2 ^ 31"
  shows "uint offset - to_int32 (int (unat offset div bsz) * inode_block_size inode) =
    int (unat offset - unat offset div bsz * bsz)"
proof -
  have le: "unat offset div bsz * bsz \<le> unat offset" by simp
  then have "unat offset div bsz * bsz < 2 ^ 31" using assms(3) by (rule le_less_trans)
  then have "to_int32 (int (unat offset div bsz * bsz)) = int (unat offset div bsz * bsz)"
    by (rule align_nat(1) [OF assms(2)])
  with le show ?thesis unfolding assms(1) uint_int_unat by (simp add: of_nat_diff)
qed

section \<open>Properties\<close>

text \<open>
C9: Reading an open file returns its bytes: for every offset and length, with any mix of correct, empty and
missing local copies of its blocks, \<open>read_data\<close> returns exactly the bytes of the file from the offset
on, up to the length and the end of the file, and leaves correct copies.  The blocks have one size and
the file is below 2 GB.
\<close>

theorem read_data_exact:
  assumes "local_inode_cache w path = Some inode" and "storage_type_ptr inode = Some st" and "1 < st_block_size st"
    and "length (sub inode) = length bs" and "\<forall>b \<in> set bs. int (length b) = st_block_size st"
    and "\<forall>j < length bs. decodable N st w (sub inode ! j) (bs ! j)" and "copies_ok N inode bs w"
    and "unat (filesize inode) \<le> length (concat bs)" and "int (length (concat bs)) + st_block_size st < 2 ^ 31"
    and "unat offset + unat len < 2 ^ 64"
  shows "\<exists>w'. read_data N path offset len w =
      (Inr (take (unat len) (drop (unat offset) (take (unat (filesize inode)) (concat bs)))), w') \<and>
    copies_ok N inode bs w' \<and> disks w' = disks w"
proof -
  define bsz where "bsz = nat (st_block_size st)"
  have bsz: "inode_block_size inode = int bsz" "1 < bsz" "\<forall>b \<in> set bs. length b = bsz"
    using assms(2,3,5) by (auto simp: bsz_def inode_block_size_def)
  have tot: "length (concat bs) = length bs * bsz" by (rule concat_uniform(3) [OF bsz(3)])
  have "int bsz = st_block_size st" using assms(3) by (simp add: bsz_def)
  with assms(9) tot have "int (length bs * bsz + bsz) < 2 ^ 31" by simp
  then have lim: "length bs * bsz + bsz < 2 ^ 31" by (simp flip: of_nat_mult of_nat_add)
  have gi: "sdk_get_inode path w = (Inr inode, w)"
    using assms(1) by (simp add: sdk_get_inode_def bindE_def getE_def retE_def)
  show ?thesis
  proof (cases "filesize inode < offset")
    case True
    with gi assms(7) show ?thesis by (simp add: read_data_def bindE_def retE_def word_less_nat_alt)
  next
    case False
    let ?len = "if filesize inode < offset + len then filesize inode - offset else len"
    let ?o = "unat offset" and ?l = "min (unat len) (unat (filesize inode) - unat offset)"
    have l: "unat ?len = ?l" by (rule clip_read [OF assms(10) False])
    have ol: "?o + ?l \<le> length bs * bsz" using False assms(8) tot by (simp add: word_less_nat_alt)
    have ix: "get_indexs inode offset ?len = Inr (int (?o div bsz), int ((?o + ?l) div bsz + 1))"
      using get_indexs_exact [OF bsz(1,2), of offset ?len] ol lim l by simp
    obtain s w' where r: "read_blocks N inode (int (?o div bsz), int ((?o + ?l) div bsz + 1)) w = (Inr s, w')"
      "copies_ok N inode bs w'" "disks w' = disks w" "?o - ?o div bsz * bsz + ?l \<le> length s"
      "take ?l (drop (?o - ?o div bsz * bsz) s) = take ?l (drop ?o (concat bs))"
      by (rule read_blocks_range [OF assms(7,2,4,6) bsz lim ol])
    have "?o < 2 ^ 31" using ol lim by linarith
    note pos = block_start [OF bsz(1,2) this]
    have fits: "int (?o - ?o div bsz * bsz) + uint ?len \<le> int (length s)"
      using r(4) unfolding uint_int_unat l by (simp only: of_nat_add [symmetric] of_nat_le_iff)
    have "take ?l (drop (?o - ?o div bsz * bsz) s) = take (unat len) (drop ?o (take (unat (filesize inode)) (concat bs)))"
      unfolding r(5) by (simp add: drop_take)
    then have "read_data N path offset len w =
        (Inr (take (unat len) (drop ?o (take (unat (filesize inode)) (concat bs)))), w')"
      using False fits
      by (simp only: read_data_def bindE_def gi sum.case prod.case if_False Let_def liftE_def ix r(1) fst_conv pos
          of_nat_less_0_iff not_less [symmetric] simp_thms retE_def nat_int l)
    with r(2,3) show ?thesis by blast
  qed
qed

theorem read_data_exact_witness:
  "\<exists>w'. read_data file_cluster ''/f'' 3 2 read_world = (Inr (replicate 2 (CHR ''a'')), w')"
proof -
  let ?B = "replicate 1048576 (CHR ''a'')"
  have bsz: "st_block_size (RE 1 1) = 1048576" by (simp add: st_block_size_def to_int32_id)
  have paths: "get_tmp_index_path file_cluster ''/f'' 0 = ''/tmp/spkdfs/fuse/m/0''"
    "path_parent ''/tmp/spkdfs/fuse/m/0'' = ''/tmp/spkdfs/fuse/m''" by code_simp+
  have sub1: "decode_one_sub ''a:1|h'' = [(''a:1'', ''h'')]" by code_simp
  have enc: "st_encode E (RE 1 1) B = Inr [B]" for E B by simp
  have "placed file_cluster read_world (''a:1'', ''h'') ?B"
    by (simp add: placed_def holds_block_def read_world_def fs_data_def fs_find_def block_path_def del: replicate.simps)
  then have st: "stored file_cluster (RE 1 1) read_world ''a:1|h'' ?B"
    unfolding stored_def sub1 by (intro exI [of _ "[?B]"]) (simp add: enc del: replicate.simps st_encode.simps)
  have dec: "decodable file_cluster (RE 1 1) read_world ''a:1|h'' ?B"
    by (rule stored_decodable [OF storage_codec_RE st]) (simp_all add: sub1)
  have ok: "copies_ok file_cluster read_inode [?B] read_world"
    by (simp add: copies_ok_def copy_path_def read_inode_def paths read_world_def files_ok_def fs_find_def fs_data_def
        fs_is_directory_def del: replicate.simps)
  have "\<exists>w'. read_data file_cluster ''/f'' 3 2 read_world =
      (Inr (take (unat (2 :: u64)) (drop (unat (3 :: u64)) (take (unat (filesize read_inode)) (concat [?B])))), w') \<and>
      copies_ok file_cluster read_inode [?B] w' \<and> disks w' = disks read_world"
    by (rule read_data_exact [where st = "RE 1 1"])
      (use dec ok in \<open>simp_all add: read_inode_def bsz del: replicate.simps, simp add: read_world_def read_inode_def\<close>)
  then show ?thesis by (auto simp: read_inode_def drop_take min_def simp del: replicate.simps)
qed

lemma map_of_filter_fst: "map_of (filter (\<lambda>e. fst e \<noteq> k) xs) q = (if q = k then None else map_of xs q)"
  by (induction xs) auto

lemma link_copy:
  assumes "fs_find F target = Some (FFile n)" and "target \<noteq> link" and "fs_find F link \<noteq> Some FDir"
    and "\<not> denied F link" and "fs_is_directory F (path_parent link)"
  shows "\<exists>F'. thenE (fs_remove link) (fs_create_hard_link target link) F = (Inr (), F') \<and> contents F' = contents F \<and>
    denied F' = denied F \<and> (\<forall>q. fs_find F' q = (if q = link then Some (FFile n) else fs_find F q)) \<and>
    set (names F') \<subseteq> insert (link, FFile n) (set (names F)) \<and> (files_ok F \<longrightarrow> files_ok F')"
proof -
  let ?G = "F\<lparr>names := filter (\<lambda>e. fst e \<noteq> link) (names F)\<rparr>"
  let ?H = "?G\<lparr>names := (link, FFile n) # names ?G\<rparr>"
  have root: "link \<noteq> ''/''" using assms(3) by (auto simp: fs_find_def)
  then have g: "fs_find ?G q = (if q = link then None else fs_find F q)" for q
    by (simp add: fs_find_def map_of_filter_fst)
  have "path_parent link \<noteq> link" using assms(3,5) by (auto simp: fs_is_directory_def)
  then have t: "fs_find ?G target = Some (FFile n)" "fs_find ?G link = None" "fs_is_directory ?G (path_parent link)"
    using g assms(1,2,5) by (simp_all add: fs_is_directory_def)
  have r: "fs_remove link F = (Inr (), ?G)" using assms(3) by (simp add: fs_remove_def)
  have c: "fs_create_hard_link target link ?G = (Inr (), ?H)"
    using t assms(4) by (simp add: fs_create_hard_link_def fs_exists_def)
  have h: "fs_find ?H q = (if q = link then Some (FFile n) else fs_find F q)" for q
    using g [of q] root by (auto simp: fs_find_def)
  have "files_ok F \<longrightarrow> files_ok ?H" using files_ok_update(1) [OF _ r] files_ok_update(3) [OF _ c] by blast
  with r c h show ?thesis by (intro exI [of _ ?H]) (auto simp: thenE_def bindE_def)
qed

lemma word_sizes:
  fixes offset :: u64
  assumes "unat offset + l < 2 ^ 31" and "bsz < 2 ^ 31"
  shows "unat (word_of_int (int bsz) :: u64) = bsz" and "unat (offset mod word_of_int (int bsz)) = unat offset mod bsz"
    and "unat ((offset + of_nat l) mod word_of_int (int bsz)) = (unat offset + l) mod bsz"
proof -
  show b: "unat (word_of_int (int bsz) :: u64) = bsz" using assms(2) by (simp add: unat_of_nat)
  show "unat (offset mod word_of_int (int bsz)) = unat offset mod bsz" by (simp only: unat_mod b)
  have l: "unat (of_nat l :: u64) = l" using assms(1) by (simp add: unat_of_nat)
  then have "unat offset + unat (of_nat l :: u64) < 2 ^ LENGTH(64)" using assms(1) by simp
  then have "unat (offset + of_nat l) = unat offset + unat (of_nat l :: u64)" by (simp only: unat_add_lem)
  then have "unat (offset + of_nat l) = unat offset + l" by (simp only: l)
  then show "unat ((offset + of_nat l) mod word_of_int (int bsz)) = (unat offset + l) mod bsz" by (simp only: unat_mod b)
qed

lemma same_block_size:
  fixes offset :: u64
  assumes "(unat offset + l) div bsz = unat offset div bsz" and "unat offset + l < 2 ^ 31" and "0 < bsz" and "bsz < 2 ^ 31"
  shows "unat ((offset + of_nat l) mod word_of_int (int bsz) - offset mod word_of_int (int bsz)) = l"
proof -
  have "unat offset div bsz * bsz + (unat offset + l) mod bsz = unat offset + l"
    using div_mult_mod_eq [of "unat offset + l" bsz] unfolding assms(1) .
  then have "(unat offset + l) mod bsz = unat offset mod bsz + l"
    using div_mult_mod_eq [of "unat offset" bsz] by linarith
  then show ?thesis using word_sizes(2,3) [OF assms(2,4)] by (simp add: unat_sub word_le_nat_alt)
qed

text \<open>The open file with a local copy of its block.\<close>

definition write_world :: "((string \<rightharpoonup> string, (string \<rightharpoonup> string) list) rocksdb) world" where
  "write_world = read_world\<lparr>local :=
     \<lparr>names = [(''/tmp/spkdfs/fuse/m/write'', FDir), (''/tmp/spkdfs/fuse/m/0'', FFile 0), (''/tmp/spkdfs/fuse/m'', FDir)],
      contents = (\<lambda>_. ''abcdef''), next_ino = 1, denied = (\<lambda>_. False)\<rparr>\<rparr>"

text \<open>
C37: Overwriting within a block does not overwrite: when the local copy of the block is there, writing
bytes inside that block appends them to the copy, wherever in the block they were to go; the stream is
open for appending, which makes the seek to the position ineffective.
\<close>

theorem write_data_appends:
  assumes "local_inode_cache w path = Some inode" and "fullpath inode = path" and "inode_block_size inode = int bsz"
    and "1 < bsz" and "bsz < 2 ^ 31" and "unat offset + length s < 2 ^ 31"
    and "j = unat offset div bsz" and "(unat offset + length s) div bsz = j" and "j < length (sub inode)"
    and "fs_find (local w) (get_tmp_index_path N path (int j)) = Some (FFile n)" and "contents (local w) n = b"
    and "b \<noteq> []" and "length b < 2 ^ 31" and "\<not> denied (local w) (get_tmp_index_path N path (int j))"
    and "link = get_tmp_write_path N path @ ''/'' @ index_name (int j)" and "get_tmp_index_path N path (int j) \<noteq> link"
    and "fs_find (local w) link \<noteq> Some FDir" and "\<not> denied (local w) link"
    and "fs_is_directory (local w) (path_parent link)"
  shows "\<exists>w'. write_data N path offset s w = (Inr (), w') \<and>
    fs_data (local w') (get_tmp_index_path N path (int j)) = Some (b @ s)"
proof -
  let ?p = "get_tmp_index_path N path (int j)"
  let ?len = "of_nat (length s) :: u64"
  have len: "unat ?len = length s" using assms(6) by (simp add: unat_of_nat)
  have gi: "sdk_get_inode path w = (Inr inode, w)"
    using assms(1) by (simp add: sdk_get_inode_def bindE_def getE_def retE_def)
  have ix: "get_indexs inode offset ?len = Inr (int j, int j + 1)"
    using get_indexs_exact [OF assms(3,4), of offset ?len] assms(6-8) len by simp
  have data: "fs_data (local w) ?p = Some b" using assms(10,11) by (simp add: fs_data_def)
  obtain blks subs where "drop j (sub inode) = blks # subs" using assms(9) by (metis Cons_nth_drop_Suc)
  then have rb: "\<exists>r. read_blocks N inode (int j, int j + 1) w = (Inr r, w)"
    using cached_block_some [OF data assms(12,13,14)] assms(2,9)
    by (simp add: read_blocks_def read_block_def Let_def bindE_def retE_def)
  let ?F = "write_out n s (local w)"
  have "fs_find ?F ?p = Some (FFile n)" using assms(10) by simp
  moreover have "fs_find ?F link \<noteq> Some FDir" "\<not> denied ?F link" "fs_is_directory ?F (path_parent link)"
    using assms(17-19) by (simp_all add: fs_is_directory_def) (simp add: write_out_def)
  ultimately obtain F' where
    F': "thenE (fs_remove link) (fs_create_hard_link ?p link) ?F = (Inr (), F')" "contents F' = contents ?F"
    "fs_find F' ?p = Some (FFile n)"
    using link_copy [OF _ assms(16), of ?F n] by auto
  have o: "open_out True ?p (local w) = (Some n, local w)" using assms(10,14) by (simp add: open_out_def)
  have sz: "unat ((offset + ?len) mod word_of_int (int bsz) - offset mod word_of_int (int bsz)) = length s"
    using assms(4-8) by (intro same_block_size) auto
  have "write_index N path inode offset ?len (int j, int j + 1) (int j) s w = (Inr [], w\<lparr>local := F'\<rparr>)"
    using o F'(1) sz assms(3,15)
    by (simp add: write_index_def Let_def bindE_def thenE_def on_local_def onE_def modifyE_def retE_def ln_path_index_def)
  then have "write_data N path offset s w = (Inr (), w\<lparr>local := F'\<rparr>)"
    using gi ix rb
    by (auto simp: write_data_def Let_def bindE_def thenE_def liftE_def whenE_def retE_def)
  moreover have "fs_data F' ?p = Some (b @ s)" using F'(2,3) assms(11) by (simp add: fs_data_def write_out_def)
  ultimately show ?thesis by auto
qed

theorem write_data_appends_witness:
  "\<exists>w'. write_data file_cluster ''/f'' 1 ''XY'' write_world = (Inr (), w') \<and>
     fs_data (local w') ''/tmp/spkdfs/fuse/m/0'' = Some ''abcdefXY''"
proof -
  have paths: "get_tmp_index_path file_cluster ''/f'' (int 0) = ''/tmp/spkdfs/fuse/m/0''"
    "get_tmp_write_path file_cluster ''/f'' @ ''/'' @ index_name (int 0) = ''/tmp/spkdfs/fuse/m/write/0''"
    "path_parent ''/tmp/spkdfs/fuse/m/write/0'' = ''/tmp/spkdfs/fuse/m/write''" by code_simp+
  have bsz: "inode_block_size read_inode = int 1048576"
    by (simp add: read_inode_def inode_block_size_def st_block_size_def to_int32_id)
  have "\<exists>w'. write_data file_cluster ''/f'' 1 ''XY'' write_world = (Inr (), w') \<and>
      fs_data (local w') (get_tmp_index_path file_cluster ''/f'' (int 0)) = Some (''abcdef'' @ ''XY'')"
    by (rule write_data_appends [OF _ _ bsz, where n = 0 and link = "''/tmp/spkdfs/fuse/m/write/0''"])
      (simp_all only: paths, simp_all add: write_world_def read_world_def read_inode_def fs_find_def fs_is_directory_def paths(3))
  then show ?thesis by (simp add: paths [simplified])
qed

end
