(* ===== verification/WriteBack.thy ===== *)
theory WriteBack
  imports LocalCopies
begin

text \<open>
  Writing a new file through the mount: \<open>write_data\<close> stages the bytes in local copies of the blocks with
  a hard link to each copy written, and \<open>fsync\<close> spreads the linked blocks over the datanodes and commits
  them.  \<open>staged\<close> is the abstraction of the staged files: the bytes written so far.
\<close>

section \<open>Staged bytes\<close>

definition blk :: "nat \<Rightarrow> string \<Rightarrow> nat \<Rightarrow> string" where
  "blk bsz p j = take bsz (drop (j * bsz) p)"

definition copy_of :: "'n cluster \<Rightarrow> string \<Rightarrow> nat \<Rightarrow> string" where
  "copy_of N path j = get_tmp_index_path N path (int j)"

definition link_of :: "'n cluster \<Rightarrow> string \<Rightarrow> nat \<Rightarrow> string" where
  "link_of N path j = get_tmp_write_path N path @ ''/'' @ index_name (int j)"

text \<open>The files of the copy and the link of block \<open>j\<close> are right for the bytes \<open>p\<close>.\<close>

definition staged_block :: "'n cluster \<Rightarrow> string \<Rightarrow> nat \<Rightarrow> string \<Rightarrow> files \<Rightarrow> nat \<Rightarrow> bool" where
  "staged_block N path bsz p F j \<longleftrightarrow>
     (if j * bsz < length p then
        \<exists>n. fs_find F (copy_of N path j) = Some (FFile n) \<and> fs_find F (link_of N path j) = Some (FFile n) \<and>
            contents F n = blk bsz p j
      else fs_find F (copy_of N path j) = None \<and> fs_find F (link_of N path j) = None)"

text \<open>The names are free to use, and their directories are there.\<close>

definition staging_area :: "'n cluster \<Rightarrow> string \<Rightarrow> files \<Rightarrow> bool" where
  "staging_area N path F \<longleftrightarrow>
     files_ok F \<and> fs_is_directory F (get_tmp_write_path N path) \<and>
     (\<forall>j < 2 ^ 31. \<not> denied F (copy_of N path j) \<and> \<not> denied F (link_of N path j) \<and>
        fs_is_directory F (path_parent (copy_of N path j)) \<and> fs_is_directory F (path_parent (link_of N path j)))"

definition staged :: "'n cluster \<Rightarrow> string \<Rightarrow> nat \<Rightarrow> string \<Rightarrow> files \<Rightarrow> bool" where
  "staged N path bsz p F \<longleftrightarrow>
     staging_area N path F \<and> (\<forall>j < 2 ^ 31. staged_block N path bsz p F j) \<and>
     (\<forall>i < 2 ^ 31. \<forall>j < 2 ^ 31. \<forall>n. fs_find F (copy_of N path i) = Some (FFile n) \<longrightarrow>
        fs_find F (copy_of N path j) = Some (FFile n) \<longrightarrow> i = j) \<and>
     (\<forall>e \<in> set (names F). below (get_tmp_write_path N path) (fst e) \<longrightarrow> (\<exists>j < 2 ^ 31. fst e = link_of N path j))"

section \<open>Names\<close>

lemma index_name_nat: "j < 2 ^ 32 \<Longrightarrow> index_name (int j) = string_of_nat j"
  by (simp add: index_name_def nat_mod_as_int)

lemma string_of_nat_inject: "string_of_nat i = string_of_nat j \<longleftrightarrow> i = j"
  by (metis nat_of_digits_string_of_nat)

lemma copy_of_inject: "i < 2 ^ 31 \<Longrightarrow> j < 2 ^ 31 \<Longrightarrow> copy_of N path i = copy_of N path j \<longleftrightarrow> i = j"
  by (simp add: copy_of_def get_tmp_index_path_def index_name_nat string_of_nat_inject)

lemma link_of_inject: "i < 2 ^ 31 \<Longrightarrow> j < 2 ^ 31 \<Longrightarrow> link_of N path i = link_of N path j \<longleftrightarrow> i = j"
  by (simp add: link_of_def index_name_nat string_of_nat_inject)

lemma string_of_nat_hd: "hd (string_of_nat n) \<noteq> CHR ''w''"
proof -
  have "is_digit (hd (string_of_nat n))" using string_of_nat_digits [of n] by simp
  then show ?thesis by (auto simp: is_digit_def)
qed

lemma index_name_hd: "index_name i \<noteq> CHR ''w'' # xs" "CHR ''w'' # xs \<noteq> index_name i"
  using string_of_nat_hd [of "nat (i mod 2 ^ 32)"] by (auto simp: index_name_def) (metis list.sel(1))+

lemma copy_not_link [simp]: "copy_of N path i \<noteq> link_of N path j" "link_of N path j \<noteq> copy_of N path i"
proof -
  show "copy_of N path i \<noteq> link_of N path j" "link_of N path j \<noteq> copy_of N path i"
    by (auto simp: copy_of_def link_of_def get_tmp_index_path_def get_tmp_write_path_def index_name_hd)
qed

lemma copy_not_below: "\<not> below (get_tmp_write_path N path) (copy_of N path i)"
proof -
  have "take n ys = CHR ''w'' # xs \<Longrightarrow> \<exists>zs. ys = CHR ''w'' # zs" for n ys xs by (cases ys; cases n) auto
  from this [of 6 "index_name (int i)"] show ?thesis
    by (auto simp: below_def copy_of_def get_tmp_index_path_def get_tmp_write_path_def index_name_hd)
qed

lemma link_below: "below (get_tmp_write_path N path) (link_of N path j)"
  by (simp add: below_def link_of_def)

lemma link_entry: "drop (Suc (length (get_tmp_write_path N path))) (link_of N path j) = index_name (int j)"
  by (simp add: link_of_def)

section \<open>Bytes and blocks\<close>

lemma concat_blk: "concat (map (blk bsz p) [0..<k]) = take (k * bsz) p"
proof (induction k)
  case (Suc k)
  have "take (Suc k * bsz) p = take (k * bsz) p @ take bsz (drop (k * bsz) p)"
    using take_add [of "k * bsz" bsz p] by (simp add: add.commute)
  with Suc show ?case by (simp add: blk_def)
qed simp

lemma blk_append_before: "Suc k * bsz \<le> length p \<Longrightarrow> blk bsz (p @ t) k = blk bsz p k"
  by (simp add: blk_def)

lemma blk_append_at:
  assumes "0 < bsz" and "j = length p div bsz" and "length p mod bsz + length t \<le> bsz"
  shows "blk bsz (p @ t) j = blk bsz p j @ t"
proof -
  have "j * bsz \<le> length p" "length p - j * bsz = length p mod bsz" using assms(2) by (simp_all add: modulo_nat_def)
  then show ?thesis using assms(3) by (simp add: blk_def)
qed

section \<open>Staging more bytes\<close>

text \<open>Opening the copy of the block the next byte goes to.\<close>

lemma open_staged:
  assumes st: "staged N path bsz p F" and bsz: "0 < bsz" and j: "j = length p div bsz" "j < 2 ^ 31"
  shows "\<exists>n F1. open_out True (copy_of N path j) F = (Some n, F1) \<and> contents F1 n = blk bsz p j \<and>
    (\<forall>m. m \<noteq> n \<longrightarrow> contents F1 m = contents F m) \<and> denied F1 = denied F \<and> files_ok F1 \<and>
    (\<forall>q. fs_find F1 q = (if q = copy_of N path j then Some (FFile n) else fs_find F q)) \<and>
    set (names F1) \<subseteq> insert (copy_of N path j, FFile n) (set (names F)) \<and>
    (\<forall>i < 2 ^ 31. i \<noteq> j \<longrightarrow> fs_find F (copy_of N path i) \<noteq> Some (FFile n))"
proof -
  let ?p = "copy_of N path j"
  have area: "files_ok F" "\<not> denied F ?p" "fs_is_directory F (path_parent ?p)"
    using st j(2) by (auto simp: staged_def staging_area_def)
  have b: "staged_block N path bsz p F j" using st j(2) by (simp add: staged_def)
  have jl: "j * bsz \<le> length p" using j(1) by simp
  show ?thesis
  proof (cases "j * bsz < length p")
    case True
    with b obtain n where n: "fs_find F ?p = Some (FFile n)" "contents F n = blk bsz p j" by (auto simp: staged_block_def)
    have "set (names F) \<subseteq> insert (?p, FFile n) (set (names F))" by blast
    moreover have "\<forall>i < 2 ^ 31. i \<noteq> j \<longrightarrow> fs_find F (copy_of N path i) \<noteq> Some (FFile n)"
      using st n(1) j(2) unfolding staged_def by blast
    ultimately show ?thesis using n area by (intro exI [of _ n] exI [of _ F]) (auto simp: open_out_def)
  next
    case False
    with b have none: "fs_find F ?p = None" by (simp add: staged_block_def)
    let ?n = "next_ino F"
    let ?F = "F\<lparr>names := (?p, FFile ?n) # names F, contents := (contents F)(?n := []), next_ino := Suc ?n\<rparr>"
    have o: "open_out True ?p F = (Some ?n, ?F)" using none area by (simp add: open_out_def)
    have find: "fs_find ?F q = (if q = ?p then Some (FFile ?n) else fs_find F q)" for q
      using open_out_find [OF o, of q] none by auto
    have "blk bsz p j = []" using False jl by (simp add: blk_def)
    moreover have "fs_find F q \<noteq> Some (FFile ?n)" for q
      using area(1) fs_find_file [of F q ?n] by (auto simp: files_ok_def)
    ultimately show ?thesis
      using o find files_ok_open [OF area(1) o] by (intro exI [of _ ?n] exI [of _ ?F]) auto
  qed
qed

lemma other_blocks:
  assumes "0 < bsz" and j: "j = length p div bsz" and "length p mod bsz + length t \<le> bsz" and ij: "i \<noteq> j"
  shows "i * bsz < length (p @ t) \<longleftrightarrow> i * bsz < length p"
    and "i * bsz < length p \<Longrightarrow> Suc i * bsz \<le> length p"
proof -
  have le: "Suc i * bsz \<le> length p" if "i < j"
  proof -
    have "Suc i * bsz \<le> j * bsz" using that by (intro mult_le_mono1) simp
    also have "\<dots> \<le> length p" using j by simp
    finally show ?thesis .
  qed
  show "Suc i * bsz \<le> length p" if "i * bsz < length p"
  proof (rule le)
    have "i \<le> j" using that assms(1) j by (simp add: less_eq_div_iff_mult_less_eq)
    with ij show "i < j" by simp
  qed
  have "i < Suc j" if "i * bsz < length (p @ t)"
  proof -
    have "length (p @ t) = j * bsz + (length p mod bsz + length t)" using j by simp
    also have "\<dots> \<le> Suc j * bsz" using assms(3) by simp
    finally have "i * bsz < Suc j * bsz" using that by simp
    then show ?thesis by (rule mult_less_cancel2 [THEN iffD1, THEN conjunct2])
  qed
  with le ij assms(1) show "i * bsz < length (p @ t) \<longleftrightarrow> i * bsz < length p" by auto
qed

text \<open>The staged bytes after the block they end in was written and linked.\<close>

lemma staged_extend:
  assumes st: "staged N path bsz p F" and bsz: "0 < bsz" and j: "j = length p div bsz" "j < 2 ^ 31"
    and t: "t \<noteq> []" "length p mod bsz + length t \<le> bsz"
    and f2: "\<And>q. fs_find F2 q = (if q = copy_of N path j \<or> q = link_of N path j then Some (FFile n) else fs_find F q)"
    and c2: "\<And>m. contents F2 m = (if m = n then blk bsz p j @ t else contents F m)"
    and other: "denied F2 = denied F" "files_ok F2"
      "set (names F2) \<subseteq> {(link_of N path j, FFile n), (copy_of N path j, FFile n)} \<union> set (names F)"
    and u1: "\<And>i. i < 2 ^ 31 \<Longrightarrow> i \<noteq> j \<Longrightarrow> fs_find F (copy_of N path i) \<noteq> Some (FFile n)"
  shows "staged N path bsz (p @ t) F2"
proof -
  let ?c = "copy_of N path" and ?l = "link_of N path"
  have area: "staging_area N path F" and blocks: "staged_block N path bsz p F i" if "i < 2 ^ 31" for i
    using st that by (auto simp: staged_def)
  have "staged_block N path bsz (p @ t) F2 i" if i: "i < 2 ^ 31" for i
  proof (cases "i = j")
    case True
    have "j * bsz < length (p @ t)" using j(1) t(1) by (simp add: le_less_trans [OF div_times_less_eq_dividend])
    moreover have "blk bsz (p @ t) j = blk bsz p j @ t" by (rule blk_append_at [OF bsz j(1) t(2)])
    ultimately show ?thesis using True f2 c2 by (auto simp: staged_block_def)
  next
    case False
    with blocks [OF i] f2 [of "?c i"] f2 [of "?l i"] u1 [OF i False] c2 other_blocks [OF bsz j(1) t(2) False]
      copy_of_inject [OF i j(2), of N path] link_of_inject [OF i j(2), of N path]
    show ?thesis by (auto simp: staged_block_def blk_append_before split: if_splits)
  qed
  moreover have "fs_is_directory F2 d" if "fs_is_directory F d" for d
    using that f2 [of d] blocks [OF j(2)] by (auto simp: fs_is_directory_def staged_block_def split: if_splits)
  then have "staging_area N path F2" using area [OF j(2)] other(1,2) by (simp add: staging_area_def)
  moreover have "i = k" if "i < 2 ^ 31" "k < 2 ^ 31" "fs_find F2 (?c i) = Some (FFile m)" "fs_find F2 (?c k) = Some (FFile m)" for i k m
  proof -
    have "i = k" if "fs_find F (?c i) = Some (FFile m)" "fs_find F (?c k) = Some (FFile m)"
      using st that \<open>i < 2 ^ 31\<close> \<open>k < 2 ^ 31\<close> unfolding staged_def by blast
    with that f2 u1 copy_of_inject [OF that(1,2), of N path] show ?thesis by (auto split: if_splits)
  qed
  moreover have "\<exists>i < 2 ^ 31. fst e = ?l i" if "e \<in> set (names F2)" "below (get_tmp_write_path N path) (fst e)" for e
  proof -
    from that(1) other(3) consider "e = (?l j, FFile n)" | "e = (?c j, FFile n)" | "e \<in> set (names F)" by blast
    then show ?thesis using that(2) st j(2) copy_not_below [of N path j] by cases (auto simp: staged_def)
  qed
  ultimately show ?thesis unfolding staged_def by blast
qed

lemma stage_more:
  assumes st: "staged N path bsz p F" and bsz: "0 < bsz" and j: "j = length p div bsz" "j < 2 ^ 31"
    and t: "t \<noteq> []" "length p mod bsz + length t \<le> bsz"
  shows "\<exists>n F1 F2. open_out True (copy_of N path j) F = (Some n, F1) \<and>
    thenE (fs_remove (link_of N path j)) (fs_create_hard_link (copy_of N path j) (link_of N path j)) (write_out n t F1) = (Inr (), F2) \<and>
    staged N path bsz (p @ t) F2"
proof -
  let ?c = "copy_of N path" and ?l = "link_of N path"
  from open_staged [OF st bsz j] obtain n F1 where o: "open_out True (?c j) F = (Some n, F1)"
    and c1: "contents F1 n = blk bsz p j" "\<And>m. m \<noteq> n \<Longrightarrow> contents F1 m = contents F m" and d1: "denied F1 = denied F"
    and f1: "files_ok F1" "\<And>q. fs_find F1 q = (if q = ?c j then Some (FFile n) else fs_find F q)"
    and n1: "set (names F1) \<subseteq> insert (?c j, FFile n) (set (names F))"
    and u1: "\<And>i. i < 2 ^ 31 \<Longrightarrow> i \<noteq> j \<Longrightarrow> fs_find F (?c i) \<noteq> Some (FFile n)" by metis
  let ?G = "write_out n t F1"
  have area: "\<not> denied F (?l j)" "fs_is_directory F (path_parent (?l j))" "staged_block N path bsz p F j"
    using st j(2) by (auto simp: staged_def staging_area_def)
  then have nd: "fs_find F (?c j) \<noteq> Some FDir" "fs_find F (?l j) \<noteq> Some FDir"
    by (auto simp: staged_block_def split: if_splits)
  have "fs_is_directory ?G (path_parent (?l j))"
    using area(2) f1(2) [of "path_parent (?l j)"] nd(1) by (auto simp: fs_is_directory_def)
  moreover have "fs_find ?G (?l j) \<noteq> Some FDir" "\<not> denied ?G (?l j)"
    using f1(2) nd(2) area(1) d1 by (simp_all, simp add: write_out_def)
  moreover have "names ?G = names F1" "denied ?G = denied F" using d1 by (simp_all add: write_out_def)
  moreover have "fs_find ?G (?c j) = Some (FFile n)" "files_ok ?G" using f1 by simp_all
  ultimately obtain F2 where
    r: "thenE (fs_remove (?l j)) (fs_create_hard_link (?c j) (?l j)) ?G = (Inr (), F2)" "contents F2 = contents ?G"
    "denied F2 = denied F" "files_ok F2" "set (names F2) \<subseteq> insert (?l j, FFile n) (set (names F1))"
    and f2: "\<And>q. fs_find F2 q = (if q = ?l j then Some (FFile n) else fs_find ?G q)"
    using link_copy [of ?G "?c j" n "?l j"] by auto
  have "staged N path bsz (p @ t) F2"
  proof (rule staged_extend [OF st bsz j t _ _ r(3,4) _ u1])
    show "fs_find F2 q = (if q = ?c j \<or> q = ?l j then Some (FFile n) else fs_find F q)" for q
      using f2 [of q] f1(2) [of q] by auto
    show "contents F2 m = (if m = n then blk bsz p j @ t else contents F m)" for m
      using r(2) c1 by (simp add: write_out_def)
  qed (use r(5) n1 in auto)
  with o r(1) show ?thesis by blast
qed

section \<open>Sequential writes\<close>

text \<open>The calls of a client that writes one piece after the other from the start of the file.\<close>

fun write_seq :: "'n cluster \<Rightarrow> string \<Rightarrow> u64 \<Rightarrow> string list \<Rightarrow> ('n world, unit) eff" where
  "write_seq N path offset [] = retE ()"
| "write_seq N path offset (s # ss) =
     thenE (write_data N path offset s) (write_seq N path (offset + of_nat (length s)) ss)"

lemma write_index_staged:
  assumes st: "staged N path bsz p (local w)" and bsz: "inode_block_size inode = int bsz" "0 < bsz"
    and j: "j = length p div bsz" "j < 2 ^ 31"
    and sz: "unat ((if int j = snd ix - 1 then (offset + len) mod word_of_int (int bsz) else word_of_int (int bsz)) -
      (if int j = fst ix then offset mod word_of_int (int bsz) else 0)) = length t"
    and t: "t \<noteq> []" "length p mod bsz + length t \<le> bsz"
  shows "\<exists>F. write_index N path inode offset len ix (int j) (t @ rest) w = (Inr rest, w\<lparr>local := F\<rparr>) \<and>
    staged N path bsz (p @ t) F"
proof -
  from stage_more [OF st bsz(2) j t] obtain n F1 F2 where
    o: "open_out True (copy_of N path j) (local w) = (Some n, F1)"
    and r: "thenE (fs_remove (link_of N path j)) (fs_create_hard_link (copy_of N path j) (link_of N path j)) (write_out n t F1) = (Inr (), F2)"
    and s: "staged N path bsz (p @ t) F2" by blast
  have "write_index N path inode offset len ix (int j) (t @ rest) w = (Inr rest, w\<lparr>local := F2\<rparr>)"
    unfolding write_index_def Let_def bsz(1) sz using o r
    by (simp add: bindE_def thenE_def on_local_def onE_def modifyE_def retE_def ln_path_index_def copy_of_def link_of_def Let_def)
  with s show ?thesis by blast
qed

text \<open>The loop: the first block is filled up or ends within, the blocks after it are whole but for the last.\<close>

text \<open>How much of the bytes still to be written goes into the block the file ends in.\<close>

definition block_part :: "nat \<Rightarrow> nat \<Rightarrow> nat \<Rightarrow> nat \<Rightarrow> nat" where
  "block_part bsz fin lp lr = (if lp div bsz = fin div bsz then lr else bsz - lp mod bsz)"

lemma block_part_facts:
  fixes bsz :: nat
  assumes "1 < bsz" and "lp + lr = fin" and "lr \<noteq> 0" and "fin mod bsz \<noteq> 0"
  defines "m \<equiv> block_part bsz fin lp lr"
  shows "m \<noteq> 0" and "m \<le> lr" and "lp mod bsz + m \<le> bsz"
    and "lp mod bsz + m = (if lp div bsz = fin div bsz then fin mod bsz else bsz)"
    and "lp div bsz \<noteq> fin div bsz \<Longrightarrow> m < lr" and "lp div bsz \<noteq> fin div bsz \<Longrightarrow> lp + m = Suc (lp div bsz) * bsz"
proof -
  have less: "lp mod bsz < bsz" "fin mod bsz < bsz" using assms(1) by simp_all
  have lp: "lp = lp div bsz * bsz + lp mod bsz" and fin: "fin = fin div bsz * bsz + fin mod bsz" by simp_all
  have jt: "lp div bsz \<le> fin div bsz" by (rule div_le_mono) (use assms(2) in simp)
  have last: "lp mod bsz + lr = fin mod bsz" if "lp div bsz = fin div bsz"
    using lp fin assms(2) unfolding that by linarith
  have more: "bsz - lp mod bsz < lr" if "lp div bsz \<noteq> fin div bsz"
  proof -
    from that jt have "Suc (lp div bsz) * bsz \<le> fin div bsz * bsz" by (intro mult_le_mono1) simp
    then have "Suc (lp div bsz) * bsz < fin" using fin assms(4) by linarith
    then have "lp div bsz * bsz + bsz < lp + lr" using assms(2) by simp
    then show ?thesis using lp less(1) by linarith
  qed
  show "m \<noteq> 0" "m \<le> lr" "lp mod bsz + m \<le> bsz"
    "lp mod bsz + m = (if lp div bsz = fin div bsz then fin mod bsz else bsz)"
    using assms(3) less last more by (auto simp: m_def block_part_def)
  show "m < lr" if "lp div bsz \<noteq> fin div bsz" using that more by (simp add: m_def block_part_def)
  have "lp + (bsz - lp mod bsz) = lp div bsz * bsz + bsz" using lp less(1) by linarith
  then show "lp + m = Suc (lp div bsz) * bsz" if "lp div bsz \<noteq> fin div bsz"
    using that by (simp add: m_def block_part_def)
qed

lemma write_loop_staged:
  fixes offset :: u64
  assumes bsz: "inode_block_size inode = int bsz" "1 < bsz" "bsz < 2 ^ 31"
    and tot: "unat offset + l = fin" "fin < 2 ^ 31" "fin mod bsz \<noteq> 0"
  shows "staged N path bsz p (local w) \<Longrightarrow> rest \<noteq> [] \<Longrightarrow> length p + length rest = fin \<Longrightarrow>
    j = length p div bsz \<Longrightarrow> (if j = unat offset div bsz then length p = unat offset else unat offset div bsz < j \<and> length p mod bsz = 0) \<Longrightarrow>
    n = Suc (fin div bsz) - j \<Longrightarrow>
    \<exists>F. write_loop N path inode offset (of_nat l) (int (unat offset div bsz), int (fin div bsz + 1)) n (int j) rest w =
      (Inr (), w\<lparr>local := F\<rparr>) \<and> staged N path bsz (p @ rest) F"
proof (induction n arbitrary: p rest j w)
  case 0
  have "length p div bsz \<le> fin div bsz" using 0(3) by (intro div_le_mono) simp
  with 0 show ?case by simp
next
  case (Suc n)
  let ?left = "length p mod bsz" and ?m = "block_part bsz fin (length p) (length rest)"
  have "length p div bsz \<le> fin div bsz" by (rule div_le_mono) (use Suc.prems(3) in simp)
  then have j31: "j < 2 ^ 31" unfolding Suc.prems(4) using tot(2) by (meson div_le_dividend le_less_trans)
  have "length rest \<noteq> 0" using Suc.prems(2) by simp
  note m = block_part_facts [OF bsz(2) Suc.prems(3) this tot(3), folded Suc.prems(4)]
  define t where "t = take ?m rest"
  have t: "t \<noteq> []" "?left + length t \<le> bsz" "length t = ?m" "t @ drop ?m rest = rest"
    using m(1-3) Suc.prems(2) by (auto simp: t_def)
  note ws = word_sizes [OF _ bsz(3), of offset l, unfolded tot(1), OF tot(2)]
  let ?w = "word_of_int (int bsz) :: u64"
  have left: "unat (if int j = int (unat offset div bsz) then offset mod ?w else 0) = ?left"
    using Suc.prems(5) ws(2) by (auto split: if_splits)
  have right: "unat (if int j = int (fin div bsz + 1) - 1 then (offset + of_nat l) mod ?w else ?w) = ?left + ?m"
    using ws(1,3) m(4) by auto
  have "unat ((if int j = int (fin div bsz + 1) - 1 then (offset + of_nat l) mod ?w else ?w) -
      (if int j = int (unat offset div bsz) then offset mod ?w else 0)) = length t"
    using left right t(3) by (simp only: unat_sub word_le_nat_alt add_diff_cancel_left' le_add1)
  from write_index_staged [where ix = "(int (unat offset div bsz), int (fin div bsz + 1))" and rest = "drop ?m rest",
      OF Suc.prems(1) bsz(1) _ Suc.prems(4) j31 _ t(1,2)] this bsz(2) t(4) obtain F where
    wi: "write_index N path inode offset (of_nat l) (int (unat offset div bsz), int (fin div bsz + 1)) (int j) rest w =
      (Inr (drop ?m rest), w\<lparr>local := F\<rparr>)" "staged N path bsz (p @ t) F" by auto
  show ?case
  proof (cases "j = fin div bsz")
    case True
    then have "t = rest" "drop ?m rest = []" using Suc.prems(4) by (simp_all add: t_def block_part_def)
    with Suc.prems(6) True wi show ?thesis by (auto simp: bindE_def retE_def)
  next
    case False
    have len: "length (p @ t) = Suc j * bsz" using t(3) m(6) False by simp
    have "n = Suc (fin div bsz) - Suc j" using Suc.prems(6) by simp
    moreover have "drop ?m rest \<noteq> []" using m(5) False by simp
    moreover have "length (p @ t) + length (drop ?m rest) = fin" using Suc.prems(3) t(3) m(2) by simp
    moreover have "Suc j = length (p @ t) div bsz" "length (p @ t) mod bsz = 0" unfolding len using bsz(2) by simp_all
    moreover have "if Suc j = unat offset div bsz then length (p @ t) = unat offset
        else unat offset div bsz < Suc j \<and> length (p @ t) mod bsz = 0"
      using Suc.prems(5) calculation(5) by (auto split: if_splits)
    ultimately obtain F' where
      "write_loop N path inode offset (of_nat l) (int (unat offset div bsz), int (fin div bsz + 1)) n (int (Suc j)) (drop ?m rest)
        (w\<lparr>local := F\<rparr>) = (Inr (), w\<lparr>local := F\<rparr>\<lparr>local := F'\<rparr>)" "staged N path bsz ((p @ t) @ drop ?m rest) F'"
      using Suc.IH [of "p @ t" "w\<lparr>local := F\<rparr>" "drop ?m rest" "Suc j"] wi(2) by auto
    with wi(1) t(4) show ?thesis by (auto simp: bindE_def add.commute)
  qed
qed

lemma write_data_staged:
  assumes st: "staged N path bsz p (local w)" and s: "s \<noteq> []" and offset: "unat offset = length p"
    and cache: "local_inode_cache w path = Some inode" "filesize inode = 0"
    and bsz: "inode_block_size inode = int bsz" "1 < bsz" "bsz < 2 ^ 31"
    and fin: "length p + length s < 2 ^ 31" "(length p + length s) mod bsz \<noteq> 0"
  shows "\<exists>F. write_data N path offset s w = (Inr (), w\<lparr>local := F\<rparr>) \<and> staged N path bsz (p @ s) F"
proof -
  let ?len = "of_nat (length s) :: u64" and ?fin = "length p + length s"
  have len: "unat ?len = length s" using fin(1) by (simp add: unat_of_nat)
  have gi: "sdk_get_inode path w = (Inr inode, w)"
    using cache(1) by (simp add: sdk_get_inode_def bindE_def getE_def retE_def)
  have ix: "get_indexs inode offset ?len = Inr (int (unat offset div bsz), int (?fin div bsz + 1))"
    using get_indexs_exact [OF bsz(1,2), of offset ?len] fin(1) len offset by simp
  have n: "nat (int (?fin div bsz + 1) - int (unat offset div bsz)) = Suc (?fin div bsz) - unat offset div bsz" by simp
  have "unat offset + length s = ?fin" using offset by simp
  from write_loop_staged [OF bsz this fin st s refl refl _ refl] offset obtain F where
    "write_loop N path inode offset ?len (int (unat offset div bsz), int (?fin div bsz + 1)) (Suc (?fin div bsz) - unat offset div bsz)
      (int (unat offset div bsz)) s w = (Inr (), w\<lparr>local := F\<rparr>)" "staged N path bsz (p @ s) F" by auto
  with gi ix cache(2) n show ?thesis
    by (auto simp: write_data_def Let_def bindE_def thenE_def liftE_def whenE_def retE_def)
qed

lemma write_seq_staged:
  assumes cache: "local_inode_cache w path = Some inode" "filesize inode = 0"
    and bsz: "inode_block_size inode = int bsz" "1 < bsz" "bsz < 2 ^ 31"
  shows "staged N path bsz p (local w) \<Longrightarrow> unat offset = length p \<Longrightarrow> length (p @ concat ss) < 2 ^ 31 \<Longrightarrow>
    \<forall>k < length ss. ss ! k \<noteq> [] \<and> length (p @ concat (take (Suc k) ss)) mod bsz \<noteq> 0 \<Longrightarrow>
    \<exists>F. write_seq N path offset ss w = (Inr (), w\<lparr>local := F\<rparr>) \<and> staged N path bsz (p @ concat ss) F"
  using cache(1)
proof (induction ss arbitrary: p offset w)
  case Nil
  then show ?case by (intro exI [of _ "local w"]) (simp add: retE_def)
next
  case (Cons s ss)
  have s: "s \<noteq> []" "(length p + length s) mod bsz \<noteq> 0" using Cons.prems(4) [rule_format, of 0] by auto
  have lt: "length p + length s < 2 ^ 31" using Cons.prems(3) by simp
  from write_data_staged [OF Cons.prems(1) s(1) Cons.prems(2) Cons.prems(5) cache(2) bsz lt s(2)] obtain F where
    F: "write_data N path offset s w = (Inr (), w\<lparr>local := F\<rparr>)" "staged N path bsz (p @ s) F" by blast
  have "unat (of_nat (length s) :: u64) = length s" using lt by (simp add: unat_of_nat)
  moreover from this have "unat offset + unat (of_nat (length s) :: u64) < 2 ^ LENGTH(64)" using lt Cons.prems(2) by simp
  ultimately have off: "unat (offset + of_nat (length s)) = length (p @ s)"
    using Cons.prems(2) by (metis unat_add_lem length_append)
  have "\<forall>k < length ss. ss ! k \<noteq> [] \<and> length ((p @ s) @ concat (take (Suc k) ss)) mod bsz \<noteq> 0"
    using Cons.prems(4) by (auto simp: add.assoc dest: spec [of _ "Suc _"])
  from Cons.IH [OF _ off _ this, of "w\<lparr>local := F\<rparr>"] F Cons.prems(3,5) obtain F' where
    "write_seq N path (offset + of_nat (length s)) ss (w\<lparr>local := F\<rparr>) = (Inr (), w\<lparr>local := F'\<rparr>)"
    "staged N path bsz (p @ s @ concat ss) F'" by auto
  with F(1) show ?case by (auto simp: thenE_def bindE_def)
qed

section \<open>Committing the staged blocks\<close>

lemma below_split: "below d q \<Longrightarrow> q = d @ slash # drop (Suc (length d)) q"
  by (metis append_take_drop_id append.assoc append_Cons append_Nil below_def)

lemma staged_below:
  assumes st: "staged N path bsz p F" and e: "e \<in> set (names F)" "below (get_tmp_write_path N path) (fst e)"
  shows "\<exists>j < 2 ^ 31. fst e = link_of N path j \<and> j * bsz < length p"
proof -
  from st e obtain j where j: "j < 2 ^ 31" "fst e = link_of N path j" by (auto simp: staged_def)
  have "link_of N path j \<noteq> ''/''" by (simp add: link_of_def get_tmp_write_path_def get_tmp_path_def)
  moreover have "map_of (names F) (link_of N path j) \<noteq> None" using e(1) j(2) by (metis image_eqI map_of_eq_None_iff)
  ultimately have "fs_find F (link_of N path j) \<noteq> None" by (simp add: fs_find_def)
  moreover have "staged_block N path bsz p F j" using st j(1) by (simp add: staged_def)
  ultimately show ?thesis using j by (auto simp: staged_block_def split: if_splits)
qed

lemma staged_entries:
  assumes st: "staged N path bsz p F" and len: "0 < bsz" "length p < 2 ^ 31"
  shows "distinct (dir_entries F (get_tmp_write_path N path))"
    and "set (dir_entries F (get_tmp_write_path N path)) = string_of_nat ` {j. j * bsz < length p}"
proof -
  let ?d = "get_tmp_write_path N path"
  let ?es = "filter (\<lambda>e. below ?d (fst e)) (names F)"
  have "distinct (map fst ?es)" using st by (auto simp: staged_def staging_area_def files_ok_def map_fst_filter)
  moreover have "inj_on (drop (Suc (length ?d))) (set (map fst ?es))"
  proof (rule inj_onI)
    fix q r assume "q \<in> set (map fst ?es)" "r \<in> set (map fst ?es)"
    then have "below ?d q" "below ?d r" by auto
    moreover assume "drop (Suc (length ?d)) q = drop (Suc (length ?d)) r"
    ultimately show "q = r" by (metis below_split)
  qed
  ultimately have "distinct (map (drop (Suc (length ?d))) (map fst ?es))" by (simp only: distinct_map simp_thms)
  then show "distinct (dir_entries F ?d)" by (simp add: dir_entries_def comp_def)
  have small: "j < 2 ^ 31" if "j * bsz < length p" for j
  proof -
    have "j * 1 \<le> j * bsz" using len(1) by (intro mult_le_mono2) simp
    with that len(2) show ?thesis by linarith
  qed
  have free: "slash \<notin> set (string_of_nat j)" for j using string_of_nat_digits [of j] by (auto simp: is_digit_def)
  have "string_of_nat j \<in> set (dir_entries F ?d)" if "j * bsz < length p" for j
  proof -
    have "staged_block N path bsz p F j" using st small [OF that] by (simp add: staged_def)
    with that obtain n where "fs_find F (link_of N path j) = Some (FFile n)" by (auto simp: staged_block_def)
    from fs_find_file [OF this] have "(link_of N path j, FFile n) \<in> set ?es" by (simp add: link_below)
    moreover have "drop (Suc (length ?d)) (link_of N path j) = string_of_nat j"
      using small [OF that] by (simp add: link_entry index_name_nat)
    ultimately show ?thesis using free by (force simp: dir_entries_def)
  qed
  moreover have "s \<in> string_of_nat ` {j. j * bsz < length p}" if "s \<in> set (dir_entries F ?d)" for s
  proof -
    from that obtain e where e: "e \<in> set (names F)" "below ?d (fst e)" "s = drop (Suc (length ?d)) (fst e)"
      by (auto simp: dir_entries_def)
    from staged_below [OF st e(1,2)] obtain j where "j < 2 ^ 31" "fst e = link_of N path j" "j * bsz < length p" by blast
    with e(3) show ?thesis by (simp add: link_entry index_name_nat)
  qed
  ultimately show "set (dir_entries F ?d) = string_of_nat ` {j. j * bsz < length p}" by blast
qed

lemma block_indices:
  assumes "0 < bsz" and "n mod bsz \<noteq> 0"
  shows "{j. j * bsz < n} = {0..<Suc (n div bsz)}"
proof -
  have iff: "j * bsz < n \<longleftrightarrow> j \<le> n div bsz" for j
  proof
    assume "j \<le> n div bsz"
    then have "j * bsz \<le> n div bsz * bsz" by simp
    also have "\<dots> < n" using assms(2) div_mult_mod_eq [of n bsz] by linarith
    finally show "j * bsz < n" .
  next
    assume "j * bsz < n"
    then show "j \<le> n div bsz" using assms(1) by (simp only: less_eq_div_iff_mult_less_eq less_imp_le)
  qed
  show ?thesis unfolding iff by auto
qed

text \<open>The indices \<open>fsync\<close> finds, in order.\<close>

lemma staged_indices:
  assumes st: "staged N path bsz p F" and len: "0 < bsz" "length p < 2 ^ 31" "length p mod bsz \<noteq> 0"
  shows "\<exists>is. rmapM stoi_res (dir_entries F (get_tmp_write_path N path)) = Inr is \<and> is \<noteq> [] \<and>
    sort is = map int [0..<Suc (length p div bsz)]"
proof -
  let ?es = "dir_entries F (get_tmp_write_path N path)" and ?k = "Suc (length p div bsz)"
  note es = staged_entries [OF st len(1,2), unfolded block_indices [OF len(1,3)]]
  have k: "?k \<le> 2 ^ 31" using len(2) by (meson Suc_leI div_le_dividend le_less_trans)
  have "stoi_res s = Inr (int (nat_of_digits s))" if "s \<in> set ?es" for s
    using that es(2) k by (auto simp: stoi_res_nat nat_of_digits_string_of_nat)
  then have "rmapM stoi_res ?es = Inr (map (\<lambda>s. int (nat_of_digits s)) ?es)" by (rule rmapM_Inr)
  moreover have "set (map (\<lambda>s. int (nat_of_digits s)) ?es) = int ` {0..<?k}"
    by (simp only: set_map es(2) image_image nat_of_digits_string_of_nat)
  moreover have "distinct (map (\<lambda>s. int (nat_of_digits s)) ?es)"
    using es by (auto simp: distinct_map inj_on_def nat_of_digits_string_of_nat)
  moreover have "sorted (map int [0..<?k])" by (simp add: sorted_iff_nth_mono del: upt_Suc)
  moreover have "distinct (map int [0..<?k])" by (simp add: distinct_map del: upt_Suc)
  ultimately show ?thesis
    by (intro exI [of _ "map (\<lambda>s. int (nat_of_digits s)) ?es"] conjI sorted_distinct_set_unique) (auto simp del: upt_Suc)
qed

lemma fs_data_remove:
  assumes "fs_remove q F = (r, F')"
  shows "p \<noteq> q \<Longrightarrow> fs_data F' p = fs_data F p" and "denied F' = denied F"
proof -
  show "denied F' = denied F" using assms by (auto simp: fs_remove_def split: if_splits)
  assume "p \<noteq> q"
  then have "fs_find F' p = fs_find F p"
    using assms by (auto simp: fs_remove_def fs_find_def map_of_filter_fst split: if_splits)
  then show "fs_data F' p = fs_data F p"
    using assms by (auto simp: fs_data_def fs_remove_def split: if_splits option.splits fnode.splits)
qed

lemma index_file_path: "a < 2 ^ 31 \<Longrightarrow> get_tmp_write_path N path @ ''/'' @ string_of_int (int a) = link_of N path a"
  by (simp add: link_of_def index_name_nat string_of_int_nonneg)

lemma staged_data:
  assumes "staged N path bsz p F" and "0 < bsz" and "length p < 2 ^ 31" "length p mod bsz \<noteq> 0" "bsz < 2 ^ 31"
    and "j < Suc (length p div bsz)"
  shows "fs_data F (link_of N path j) = Some (blk bsz p j) \<and> length (blk bsz p j) < 2 ^ 31 \<and>
    \<not> denied F (link_of N path j)"
proof -
  have j: "j * bsz < length p" using block_indices [OF assms(2,4)] assms(6) by auto
  have "j < 2 ^ 31" using assms(3,6) by (meson div_le_dividend less_Suc_eq_le le_less_trans)
  then have "staged_block N path bsz p F j" "\<not> denied F (link_of N path j)"
    using assms(1) by (auto simp: staged_def staging_area_def)
  with j show ?thesis using assms(3,5) by (auto simp: staged_block_def fs_data_def blk_def)
qed

text \<open>One block that is encoded, stored and removed from the staging area.\<close>

lemma fsync_block:
  assumes lk: "on_locks (pl_read_lock l) w = (Inr (), w1)" and rd: "on_local (read_file l) w1 = (Inr block, w2)"
    and en: "encode_one N fuel st block w2 = (Inr s, w3)"
    and rm: "on_local (fs_remove l) w3 = (Inr (), w4)" and ul: "on_locks (pl_unlock l) w4 = (Inr (), w5)"
    and data: "fs_data (local w) l = Some b" "length b < 2 ^ 31" "\<not> denied (local w) l"
    and ok: "cluster_ok N" and inj: "inj_on (cal_sha256sum N) S" and din: "disks_in N S w"
    and frags: "\<forall>vec. st_encode (ec N) st b = Inr vec \<longrightarrow> set vec \<subseteq> S \<and> (\<forall>f \<in> set vec. length f < 2 ^ 31)"
  obtains vec where "block = b" and "fs_remove l (local w) = (Inr (), local w5)" and "namenodes w5 = namenodes w"
    and "disks_in N S w5" and "\<And>q g. g \<in> S \<Longrightarrow> placed N w q g \<Longrightarrow> placed N w5 q g"
    and "st_encode (ec N) st b = Inr vec" and "set vec \<subseteq> S"
    and "list_all2 (placed N w5) (decode_one_sub s) (take (length (decode_one_sub s)) vec)"
proof -
  have w1: "local w1 = local w" "disks w1 = disks w" "namenodes w1 = namenodes w"
    using lk by (auto simp: on_locks_def onE_def split: prod.splits)
  have w2: "block = b" "w2 = w1"
    using rd read_file_Inr [OF data] w1(1) by (auto simp: on_local_def onE_def)
  note en' = en [unfolded w2]
  from en' obtain vec where vec: "st_encode (ec N) st b = Inr vec"
    by (auto simp: encode_one_def bindE_Inr liftE_def)
  with frags have S: "set vec \<subseteq> S" and len: "\<forall>f \<in> set vec. length f < 2 ^ 31" by auto
  have din1: "disks_in N S w1" using din w1(2) by (simp add: disks_in_def)
  note dok = disks_in_ok [OF din1]
  have p: "list_all2 (placed N w3) (decode_one_sub s) (take (length (decode_one_sub s)) vec)"
    using encode_one_placed [OF en' ok dok vec inj_on_subset [OF inj S] len] by blast
  have din3: "disks_in N S w3" by (rule disks_in_encode [OF en' din1 ok]) (use vec S len in auto)
  have sc: "same_client w1 w3" by (rule same_client_encode [OF en'])
  from rm obtain F4 where F4: "fs_remove l (local w) = (Inr (), F4)" "w4 = w3\<lparr>local := F4\<rparr>"
    using sc w1(1) by (auto simp: on_local_def onE_def same_client_def split: prod.splits)
  have w5: "local w5 = F4" "disks w5 = disks w3" "namenodes w5 = namenodes w3"
    using ul F4(2) by (auto simp: on_locks_def onE_def split: prod.splits)
  have same: "placed N w5 = placed N w3" "placed N w1 = placed N w" "disks_in N S w5"
    using w5(2) w1(2) din3 by (simp_all add: placed_def fun_eq_iff disks_in_def)
  have "placed N w5 q g" if "g \<in> S" "placed N w q g" for q g
    unfolding same(1)
    by (rule encode_one_keeps [OF en' ok dok vec]) (use inj_on_subset [OF inj] S that same(2) in auto)
  then show thesis
    using w2(1) F4(1) w5 sc w1(3) same vec S p by (intro that [of vec]) (simp_all add: same_client_def)
qed

lemma fsync_loop_stored:
  assumes st: "storage_type_ptr inode = Some st" and ok: "cluster_ok N" and inj: "inj_on (cal_sha256sum N) S"
    and k: "k \<le> 2 ^ 31"
    and frags: "\<forall>j < k. \<forall>vec. st_encode (ec N) st (b j) = Inr vec \<longrightarrow> set vec \<subseteq> S \<and> (\<forall>f \<in> set vec. length f < 2 ^ 31)"
  shows "fsync_loop N fuel inode (get_tmp_write_path N path) (map int [a..<k]) subs ls w = (Inr (subs', ls'), w') \<Longrightarrow>
    a \<le> k \<Longrightarrow> length subs = k \<Longrightarrow> disks_in N S w \<Longrightarrow>
    \<forall>j. a \<le> j \<longrightarrow> j < k \<longrightarrow> fs_data (local w) (link_of N path j) = Some (b j) \<and> length (b j) < 2 ^ 31 \<and>
      \<not> denied (local w) (link_of N path j) \<Longrightarrow>
    length subs' = k \<and> (\<forall>j < a. subs' ! j = subs ! j) \<and> (\<forall>j. a \<le> j \<longrightarrow> j < k \<longrightarrow> stored N st w' (subs' ! j) (b j)) \<and>
    namenodes w' = namenodes w \<and> disks_in N S w' \<and> (\<forall>p g. g \<in> S \<longrightarrow> placed N w p g \<longrightarrow> placed N w' p g) \<and>
    ls' = (if a < k then length (b (k - 1)) else ls)"
proof (induction "k - a" arbitrary: a subs ls w)
  case 0
  then show ?case by (simp add: retE_def)
next
  case (Suc n)
  then have a: "a < k" "a < 2 ^ 31" using k by auto
  let ?l = "link_of N path a"
  have data: "fs_data (local w) ?l = Some (b a)" "length (b a) < 2 ^ 31" "\<not> denied (local w) ?l" using Suc.prems(5) a by auto
  have upt: "map int [a..<k] = int a # map int [Suc a..<k]" using a by (simp add: upt_conv_Cons)
  from Suc.prems(1) obtain w1 block w2 s w3 w4 w5 where
    lk: "on_locks (pl_read_lock ?l) w = (Inr (), w1)"
    and rd: "on_local (read_file ?l) w1 = (Inr block, w2)"
    and en: "encode_one N fuel st block w2 = (Inr s, w3)"
    and rm: "on_local (fs_remove ?l) w3 = (Inr (), w4)" and ul: "on_locks (pl_unlock ?l) w4 = (Inr (), w5)"
    and lp: "fsync_loop N fuel inode (get_tmp_write_path N path) (map int [Suc a..<k]) (subs[a := s]) (length block) w5 =
      (Inr (subs', ls'), w')"
    using st a Suc.prems(3) unfolding upt
    by (auto simp: Let_def index_file_path [simplified] thenE_def bindE_Inr liftE_def deref_def throwE_def split: if_splits)
  obtain vec where blk: "block = b a" and F4: "fs_remove ?l (local w) = (Inr (), local w5)"
    and w5: "namenodes w5 = namenodes w" "disks_in N S w5"
    and keep: "\<And>q g. g \<in> S \<Longrightarrow> placed N w q g \<Longrightarrow> placed N w5 q g"
    and vec: "st_encode (ec N) st (b a) = Inr vec" and S: "set vec \<subseteq> S"
    and p: "list_all2 (placed N w5) (decode_one_sub s) (take (length (decode_one_sub s)) vec)"
    using fsync_block [OF lk rd en rm ul data ok inj Suc.prems(4)] frags a(1) by metis
  have "\<forall>j. Suc a \<le> j \<longrightarrow> j < k \<longrightarrow> fs_data (local w5) (link_of N path j) = Some (b j) \<and> length (b j) < 2 ^ 31 \<and>
      \<not> denied (local w5) (link_of N path j)"
    using Suc.prems(5) fs_data_remove [OF F4] link_of_inject [OF _ a(2), of _ N path] k by auto
  then have IH: "length subs' = k" "\<forall>j < Suc a. subs' ! j = subs[a := s] ! j"
    "\<forall>j. Suc a \<le> j \<longrightarrow> j < k \<longrightarrow> stored N st w' (subs' ! j) (b j)" "namenodes w' = namenodes w5"
    "\<forall>p g. g \<in> S \<longrightarrow> placed N w5 p g \<longrightarrow> placed N w' p g" "ls' = (if Suc a < k then length (b (k - 1)) else length block)"
    "disks_in N S w'"
    using Suc.hyps(1) [OF _ lp] Suc.hyps(2) Suc.prems(3) a w5(2) by auto
  have "list_all2 (placed N w') (decode_one_sub s) (take (length (decode_one_sub s)) vec)"
    using p by (rule list.rel_mono_strong) (use IH(5) S in \<open>auto dest!: in_set_takeD\<close>)
  then have "stored N st w' s (b a)" using vec by (auto simp: stored_def)
  moreover have "subs' ! a = s" "\<forall>j < a. subs' ! j = subs ! j" using IH(2) a Suc.prems(3) by auto
  moreover have "stored N st w' (subs' ! j) (b j)" if "a \<le> j" "j < k" for j
    using that calculation IH(3) by (cases "j = a") auto
  moreover have "ls' = length (b (k - 1))"
  proof (cases "Suc a < k")
    case False
    then have "k - 1 = a" using a by simp
    with False IH(6) blk show ?thesis by simp
  qed (use IH(6) in simp)
  moreover have "namenodes w' = namenodes w" using IH(4) w5(1) by simp
  ultimately show ?case using IH(1,5,7) keep a(1) by auto
qed

section \<open>A namenode that commits all or nothing\<close>

lemma sdk_call_state:
  assumes "sdk_call N req w = (x, w')"
  shows "disks w' = disks w" and "local w' = local w"
    and "namenodes w' = namenodes w \<or> (\<exists>y. nn_master N req (namenodes w) = (y, namenodes w'))"
  using assms
  by (cases "fate N (calls w)"; cases "nn_master N req (namenodes w)";
      auto simp: sdk_call_def rpc_def onE_def Let_def split: sum.splits)+

lemma committed_size:
  assumes "0 < bsz" and "length p < 2 ^ 31"
  shows "to_int32 (uint (max 0 (word_of_int (int (length p div bsz)) * word_of_int (int bsz) +
    of_nat (length (blk bsz p (length p div bsz)))) :: u64)) = int (length p)"
proof -
  have "length (blk bsz p (length p div bsz)) = length p mod bsz"
    using assms(1) by (simp add: blk_def minus_div_mult_eq_mod less_imp_le)
  then have "(word_of_int (int (length p div bsz)) * word_of_int (int bsz) +
      of_nat (length (blk bsz p (length p div bsz))) :: u64) = of_nat (length p div bsz * bsz + length p mod bsz)"
    by (simp only: of_nat_add of_nat_mult of_int_of_nat_eq)
  also have "\<dots> = of_nat (length p)" by simp
  finally show ?thesis using assms(2) by (simp add: to_int32_id unsigned_of_nat take_bit_nat_eq_self)
qed

locale atomic_file_service = file_service handle lock ls J ready is_file
  for handle :: "request \<Rightarrow> 'n \<Rightarrow> response res \<times> 'n" and lock and ls :: "string \<Rightarrow> 'n \<Rightarrow> (response \<times> string) res"
    and J ready is_file +
  fixes meta :: "'n \<Rightarrow> 'm"
  assumes refused: "is_file n p st \<Longrightarrow> handle req n = (x, n') \<Longrightarrow> (\<And>r. x = Inr r \<Longrightarrow> \<not> success r) \<Longrightarrow> meta n' = meta n"
begin

lemma put_ok_settles:
  assumes "is_file n path ty" and "n' = n \<or> (\<exists>x. handle (PutOk path sz subs) n = (x, n'))"
  shows "meta n' = meta n \<or> ready n' \<and>
    (\<exists>v i. ls path n' = Inr (succ_response empty_response, v) \<and> inode_parse J v = Inr i \<and>
       sub i = subs \<and> filesize i = sz \<and> storage_type_ptr i = Some ty)"
proof (cases "n' = n")
  case False
  with assms(2) obtain x where x: "handle (PutOk path sz subs) n = (x, n')" by blast
  show ?thesis
  proof (cases "\<exists>r. x = Inr r \<and> success r")
    case True
    with x put_ok_file [OF assms(1)] show ?thesis by blast
  qed (use x refused [OF assms(1) x] in blast)
qed simp

lemma sdk_fsync_commits:
  assumes N: "nn_master N = handle" and fs: "sdk_fsync N fuel path w = (Inr (), w')"
    and st: "staged N path bsz p (local w)" and len: "length p < 2 ^ 31" "length p mod bsz \<noteq> 0" "bsz < 2 ^ 31" and bsz: "0 < bsz"
    and cache: "local_inode_cache w path = Some inode" "filesize inode = 0" "sub inode = []" "storage_type_ptr inode = Some ty"
      "inode_block_size inode = int bsz"
    and is_file: "is_file (namenodes w) path ty" and ok: "cluster_ok N" "disks_in N S w" and inj: "inj_on (cal_sha256sum N) S"
    and frags: "\<forall>j \<le> length p div bsz. \<forall>vec. st_encode (ec N) ty (blk bsz p j) = Inr vec \<longrightarrow> set vec \<subseteq> S \<and> (\<forall>f \<in> set vec. length f < 2 ^ 31)"
  shows "meta (namenodes w') = meta (namenodes w) \<or>
    ready (namenodes w') \<and> disks_in N S w' \<and>
    (\<exists>v i. ls path (namenodes w') = Inr (succ_response empty_response, v) \<and> inode_parse J v = Inr i \<and>
       filesize i = of_nat (length p) \<and> storage_type_ptr i = Some ty \<and>
       list_all2 (stored N ty w') (sub i) (map (blk bsz p) [0..<Suc (length p div bsz)]))"
proof -
  let ?k = "Suc (length p div bsz)" and ?d = "get_tmp_write_path N path"
  from staged_indices [OF st bsz len(1,2)] obtain "is" where
    ix: "rmapM stoi_res (dir_entries (local w) ?d) = Inr is" "is \<noteq> []" "sort is = map int [0..<?k]" by blast
  have dir: "fs_is_directory (local w) ?d" using st by (simp add: staged_def staging_area_def)
  then have ex: "fs_exists (local w) ?d" by (simp add: fs_is_directory_def fs_exists_def)
  have ld: "on_local (list_dir ?d) w = (Inr (dir_entries (local w) ?d), w)" using dir by (simp add: on_local_def onE_def list_dir_def)
  have gi: "sdk_get_inode path w = (Inr inode, w)"
    using cache(1) by (simp add: sdk_get_inode_def bindE_def getE_def retE_def)
  have last: "last (map int [0..<?k]) = int (length p div bsz)" by simp
  have rs: "resize_sub [] (int (length p div bsz)) = Inr (replicate ?k [])" by (simp add: resize_sub_def nat_add_distrib)
  from fs dir ex ld gi ix cache(3) last rs obtain subs last_size w1 resp where
    lp: "fsync_loop N fuel inode ?d (map int [0..<?k]) (replicate ?k []) 0 w = (Inr (subs, last_size), w1)"
    and call: "sdk_call N (PutOk path (word_of_int (to_int32 (uint (max (filesize inode)
      (word_of_int (int (length p div bsz)) * word_of_int (inode_block_size inode) + of_nat last_size))))) subs) w1 = (Inr resp, w')"
    by (auto simp: sdk_fsync_def Let_def bindE_Inr getE_def liftE_def retE_def simp del: upt_Suc)
  note blocks = staged_data [OF st bsz len]
  have "?k \<le> 2 ^ 31" using len(1) by (meson Suc_leI div_le_dividend le_less_trans)
  from fsync_loop_stored [OF cache(4) ok(1) inj this _ lp _ _ ok(2), of "blk bsz p"] frags [folded less_Suc_eq_le] blocks
  have l: "length subs = ?k" "\<forall>j < ?k. stored N ty w1 (subs ! j) (blk bsz p j)" "namenodes w1 = namenodes w"
    "last_size = length (blk bsz p (length p div bsz))" "disks_in N S w1" by auto
  have sz: "(word_of_int (to_int32 (uint (max (filesize inode)
      (word_of_int (int (length p div bsz)) * word_of_int (inode_block_size inode) + of_nat last_size)))) :: u64) = of_nat (length p)"
    using committed_size [OF bsz len(1)] cache(2,5) l(4) by simp
  note call' = sdk_call_state [OF call [unfolded sz]]
  have "list_all2 (stored N ty w') subs (map (blk bsz p) [0..<?k])"
    using l(1,2) call'(1) by (auto simp: list_all2_conv_all_nth stored_disks [of w' w1] simp del: upt_Suc)
  moreover have "disks_in N S w'" using l(5) call'(1) by (simp add: disks_in_def)
  moreover have "namenodes w' = namenodes w \<or> (\<exists>x. handle (PutOk path (of_nat (length p)) subs) (namenodes w) = (x, namenodes w'))"
    using call'(3) N l(3) by simp
  note put_ok_settles [OF is_file this]
  ultimately show ?thesis by blast
qed

end

sublocale meta_reliable < committing: atomic_file_service "serve J K env" "serve_lock J K env" "\<lambda>p r. nn_ls J K env' r p" J
    "\<lambda>r. db_ok J view (store r) \<and> db_ready r" "file_at J view" "\<lambda>r. ns_of J view (store r)" for env env'
  by unfold_locales (use serve_unchanged in \<open>auto simp: file_at_def\<close>)

context meta_reliable
begin

lemmas served_fsync = committing.sdk_fsync_commits

end

section \<open>Writing and syncing\<close>

text \<open>
  When no write ends on a block boundary, the writes of a client from the start of the open file return;
  after an \<open>fsync\<close> that returned, either the namespace is as before, or the file is listed with blocks
  that were stored and have the concatenation of the pieces.
\<close>

lemma write_fsync_commits:
  assumes "meta_reliable K view J" and "nn_master N = serve J K env" and "nn_slave_ls N = (\<lambda>p r. nn_ls J K env' r p)"
    and "cluster_ok N" and "disks_in N S w" and "file_at J view (namenodes w) path st"
    and "local_inode_cache w path = Some inode" and "filesize inode = 0" and "sub inode = []"
    and "storage_type_ptr inode = Some st" and "st_block_size st = int bsz" and "1 < bsz" and "bsz < 2 ^ 31"
    and "staged N path bsz [] (local w)"
    and "ss \<noteq> []" and "\<forall>k < length ss. ss ! k \<noteq> [] \<and> length (concat (take (Suc k) ss)) mod bsz \<noteq> 0"
    and "length (concat ss) < 2 ^ 31" and "inj_on (cal_sha256sum N) S"
    and "\<forall>j \<le> length (concat ss) div bsz. \<forall>vec. st_encode (ec N) st (blk bsz (concat ss) j) = Inr vec \<longrightarrow>
      set vec \<subseteq> S \<and> (\<forall>f \<in> set vec. length f < 2 ^ 31)"
    and "write_seq N path 0 ss w = (r, w1)" and "sdk_fsync N fuel path w1 = (Inr (), w2)"
  shows "r = Inr () \<and>
    (ns_of J view (store (namenodes w2)) = ns_of J view (store (namenodes w)) \<or>
     db_ok J view (store (namenodes w2)) \<and> db_ready (namenodes w2) \<and> disks_in N S w2 \<and>
     (\<exists>v i bs. nn_slave_ls N path (namenodes w2) = Inr (succ_response empty_response, v) \<and> inode_parse J v = Inr i \<and>
        filesize i = of_nat (length (concat ss)) \<and> storage_type_ptr i = Some st \<and> list_all2 (stored N st w2) (sub i) bs \<and>
        concat bs = concat ss \<and> (\<forall>b \<in> set bs. \<forall>vec. st_encode (ec N) st b = Inr vec \<longrightarrow> set vec \<subseteq> S)))"
proof -
  let ?p = "concat ss" and ?k = "Suc (length (concat ss) div bsz)"
  let ?bs = "map (blk bsz ?p) [0..<?k]"
  have bs: "inode_block_size inode = int bsz" using assms(10,11) by (simp add: inode_block_size_def)
  from write_seq_staged [OF assms(7,8) bs assms(12,13,14), of 0 ss] assms(16,17) obtain F where
    "write_seq N path 0 ss w = (Inr (), w\<lparr>local := F\<rparr>)" and F: "staged N path bsz ?p F" by auto
  with assms(20) have r: "r = Inr ()" and w1: "w1 = w\<lparr>local := F\<rparr>" by auto
  have "length ?p mod bsz \<noteq> 0" using assms(15,16) by (metis Suc_pred length_greater_0_conv lessI order_refl take_all)
  from meta_reliable.served_fsync [OF assms(1,2,21) _ assms(17) this assms(13), of inode st S env'] w1 F assms(4-12,18,19) bs
  have "ns_of J view (store (namenodes w2)) = ns_of J view (store (namenodes w)) \<or>
    (db_ok J view (store (namenodes w2)) \<and> db_ready (namenodes w2)) \<and> disks_in N S w2 \<and>
    (\<exists>v i. nn_slave_ls N path (namenodes w2) = Inr (succ_response empty_response, v) \<and> inode_parse J v = Inr i \<and>
      filesize i = of_nat (length ?p) \<and> storage_type_ptr i = Some st \<and> list_all2 (stored N st w2) (sub i) ?bs)"
    by (auto simp: disks_in_def assms(3) simp del: upt_Suc)
  moreover have "concat ?bs = ?p"
  proof -
    have "length ?p < ?k * bsz" using assms(12) dividend_less_times_div [of bsz "length ?p"] by (simp add: mult.commute)
    then show ?thesis unfolding concat_blk by simp
  qed
  moreover have "\<forall>b \<in> set ?bs. \<forall>vec. st_encode (ec N) st b = Inr vec \<longrightarrow> set vec \<subseteq> S"
    using assms(19) by (auto simp: less_Suc_eq_le simp del: upt_Suc)
  ultimately show ?thesis using r by blast
qed

end
