(* ===== verification/Sessions.thy ===== *)
theory Sessions
  imports WriteBack
begin

text \<open>
  A whole session of the mount on a file: \<open>open\<close> for writing makes the staging directories and takes the
  locks, the writes of \<open>WriteBack\<close> stage the bytes, \<open>close\<close> syncs them and gives the locks back.
\<close>

section \<open>Making the directories\<close>

lemma make_dir_find:
  assumes "make_dir p F = (Inr (), F')"
  shows "fs_find F' q = (if q = p \<and> fs_find F p = None then Some FDir else fs_find F q)"
    and "fs_find F' p = Some FDir" and "contents F' = contents F" and "denied F' = denied F"
    and "set (names F') \<subseteq> insert (p, FDir) (set (names F))"
  using assms by (auto simp: make_dir_def fs_find_def split: if_splits option.splits fnode.splits)

lemma make_dirs:
  assumes "forE ps make_dir F = (Inr (), F')" and "files_ok F"
  shows "files_ok F' \<and> contents F' = contents F \<and> denied F' = denied F \<and> (\<forall>q \<in> set ps. fs_find F' q = Some FDir) \<and>
    (\<forall>q. fs_find F q \<noteq> None \<or> q \<notin> set ps \<longrightarrow> fs_find F' q = fs_find F q) \<and>
    set (names F') \<subseteq> set (names F) \<union> (\<lambda>q. (q, FDir)) ` set ps"
  using assms
proof (induction ps arbitrary: F)
  case (Cons p ps)
  from Cons.prems(1) obtain F1 where d: "make_dir p F = (Inr (), F1)" and r: "forE ps make_dir F1 = (Inr (), F')"
    by (auto simp: bindE_Inr)
  note f = make_dir_find [OF d]
  have "files_ok F1" using files_ok_update(4) [OF Cons.prems(2) d] .
  from Cons.IH [OF r this] have IH: "files_ok F'" "contents F' = contents F1" "denied F' = denied F1"
    "\<forall>q \<in> set ps. fs_find F' q = Some FDir" "\<forall>q. fs_find F1 q \<noteq> None \<or> q \<notin> set ps \<longrightarrow> fs_find F' q = fs_find F1 q"
    "set (names F') \<subseteq> set (names F1) \<union> (\<lambda>q. (q, FDir)) ` set ps" by auto
  have "fs_find F' p = Some FDir" using IH(5) f(2) by simp
  moreover have "fs_find F' q = fs_find F q" if "fs_find F q \<noteq> None \<or> q \<notin> set (p # ps)" for q
    using that IH(5) f(1) [of q] by (auto split: if_splits)
  ultimately show ?case using IH f by auto
qed simp

lemma dir_prefixes_render:
  assumes "names_ok cs"
  shows "dir_prefixes (render True cs) = map (\<lambda>n. render True (take (Suc n) cs)) [0..<length cs]"
  using components_render [OF names_ok_plain [OF assms]] has_root_render [OF names_ok_plain [OF assms]]
  by (simp add: dir_prefixes_def)

lemma join_take_length: "length (join (take n cs)) \<le> length (join cs)"
proof (induction cs arbitrary: n rule: join.induct)
  case (2 t)
  then show ?case by (cases n) auto
next
  case (3 t u ts)
  show ?case
  proof (cases n)
    case (Suc m)
    then show ?thesis using "3.IH" [of m] by (cases m) auto
  qed simp
qed simp

lemma prefix_not_below:
  assumes "names_ok cs" and "q \<in> set (dir_prefixes (render True cs))"
  shows "\<not> below (render True cs) q"
proof -
  from assms obtain n where "q = render True (take n cs)" by (auto simp: dir_prefixes_render)
  then have "length q \<le> length (render True cs)" using join_take_length [of n cs] by (simp add: render_def)
  moreover have "below d q \<Longrightarrow> length d < length q" for d
    by (metis below_split length_append length_Cons less_add_Suc1 add_Suc_right)
  ultimately show ?thesis by (metis not_le)
qed

section \<open>The staging area\<close>

definition tmp_names :: "'n cluster \<Rightarrow> string \<Rightarrow> string list" where
  "tmp_names N path = [''tmp'', ''spkdfs'', ''fuse'', cal_md5sum N path]"

lemma tmp_names_ok:
  assumes "names_ok [cal_md5sum N path]"
  shows "names_ok (tmp_names N path)" and "names_ok (tmp_names N path @ [index_name i])"
    and "names_ok (tmp_names N path @ [''write''])" and "names_ok ((tmp_names N path @ [''write'']) @ [index_name i])"
proof -
  have "\<forall>c \<in> set (index_name i). is_digit c" "index_name i \<noteq> []" by (simp_all add: index_name_def string_of_nat_digits)
  then have "plain_name (index_name i)" "index_name i \<noteq> ''..''" by (auto simp: plain_name_def is_digit_def)
  with assms show "names_ok (tmp_names N path)" "names_ok (tmp_names N path @ [index_name i])"
    "names_ok (tmp_names N path @ [''write''])" "names_ok ((tmp_names N path @ [''write'']) @ [index_name i])"
    by (simp_all add: names_ok_def tmp_names_def plain_name_def)
qed

lemma tmp_renders:
  "get_tmp_path N path = render True (tmp_names N path)" "get_tmp_write_path N path = render True (tmp_names N path @ [''write''])"
  "copy_of N path j = render True (tmp_names N path @ [index_name (int j)])"
  "link_of N path j = render True ((tmp_names N path @ [''write'']) @ [index_name (int j)])"
  by (simp_all add: get_tmp_path_def get_tmp_write_path_def copy_of_def link_of_def get_tmp_index_path_def tmp_names_def render_def)

lemma tmp_below: "below (get_tmp_path N path) (copy_of N path j)" "below (get_tmp_path N path) (link_of N path j)"
  "below (get_tmp_write_path N path) q \<Longrightarrow> below (get_tmp_path N path) q"
proof -
  show "below (get_tmp_path N path) (copy_of N path j)" "below (get_tmp_path N path) (link_of N path j)"
    by (simp_all add: below_def copy_of_def link_of_def get_tmp_index_path_def get_tmp_write_path_def)
  assume "below (get_tmp_write_path N path) q"
  from below_split [OF this] obtain r where "q = get_tmp_path N path @ slash # r"
    by (auto simp: get_tmp_write_path_def)
  then show "below (get_tmp_path N path) q" by (simp add: below_def)
qed

text \<open>A machine that has not used the path: nothing lies below its directory, and it may write there.\<close>

definition untouched :: "'n cluster \<Rightarrow> string \<Rightarrow> files \<Rightarrow> bool" where
  "untouched N path F \<longleftrightarrow>
     files_ok F \<and> (\<forall>e \<in> set (names F). \<not> below (get_tmp_path N path) (fst e)) \<and>
     (\<forall>q. below (get_tmp_path N path) q \<longrightarrow> \<not> denied F q)"

lemma untouched_none:
  assumes "untouched N path F" and "below (get_tmp_path N path) q"
  shows "fs_find F q = None"
proof -
  have "q \<noteq> ''/''" using below_split [OF assms(2)] by (auto simp: get_tmp_path_def)
  moreover have "q \<notin> fst ` set (names F)" using assms by (auto simp: untouched_def)
  ultimately show ?thesis by (simp add: fs_find_def map_of_eq_None_iff)
qed

lemma tmp_dir_prefixes:
  assumes "names_ok [cal_md5sum N path]"
  shows "set (dir_prefixes (get_tmp_path N path)) \<subseteq> set (dir_prefixes (get_tmp_write_path N path))"
    and "get_tmp_path N path \<in> set (dir_prefixes (get_tmp_write_path N path))"
    and "get_tmp_write_path N path \<in> set (dir_prefixes (get_tmp_write_path N path))"
    and "copy_of N path j \<notin> set (dir_prefixes (get_tmp_write_path N path))"
    and "link_of N path j \<notin> set (dir_prefixes (get_tmp_write_path N path))"
proof -
  let ?t = "tmp_names N path" and ?ps = "dir_prefixes (get_tmp_path N path)" and ?qs = "dir_prefixes (get_tmp_write_path N path)"
  have ps: "?ps = map (\<lambda>n. render True (take (Suc n) ?t)) [0..<length ?t]"
    and qs: "?qs = map (\<lambda>n. render True (take (Suc n) (?t @ [''write'']))) [0..<Suc (length ?t)]"
    using dir_prefixes_render [OF tmp_names_ok(1) [OF assms]] dir_prefixes_render [OF tmp_names_ok(3) [OF assms]]
    by (simp_all add: tmp_renders)
  show "set ?ps \<subseteq> set ?qs" unfolding ps qs by (auto simp: image_iff)
  show "get_tmp_path N path \<in> set ?qs" "get_tmp_write_path N path \<in> set ?qs"
    unfolding qs unfolding tmp_renders by (force simp: image_iff tmp_names_def)+
  show "copy_of N path j \<notin> set ?qs" "link_of N path j \<notin> set ?qs"
    unfolding qs unfolding tmp_renders by (auto simp: render_def tmp_names_def less_Suc_eq take_Cons' index_name_hd)
qed

lemma staging_area_made:
  assumes md5: "names_ok [cal_md5sum N path]" and F: "untouched N path F"
    and d1: "mkdir_f (get_tmp_path N path) F = (Inr (), F1)" and d2: "mkdir_f (get_tmp_write_path N path) F1 = (Inr (), F2)"
  shows "staged N path bsz [] F2" and "clear_dir (get_tmp_write_path N path) F2 = (Inr (), F2)"
proof -
  let ?w = "get_tmp_write_path N path"
  let ?ps = "dir_prefixes (get_tmp_path N path)" and ?qs = "dir_prefixes ?w"
  note sub = tmp_dir_prefixes(1) [OF md5] and dirs = tmp_dir_prefixes(2,3) [OF md5] and free = tmp_dir_prefixes(4,5) [OF md5]
  have "files_ok F" using F by (simp add: untouched_def)
  from make_dirs [OF d1 [unfolded mkdir_f_def] this] have f1: "files_ok F1" "denied F1 = denied F"
    "\<forall>q. fs_find F q \<noteq> None \<or> q \<notin> set ?ps \<longrightarrow> fs_find F1 q = fs_find F q" "set (names F1) \<subseteq> set (names F) \<union> (\<lambda>q. (q, FDir)) ` set ?ps"
    by auto
  from make_dirs [OF d2 [unfolded mkdir_f_def] f1(1)] have f2: "files_ok F2" "denied F2 = denied F1"
    "\<forall>q \<in> set ?qs. fs_find F2 q = Some FDir"
    "\<forall>q. fs_find F1 q \<noteq> None \<or> q \<notin> set ?qs \<longrightarrow> fs_find F2 q = fs_find F1 q" "set (names F2) \<subseteq> set (names F1) \<union> (\<lambda>q. (q, FDir)) ` set ?qs"
    by auto
  have "fs_find F2 q = fs_find F q" if "q \<notin> set ?qs" for q using that sub f2(4) f1(3) by (metis subsetD)
  with free have none: "fs_find F2 (copy_of N path j) = None" "fs_find F2 (link_of N path j) = None" for j
    using untouched_none [OF F tmp_below(1)] untouched_none [OF F tmp_below(2)] by simp_all
  have nb: "\<not> below ?w (fst e)" if "e \<in> set (names F2)" for e
  proof -
    from that f2(5) f1(4) sub consider "e \<in> set (names F)" | "fst e \<in> set ?qs" by fastforce
    then show ?thesis
    proof cases
      case 1
      then show ?thesis using F tmp_below(3) by (auto simp: untouched_def)
    next
      case 2
      then show ?thesis using prefix_not_below [OF tmp_names_ok(3) [OF md5]] by (simp add: tmp_renders(2))
    qed
  qed
  have "path_parent (copy_of N path j) = get_tmp_path N path" "path_parent (link_of N path j) = ?w" for j
    using tmp_names_ok [OF md5] by (simp_all only: tmp_renders path_parent_render)
  moreover have "\<not> denied F (copy_of N path j)" "\<not> denied F (link_of N path j)" for j
    using F tmp_below(1,2) unfolding untouched_def by blast+
  ultimately have "staging_area N path F2"
    using f2(1-3) f1(2) dirs by (simp add: staging_area_def fs_is_directory_def)
  with none nb show "staged N path bsz [] F2" by (simp add: staged_def staged_block_def)
  have "dir_entries F2 ?w = []" using nb by (simp add: dir_entries_def filter_empty_conv)
  then show "clear_dir ?w F2 = (Inr (), F2)" by (simp add: clear_dir_def)
qed

section \<open>Opening for writing\<close>

lemma on_local_Inr: "on_local m w = (Inr x, w') \<longleftrightarrow> (\<exists>F. m (local w) = (Inr x, F) \<and> w' = w\<lparr>local := F\<rparr>)"
  by (auto simp: on_local_def onE_def split: prod.splits)

text \<open>A write lock that was had changes the machine's tables, and renews the namenode's lock.\<close>

lemma sdk_write_lock_Inr:
  assumes "sdk_write_lock N path w = (Inr (), w')"
  shows "local w' = local w \<and> disks w' = disks w \<and> local_inode_cache w' = local_inode_cache w \<and>
    (\<exists>x. nn_master_lock N [path] (namenodes w) = (x, namenodes w'))"
  using assms
  by (auto simp: sdk_write_lock_def lock_remote_def lock_remote_path_def lock_remote_paths_def on_locks_def onE_def rpc_def
      thenE_def bindE_Inr modifyE_def liftE_def Let_def split: prod.splits sum.splits call_fate.splits)

text \<open>\<open>update_inode\<close> of a path the client does not know removes no local copy.\<close>

lemma update_inode_fresh:
  assumes "update_inode N path w = (Inr (), w')" and "local_inode_cache w path = None"
  shows "local w' = local w \<and> disks w' = disks w \<and> namenodes w' = namenodes w"
proof -
  have "stale_indices (new_inode u) remote = []" for u remote by (simp add: stale_indices_def new_inode_def)
  with assms show ?thesis
    by (auto simp: update_inode_def get_remote_inode_def sdk_get_inode_def rpc_def
      thenE_def bindE_Inr getE_def modifyE_def liftE_def retE_def Let_def split: prod.splits sum.splits call_fate.splits)
qed

lemma sdk_open_staged:
  assumes md5: "names_ok [cal_md5sum N path]" and F: "untouched N path (local w0)" and cache: "local_inode_cache w0 path = None"
    and o: "sdk_open N fuel path O_WRONLY w0 = (Inr (), w)"
  shows "staged N path bsz [] (local w) \<and> disks w = disks w0 \<and> (\<exists>x. nn_master_lock N [path] (namenodes w0) = (x, namenodes w))"
proof -
  have fl: "O_WRONLY AND O_CREAT = 0" "O_WRONLY AND O_TRUNC = 0" "O_WRONLY AND O_ACCMODE \<noteq> O_RDONLY"
    by (simp_all add: O_WRONLY_def O_CREAT_def O_TRUNC_def O_ACCMODE_def O_RDONLY_def)
  from o obtain F1 w1 F2 F3 where d1: "mkdir_f (get_tmp_path N path) (local w0) = (Inr (), F1)"
    and l: "sdk_write_lock N path (w0\<lparr>local := F1\<rparr>) = (Inr (), w1)"
    and d2: "mkdir_f (get_tmp_write_path N path) (local w1) = (Inr (), F2)"
    and c: "clear_dir (get_tmp_write_path N path) F2 = (Inr (), F3)"
    and u: "update_inode N path (w1\<lparr>local := F3\<rparr>) = (Inr (), w)"
    by (auto simp: sdk_open_def fl whenE_def thenE_def bindE_Inr on_local_Inr retE_def)
  note lk = sdk_write_lock_Inr [OF l]
  have "mkdir_f (get_tmp_write_path N path) F1 = (Inr (), F2)" using d2 lk by simp
  note made = staging_area_made [OF md5 F d1 this]
  have "F3 = F2" using made(2) c by simp
  with update_inode_fresh [OF u] lk cache made(1) show ?thesis by auto
qed

lemma sdk_close_Inr:
  assumes "sdk_close N fuel path w = (Inr (), w')"
  shows "\<exists>wf. sdk_fsync N fuel path w = (Inr (), wf) \<and> disks wf = disks w' \<and> namenodes wf = namenodes w' \<and>
    local_inode_cache w' path = None"
proof -
  from assms obtain wf where "sdk_fsync N fuel path w = (Inr (), wf)"
    and u: "on_locks (pl_unlock (get_tmp_path N path)) (wf\<lparr>local_inode_cache := (local_inode_cache wf)(path := None),
      remoteLocks := filter (\<lambda>p. p \<noteq> path) (remoteLocks wf)\<rparr>) = (Inr (), w')"
    by (auto simp: sdk_close_def sdk_unlock_def unlock_remote_def thenE_def bindE_Inr modifyE_def)
  then show ?thesis by (auto simp: on_locks_def onE_def split: prod.splits)
qed

section \<open>A session\<close>

text \<open>
  A client machine that has not used the path opens the file for writing, writes pieces one after the
  other and closes it.
\<close>

lemma session_commits:
  assumes "meta_reliable K view J"
    and "nn_master N = serve J K env" and "nn_master_lock N = serve_lock J K env" and "nn_slave_ls N = (\<lambda>p r. nn_ls J K env' r p)"
    and "names_ok [cal_md5sum N path]"
    and "cluster_ok N" and "disks_in N S w" and "file_at J view (namenodes w) path st"
    and "untouched N path (local w)" and "local_inode_cache w path = None"
    and "sdk_open N fuel path O_WRONLY w = (Inr (), w1)"
    and "local_inode_cache w1 path = Some inode" and "filesize inode = 0" and "sub inode = []"
    and "storage_type_ptr inode = Some st" and "st_block_size st = int bsz" and "1 < bsz" and "bsz < 2 ^ 31"
    and "ss \<noteq> []" and "\<forall>k < length ss. ss ! k \<noteq> [] \<and> length (concat (take (Suc k) ss)) mod bsz \<noteq> 0"
    and "length (concat ss) < 2 ^ 31" and "inj_on (cal_sha256sum N) S"
    and "\<forall>j \<le> length (concat ss) div bsz. \<forall>vec. st_encode (ec N) st (blk bsz (concat ss) j) = Inr vec \<longrightarrow>
      set vec \<subseteq> S \<and> (\<forall>f \<in> set vec. length f < 2 ^ 31)"
    and "write_seq N path 0 ss w1 = (r, w2)" and "sdk_close N fuel path w2 = (Inr (), w3)"
  shows "r = Inr () \<and> local_inode_cache w3 path = None \<and>
    (ns_of J view (store (namenodes w3)) = ns_of J view (store (namenodes w1)) \<or>
     db_ok J view (store (namenodes w3)) \<and> db_ready (namenodes w3) \<and> disks_in N S w3 \<and>
     (\<exists>v i bs. nn_slave_ls N path (namenodes w3) = Inr (succ_response empty_response, v) \<and> inode_parse J v = Inr i \<and>
        filesize i = of_nat (length (concat ss)) \<and> storage_type_ptr i = Some st \<and> list_all2 (stored N st w3) (sub i) bs \<and>
        concat bs = concat ss \<and> (\<forall>b \<in> set bs. \<forall>vec. st_encode (ec N) st b = Inr vec \<longrightarrow> set vec \<subseteq> S)))"
proof -
  from sdk_open_staged [OF assms(5,9,10,11)] obtain x where st: "staged N path bsz [] (local w1)" and d: "disks w1 = disks w"
    and x: "serve_lock J K env [path] (namenodes w) = (x, namenodes w1)" using assms(3) by auto
  have fa: "file_at J view (namenodes w1) path st" by (rule meta_reliable.lock_keeps_file [OF assms(1,8) x])
  have dok: "disks_in N S w1" using assms(7) d by (simp add: disks_in_def)
  from sdk_close_Inr [OF assms(25)] obtain wf where f: "sdk_fsync N fuel path w2 = (Inr (), wf)"
    and wf: "disks wf = disks w3" "namenodes wf = namenodes w3" "local_inode_cache w3 path = None" by blast
  have "disks_in N S wf = disks_in N S w3" using wf(1) by (simp add: disks_in_def)
  with write_fsync_commits [OF assms(1,2,4,6) dok fa assms(12-18) st assms(19-24) f] wf stored_disks [OF wf(1), of N st]
  show ?thesis by simp
qed

end
