(* ===== verification/Durability.thy ===== *)
theory Durability
  imports Sessions Traffic
begin

text \<open>
  What a client committed stays: other clients work on other paths, locks are renewed, and the disks of
  some datanodes are emptied or changed, and a \<open>get\<close> still returns the bytes of the file as long as every
  block has enough fragments on good nodes.  A damaged fragment is found by its hash.
\<close>

section \<open>What happens meanwhile\<close>

text \<open>
  The servers between two calls of a client: other clients' requests for other paths, renewals of any
  locks, fragments other clients store, and damage to the disk of a node outside of \<open>good\<close>, which may be
  emptied or hold anything else.  All data lies in \<open>S\<close>.
\<close>

inductive meanwhile ::
    "json_lib \<Rightarrow> ('db, 'bk) kv_lib \<Rightarrow> 'n cluster \<Rightarrow> string \<Rightarrow> string set \<Rightarrow> string set \<Rightarrow>
     ('db, 'bk) rocksdb \<times> (string \<Rightarrow> files) \<Rightarrow> ('db, 'bk) rocksdb \<times> (string \<Rightarrow> files) \<Rightarrow> bool"
  for J K N key S good where
  request: "leaves key req \<Longrightarrow> serve J K env req r = (x, r') \<Longrightarrow> meanwhile J K N key S good (r, D) (r', D)"
| renewal: "serve_lock J K env paths r = (x, r') \<Longrightarrow> meanwhile J K N key S good (r, D) (r', D)"
| storing: "f \<in> S \<Longrightarrow> length f < 2 ^ 31 \<Longrightarrow> dn_put (dn_dir N) (cal_sha256sum N f) f (D node) = (x, F) \<Longrightarrow>
     meanwhile J K N key S good (r, D) (r, D(node := F))"
| damage: "node \<notin> good \<Longrightarrow> unshared F \<Longrightarrow> answerable N S F \<Longrightarrow> meanwhile J K N key S good (r, D) (r, D(node := F))"

text \<open>The fragment \<open>f\<close> has its placement, and its node holds it if it is good.\<close>

definition safe :: "'n cluster \<Rightarrow> string set \<Rightarrow> string set \<Rightarrow> (string \<Rightarrow> files) \<Rightarrow> string \<times> string \<Rightarrow> string \<Rightarrow> bool" where
  "safe N S good D p f \<longleftrightarrow>
     f \<in> S \<and> snd p = cal_sha256sum N f \<and> (fst p \<in> good \<longrightarrow> holds_block (dn_dir N) (D (fst p)) (snd p) f)"

lemma safe_kept:
  assumes "safe N S good (disks w) p f" and "inj_on (cal_sha256sum N) S" and "\<forall>n. answerable N S (disks w n)"
  shows "kept N good w p f"
proof -
  have "snd x = f" if "fst (dn_get (dn_dir N) (snd p) (disks w (fst p))) = Inr x" "success (fst x)"
    "cal_sha256sum N (snd x) = snd p" for x
    using that assms unfolding safe_def answerable_def by (metis inj_onD)
  then show ?thesis using assms(1) by (auto simp: safe_def kept_def placed_def)
qed

lemma meanwhile_disks:
  assumes "meanwhile J K N key S good (r, D) (r', D')" and "\<forall>n. unshared (D n) \<and> answerable N S (D n)"
    and "inj_on (cal_sha256sum N) S"
  shows "(\<forall>n. unshared (D' n) \<and> answerable N S (D' n)) \<and> (safe N S good D p f \<longrightarrow> safe N S good D' p f)"
  using assms(1)
proof cases
  case (storing g node x F)
  have "unshared F" using unshared_put storing(5) assms(2) by blast
  moreover have "answerable N S F" using answerable_put storing(3-5) assms(2) by blast
  moreover have "holds_block (dn_dir N) F (snd p) f" if "safe N S good D p f" "fst p = node" "node \<in> good"
  proof -
    have "snd p \<noteq> cal_sha256sum N g \<or> f = g" using that(1) storing(3) assms(3) by (auto simp: safe_def dest: inj_onD)
    with that datanode.put_keeps [OF _ storing(5)] assms(2) show ?thesis by (auto simp: safe_def)
  qed
  ultimately show ?thesis using storing(2) assms(2) by (auto simp: safe_def)
next
  case (damage node F)
  then show ?thesis using assms(2) by (auto simp: safe_def)
qed (use assms(2) in auto)

lemma meanwhile_disks_steps:
  assumes "(meanwhile J K N key S good)\<^sup>*\<^sup>* (r, D) (r', D')" and "\<forall>n. unshared (D n) \<and> answerable N S (D n)"
    and "inj_on (cal_sha256sum N) S"
  shows "(\<forall>n. unshared (D' n) \<and> answerable N S (D' n)) \<and> (\<forall>p f. safe N S good D p f \<longrightarrow> safe N S good D' p f)"
  using assms(1)
proof (induction "(r', D')" arbitrary: r' D' rule: rtranclp_induct)
  case base
  with assms(2) show ?case by simp
next
  case (step y r' D')
  obtain r1 D1 where y: "y = (r1, D1)" by (cases y)
  with step(3) meanwhile_disks [OF step(2) [unfolded y] _ assms(3)] show ?case by blast
qed

context meta_reliable
begin

lemma meanwhile_listed:
  assumes "(meanwhile J K N key S good)\<^sup>*\<^sup>* (r, D) (r', D')" and "listed J view r key i"
  shows "listed J view r' key i"
  using assms(1)
proof (induction "(r', D')" arbitrary: r' D' rule: rtranclp_induct)
  case (step y r' D')
  from step(2) step(3) show ?case
    by (cases rule: meanwhile.cases) (auto intro: serve_leaves serve_lock_listed)
qed (use assms(2) in simp)

end

section \<open>Getting a file later\<close>

lemma stored_safe:
  assumes "stored N st w s b" and "st_encode (ec N) st b = Inr vec" and "set vec \<subseteq> S"
  shows "list_all2 (safe N S good (disks w)) (decode_one_sub s) (take (length (decode_one_sub s)) vec)"
proof -
  from assms(1,2) have "list_all2 (placed N w) (decode_one_sub s) (take (length (decode_one_sub s)) vec)"
    by (auto simp: stored_def)
  then show ?thesis
    by (rule list.rel_mono_strong) (use assms(3) in \<open>auto simp: placed_def safe_def dest!: in_set_takeD\<close>)
qed

context meta_reliable
begin

lemma get_meanwhile:
  assumes N: "nn_slave_ls N = (\<lambda>p r. nn_ls J K env' r p)" "js N = J" and path: "path \<noteq> []"
    and ready: "db_ok J view (store (namenodes w1))" "db_ready (namenodes w1)" "disks_in N S w1"
    and ls: "nn_slave_ls N path (namenodes w1) = Inr (succ_response empty_response, v)" "inode_parse J v = Inr i"
      "storage_type_ptr i = Some st" "unat (filesize i) < 2 ^ 63"
    and blocks: "list_all2 (stored N st w1) (sub i) bs" "\<forall>b \<in> set bs. \<forall>vec. st_encode (ec N) st b = Inr vec \<longrightarrow> set vec \<subseteq> S"
    and S: "inj_on (cal_sha256sum N) S"
    and enough: "\<forall>s \<in> set (sub i). getDecodeBlocks st \<le> int (length (filter (\<lambda>p. fst p \<in> good) (decode_one_sub s)))"
    and later: "(meanwhile J K N (simplify_path path) S good)\<^sup>*\<^sup>* (namenodes w1, disks w1) (namenodes w2, disks w2)"
    and codec: "storage_codec (ec N) st" and net: "\<forall>c \<ge> calls w2. fate N c = Delivered"
    and F: "files_ok (local w2)" "open_out False out (local w2) = (Some h, F1)"
  shows "\<exists>w3. sdk_get N path out w2 = (Inr (), w3) \<and> fs_data (local w3) out =
    Some (take (unat (filesize i)) (concat bs @ replicate (unat (filesize i) - length (concat bs)) (CHR 0x00)))"
proof -
  have "listed J view (namenodes w1) (simplify_path path) i \<and> valid i"
    using ls_listed [OF ready(1,2) path] ls(1-3) N(1) by auto
  then have l: "listed J view (namenodes w2) (simplify_path path) i" "valid i" using meanwhile_listed [OF later] by blast+
  from listed_ls [OF l path, of env'] obtain v' j where
    j: "nn_slave_ls N path (namenodes w2) = Inr (succ_response empty_response, v')" "inode_parse (js N) v' = Inr j"
      "sub j = sub i" "filesize j = filesize i" "storage_type_ptr j = Some st" using N ls(3) by auto
  have "\<forall>n. unshared (disks w1 n) \<and> answerable N S (disks w1 n)" using ready(3) by (simp add: disks_in_def)
  note d = meanwhile_disks_steps [OF later this S]
  have "recoverable N st good w2 s b" if "s \<in> set (sub i)" "b \<in> set bs" "stored N st w1 s b" for s b
  proof -
    from that(3) obtain vec where vec: "st_encode (ec N) st b = Inr vec" by (auto simp: stored_def)
    with that(2) blocks(2) have "list_all2 (safe N S good (disks w1)) (decode_one_sub s) (take (length (decode_one_sub s)) vec)"
      by (intro stored_safe [OF that(3) vec]) blast
    then have "list_all2 (kept N good w2) (decode_one_sub s) (take (length (decode_one_sub s)) vec)"
      by (rule list_all2_mono) (use d S safe_kept in blast)
    with vec enough that(1) show ?thesis by (auto simp: recoverable_def)
  qed
  then have "list_all2 (recoverable N st good w2) (sub j) bs"
    unfolding j(3) using blocks(1) by (rule list.rel_mono_strong [rotated])
  from sdk_get_recoverable [OF j(1,2,5) codec this net F] ls(4) j(4) show ?thesis by simp
qed

end

section \<open>Concrete runs\<close>

lemma answerable_empty: "dn_dir N = ''/d'' \<Longrightarrow> answerable N S empty_disk"
  using dn_get_data [of "''/d''" _ empty_disk]
  by (force simp: answerable_def empty_disk_def fs_data_def fs_find_def block_path_def)

text \<open>Two datanodes, a file kept as two replicas, and a fresh client.\<close>

definition pair_cluster :: "((string \<rightharpoonup> string, (string \<rightharpoonup> string) list) rocksdb) cluster" where
  "pair_cluster = file_cluster\<lparr>dn_nodes := (\<lambda>_. [default_node\<lparr>ip := ''a'', port := 1\<rparr>, default_node\<lparr>ip := ''b'', port := 1\<rparr>])\<rparr>"

definition pair_inode :: inode where
  "pair_inode = typed_inode\<lparr>storage_type_ptr := Some (RE 2 1)\<rparr>"

definition pair_text :: string where
  "pair_text = (case inode_value text_json pair_inode of Inr v \<Rightarrow> v | Inl _ \<Rightarrow> [])"

definition fresh :: "((string \<rightharpoonup> string, (string \<rightharpoonup> string) list) rocksdb) world" where
  "fresh = file_world\<lparr>namenodes := empty_db\<lparr>store := [''/f'' \<mapsto> pair_text]\<rparr>, local := empty_disk\<rparr>"

text \<open>The world after \<open>open\<close>, after a write, and after \<open>close\<close>; then the first node loses its disk.\<close>

definition opened :: "((string \<rightharpoonup> string, (string \<rightharpoonup> string) list) rocksdb) world" where
  "opened = snd (sdk_open pair_cluster 5 ''/f'' O_WRONLY fresh)"

definition written :: "((string \<rightharpoonup> string, (string \<rightharpoonup> string) list) rocksdb) world" where
  "written = snd (write_seq pair_cluster ''/f'' 0 [''abc''] opened)"

definition closed :: "((string \<rightharpoonup> string, (string \<rightharpoonup> string) list) rocksdb) world" where
  "closed = snd (sdk_close pair_cluster 5 ''/f'' written)"

definition damaged :: "((string \<rightharpoonup> string, (string \<rightharpoonup> string) list) rocksdb) world" where
  "damaged = closed\<lparr>disks := (disks closed)(''a:1'' := empty_disk)\<rparr>"

lemma run_opened:
  "(case sdk_open pair_cluster 5 ''/f'' O_WRONLY fresh of (r, w) \<Rightarrow>
      (r, local_inode_cache w ''/f'', map_option filesize (ns_of text_json (\<lambda>m. m) (store (namenodes w)) ''/f''))) =
   (Inr (), Some pair_inode, Some 0)"
  by code_simp

lemma run_closed:
  "(case sdk_close pair_cluster 5 ''/f'' written of (r, w) \<Rightarrow>
      (r, map_option filesize (ns_of text_json (\<lambda>m. m) (store (namenodes w)) ''/f''),
       rmap (\<lambda>(_, v). rmap (\<lambda>i. map (\<lambda>s. map fst (decode_one_sub s)) (sub i)) (inode_parse text_json v))
         (nn_slave_ls pair_cluster ''/f'' (namenodes w)),
       names (local w), next_ino (local w), fst (open_out False ''/d/o'' (local w)))) =
   (Inr (), Some 3, Inr (Inr [[''a:1'', ''b:1'']]),
    [(''/tmp/spkdfs/fuse/m/0'', FFile 0), (''/tmp/spkdfs/fuse/m/write'', FDir), (''/tmp/spkdfs/fuse/m'', FDir),
     (''/tmp/spkdfs/fuse'', FDir), (''/tmp/spkdfs'', FDir), (''/tmp'', FDir), (''/d'', FDir)],
    1, Some 1)"
  by code_simp

lemmas run_opened_parts = run_opened [unfolded case_prod_beta prod.inject, folded opened_def]

lemmas run_closed_parts = run_closed [unfolded case_prod_beta prod.inject, folded closed_def]

lemma pair_parse: "inode_parse text_json pair_text = Inr pair_inode"
  by code_simp

lemma fresh_untouched: "untouched pair_cluster ''/f'' (local fresh)"
  by (auto simp: untouched_def fresh_def empty_disk_def files_ok_def below_def get_tmp_path_def)

section \<open>Properties\<close>

text \<open>
C4: A file put into the cluster survives.  After \<open>put\<close> returned, by whatever calls failed on the way,
other clients send requests for other paths, renew locks and store fragments, and the disks of the
datanodes outside of \<open>good\<close> are emptied or hold anything else; a \<open>get\<close> of the path while the servers answer
still returns and writes exactly the bytes of the file, if every block has as many placements on good
nodes as its storage type needs.  SHA-256 is taken to have no collision among the data that occurs.  The
path goes through the client's blocks, the datanodes' files and the namenode's handlers, log and store.
\<close>

theorem put_survives:
  assumes "meta_reliable K view J"
    and "nn_master N = serve J K env" and "nn_master_lock N = serve_lock J K env"
    and "nn_slave_ls N = (\<lambda>p r. nn_ls J K env' r p)" and "js N = J"
    and "cluster_ok N" and "disks_in N S w" and "db_ok J view (store (namenodes w))" and "db_ready (namenodes w)"
    and "st_from_string t = Inr st" and "0 < st_block_size st" and "storage_codec (ec N) st"
    and "fs_data (local w) src = Some content" and "length content < 2 ^ 63"
    and "\<forall>b \<in> set (blocks_of (nat (st_block_size st)) (replicate (nat (st_block_size st)) (CHR 0x00)) content).
      \<forall>vec. st_encode (ec N) st b = Inr vec \<longrightarrow> set vec \<subseteq> S \<and> (\<forall>f \<in> set vec. length f < 2 ^ 31)"
    and "inj_on (cal_sha256sum N) S" and "dst \<noteq> []"
    and "sdk_put N fuel src dst t w = (Inr (), w1)"
    and "\<forall>v i s. nn_slave_ls N dst (namenodes w1) = Inr (succ_response empty_response, v) \<longrightarrow> inode_parse J v = Inr i \<longrightarrow>
      s \<in> set (sub i) \<longrightarrow> getDecodeBlocks st \<le> int (length (filter (\<lambda>p. fst p \<in> good) (decode_one_sub s)))"
    and "(meanwhile J K N (simplify_path dst) S good)\<^sup>*\<^sup>* (namenodes w1, disks w1) (namenodes w2, disks w2)"
    and "\<forall>c \<ge> calls w2. fate N c = Delivered" and "files_ok (local w2)" and "open_out False out (local w2) = (Some h, F1)"
  shows "\<exists>w3. sdk_get N dst out w2 = (Inr (), w3) \<and> fs_data (local w3) out = Some content"
proof -
  let ?bs = "nat (st_block_size st)"
  let ?B = "blocks_of ?bs (replicate ?bs (CHR 0x00)) content"
  have ready: "db_ok J view (store (namenodes w)) \<and> db_ready (namenodes w)" using assms(8,9) by blast
  from meta_reliable.served_put [OF assms(1-3,18) ready assms(10,13,11,6,7,16,15), where env' = env']
  obtain v i where ok: "db_ok J view (store (namenodes w1))" "db_ready (namenodes w1)" "disks_in N S w1"
    and i: "nn_slave_ls N dst (namenodes w1) = Inr (succ_response empty_response, v)" "inode_parse J v = Inr i"
    "filesize i = of_nat (length content)" "storage_type_ptr i = Some st" "list_all2 (stored N st w1) (sub i) ?B"
    unfolding assms(4) by blast
  have fsz: "unat (filesize i) = length content" using i(3) assms(14) by (simp add: unat_of_nat)
  have tk: "take (length content) (concat ?B) = content" using assms(11) by (intro take_blocks_of) auto
  then have len: "length content \<le> length (concat ?B)" by (metis length_take min.absorb_iff1 min.commute)
  have "unat (filesize i) < 2 ^ 63" "\<forall>b \<in> set ?B. \<forall>vec. st_encode (ec N) st b = Inr vec \<longrightarrow> set vec \<subseteq> S"
    "\<forall>s \<in> set (sub i). getDecodeBlocks st \<le> int (length (filter (\<lambda>p. fst p \<in> good) (decode_one_sub s)))"
    using fsz assms(14,15,19) i(1,2) by auto
  from meta_reliable.get_meanwhile [OF assms(1,4,5,17) ok i(1,2,4) this(1) i(5) this(2) assms(16) this(3) assms(20,12,21-23)]
  show ?thesis unfolding fsz using tk len by simp
qed

theorem put_survives_witness:
  "\<exists>w1 w2 w3. sdk_put file_cluster 5 ''/d/s'' ''/f'' ''RE<1,1>'' file_world = (Inr (), w1) \<and>
     namenodes w2 = snd (serve text_json map_kv (leader_env 3) (Mkdir ''/x'') (namenodes w1)) \<and>
     sdk_get file_cluster ''/f'' ''/d/o'' w2 = (Inr (), w3) \<and> fs_data (local w3) ''/d/o'' = Some ''data''"
proof -
  let ?bs = "nat (st_block_size (RE 1 1))"
  let ?B = "blocks_of ?bs (replicate ?bs (CHR 0x00)) ''data''"
  from file_put obtain w1 where put: "sdk_put file_cluster 5 ''/d/s'' ''/f'' ''RE<1,1>'' file_world = (Inr (), w1)"
    and loc: "local w1 = local file_world"
    and nn: "serve text_json map_kv (leader_env 2) (PutOk ''/f'' 4 [''a:1|h'']) typed_db = (Inr (succ_response empty_response), namenodes w1)"
    by blast
  let ?s = "serve text_json map_kv (leader_env 3) (Mkdir ''/x'') (namenodes w1)"
  let ?w2 = "w1\<lparr>namenodes := snd ?s, disks := (disks w1)(''b:1'' := empty_disk)\<rparr>"
  have st: "st_from_string ''RE<1,1>'' = Inr (RE 1 1)" by code_simp
  have pos: "0 < st_block_size (RE 1 1)" "?bs < 2 ^ 31" "4 \<le> ?bs" by (simp_all add: st_block_size_def to_int32_id)
  have codec: "storage_codec (ec file_cluster) (RE 1 1)" by (rule storage_codec_RE) simp
  have src: "fs_data (local file_world) ''/d/s'' = Some ''data''" by (simp add: file_world_def fs_data_def fs_find_def)
  have frags: "\<forall>b \<in> set ?B. \<forall>vec. st_encode (ec file_cluster) (RE 1 1) b = Inr vec \<longrightarrow>
      set vec \<subseteq> set ?B \<and> (\<forall>f \<in> set vec. length f < 2 ^ 31)"
    using blocks_of_length [of "replicate ?bs (CHR 0x00)" ?bs] pos(2) by fastforce
  have "blocks_of bs blk ''data'' = [''data'' @ drop 4 blk]" if "4 \<le> bs" for bs blk
    using that by (simp add: blocks_of.simps [of bs] Let_def eval_nat_numeral)
  then have inj: "inj_on (cal_sha256sum file_cluster) (set ?B)" using pos by simp
  have "path_parent ''/d/o'' = ''/d''" by code_simp
  then obtain h F where out: "open_out False ''/d/o'' (local ?w2) = (Some h, F)"
    using loc by (simp add: open_out_def file_world_def fs_find_def fs_is_directory_def)
  have ok: "files_ok (local ?w2)" using loc by (simp add: files_ok_def file_world_def)
  have din: "disks_in file_cluster (set ?B) file_world"
    using unshared_empty_disk answerable_empty [of file_cluster] by (simp add: disks_in_def file_world_def)
  have db: "db_ok text_json (\<lambda>m. m) (store (namenodes file_world))" "db_ready (namenodes file_world)"
    using empty_db_ok by (simp_all add: file_world_def)
  have plc: "\<forall>v i s. nn_slave_ls file_cluster ''/f'' (namenodes w1) = Inr (succ_response empty_response, v) \<longrightarrow>
      inode_parse text_json v = Inr i \<longrightarrow> s \<in> set (sub i) \<longrightarrow>
      getDecodeBlocks (RE 1 1) \<le> int (length (filter (\<lambda>p. fst p \<in> {''a:1''}) (decode_one_sub s)))"
  proof -
    from map_meta.put_ok_lists_file [OF typed_file nn, of "leader_env 2"] obtain v i where
      "nn_slave_ls file_cluster ''/f'' (namenodes w1) = Inr (succ_response empty_response, v)" "inode_parse text_json v = Inr i"
      "sub i = [''a:1|h'']" by (auto simp: succ_response_def)
    moreover have "decode_one_sub ''a:1|h'' = [(''a:1'', ''h'')]" by code_simp
    ultimately show ?thesis by auto
  qed
  let ?m = "meanwhile text_json map_kv file_cluster (simplify_path ''/f'') (set ?B) {''a:1''}"
  have "leaves (simplify_path ''/f'') (Mkdir ''/x'')" by code_simp
  then have "?m (namenodes w1, disks w1) (snd ?s, disks w1)" by (rule meanwhile.request) (rule prod.collapse [symmetric])
  moreover have "?m (snd ?s, disks w1) (namenodes ?w2, disks ?w2)"
    using meanwhile.damage [of "''b:1''" "{''a:1''}" empty_disk file_cluster "set ?B"] unshared_empty_disk answerable_empty [of file_cluster]
    by simp
  ultimately have later: "?m\<^sup>*\<^sup>* (namenodes w1, disks w1) (namenodes ?w2, disks ?w2)" by (meson r_into_rtranclp rtranclp.rtrancl_into_rtrancl)
  from put_survives [OF map_meta_reliable _ _ _ _ file_cluster_ok(1) din db st pos(1) codec src _ frags inj _ put plc later _ ok out,
      of "leader_env 2" "leader_env 2"]
  obtain w3 where "sdk_get file_cluster ''/f'' ''/d/o'' ?w2 = (Inr (), w3)" "fs_data (local w3) ''/d/o'' = Some ''data''" by auto
  with put show ?thesis by (intro exI [of _ w1] exI [of _ ?w2] exI [of _ w3]) simp
qed

text \<open>
C5: A session on an empty file is all or nothing, and its file survives.  A client machine that has not
used the path opens the file for writing, writes pieces one after the other, no piece ending on a block
boundary, and closes it.  When \<open>open\<close> returned, the writes return; when \<open>close\<close> returned, by whatever calls
failed on the way, the path has left the client's cache and either the namespace is as after the \<open>open\<close>,
or a later \<open>get\<close> of the path, after the same traffic and damage to disks as for \<open>put\<close>, returns the
concatenation of the pieces.  Files are below 2 GB.
\<close>

theorem session_survives:
  assumes "meta_reliable K view J"
    and "nn_master N = serve J K env" and "nn_master_lock N = serve_lock J K env" and "nn_slave_ls N = (\<lambda>p r. nn_ls J K env' r p)"
    and "js N = J" and "names_ok [cal_md5sum N path]" and "path \<noteq> []"
    and "cluster_ok N" and "disks_in N S w" and "file_at J view (namenodes w) path st"
    and "untouched N path (local w)" and "local_inode_cache w path = None"
    and "sdk_open N fuel path O_WRONLY w = (Inr (), w1)"
    and "local_inode_cache w1 path = Some inode" and "filesize inode = 0" and "sub inode = []"
    and "storage_type_ptr inode = Some st" and "st_block_size st = int bsz" and "1 < bsz" and "bsz < 2 ^ 31"
    and "storage_codec (ec N) st"
    and "ss \<noteq> []" and "\<forall>k < length ss. ss ! k \<noteq> [] \<and> length (concat (take (Suc k) ss)) mod bsz \<noteq> 0"
    and "length (concat ss) < 2 ^ 31" and "inj_on (cal_sha256sum N) S"
    and "\<forall>j \<le> length (concat ss) div bsz. \<forall>vec. st_encode (ec N) st (blk bsz (concat ss) j) = Inr vec \<longrightarrow>
      set vec \<subseteq> S \<and> (\<forall>f \<in> set vec. length f < 2 ^ 31)"
    and "write_seq N path 0 ss w1 = (r, w2)" and "sdk_close N fuel path w2 = (Inr (), w3)"
    and "\<forall>v i s. nn_slave_ls N path (namenodes w3) = Inr (succ_response empty_response, v) \<longrightarrow> inode_parse J v = Inr i \<longrightarrow>
      s \<in> set (sub i) \<longrightarrow> getDecodeBlocks st \<le> int (length (filter (\<lambda>p. fst p \<in> good) (decode_one_sub s)))"
    and "(meanwhile J K N (simplify_path path) S good)\<^sup>*\<^sup>* (namenodes w3, disks w3) (namenodes w4, disks w4)"
    and "\<forall>c \<ge> calls w4. fate N c = Delivered" and "files_ok (local w4)" and "open_out False out (local w4) = (Some h, F1)"
  shows "r = Inr () \<and> local_inode_cache w3 path = None \<and>
    (ns_of J view (store (namenodes w3)) = ns_of J view (store (namenodes w1)) \<or>
     (\<exists>w5. sdk_get N path out w4 = (Inr (), w5) \<and> fs_data (local w5) out = Some (concat ss)))"
proof -
  note session = session_commits [OF assms(1-4,6,8-20,22-28)]
  moreover have "\<exists>w5. sdk_get N path out w4 = (Inr (), w5) \<and> fs_data (local w5) out = Some (concat ss)"
    if "ns_of J view (store (namenodes w3)) \<noteq> ns_of J view (store (namenodes w1))"
  proof -
    from that session obtain v i bs where ok: "db_ok J view (store (namenodes w3))" "db_ready (namenodes w3)" "disks_in N S w3"
      and i: "nn_slave_ls N path (namenodes w3) = Inr (succ_response empty_response, v)" "inode_parse J v = Inr i"
      "filesize i = of_nat (length (concat ss))" "storage_type_ptr i = Some st" "list_all2 (stored N st w3) (sub i) bs"
      "concat bs = concat ss" "\<forall>b \<in> set bs. \<forall>vec. st_encode (ec N) st b = Inr vec \<longrightarrow> set vec \<subseteq> S"
      by blast
    have fsz: "unat (filesize i) = length (concat ss)" using i(3) assms(24) by (simp add: unat_of_nat)
    then have "unat (filesize i) < 2 ^ 63"
      "\<forall>s \<in> set (sub i). getDecodeBlocks st \<le> int (length (filter (\<lambda>p. fst p \<in> good) (decode_one_sub s)))"
      using assms(24,29) i(1,2) by auto
    from meta_reliable.get_meanwhile [OF assms(1,4,5,7) ok i(1,2,4) this(1) i(5,7) assms(25) this(2) assms(30,21,31-33)]
    show ?thesis unfolding fsz i(6) by simp
  qed
  ultimately show ?thesis by blast
qed

theorem session_survives_witness:
  "disks damaged ''a:1'' = empty_disk \<and>
   (\<exists>w5. sdk_get pair_cluster ''/f'' ''/d/o'' damaged = (Inr (), w5) \<and> fs_data (local w5) ''/d/o'' = Some ''abc'')"
proof -
  have run: "sdk_open pair_cluster 5 ''/f'' O_WRONLY fresh = (Inr (), opened)"
    "write_seq pair_cluster ''/f'' 0 [''abc''] opened = (fst (write_seq pair_cluster ''/f'' 0 [''abc''] opened), written)"
    "sdk_close pair_cluster 5 ''/f'' written = (Inr (), closed)"
    using run_opened_parts run_closed_parts by (simp_all add: opened_def written_def closed_def prod_eq_iff)
  have eval: "names_ok [cal_md5sum pair_cluster ''/f'']" "cluster_ok pair_cluster" "disks_in pair_cluster {''abc''} fresh"
    "local_inode_cache fresh ''/f'' = None"
    using unshared_empty_disk answerable_empty [of pair_cluster]
    by (simp_all add: names_ok_def plain_name_def pair_cluster_def file_cluster_def cluster_ok_def addr_ok_def disks_in_def
        fresh_def file_world_def)
  have "simplify_path ''/f'' = ''/f''" by code_simp
  then have nn: "file_at text_json (\<lambda>m. m) (namenodes fresh) ''/f'' (RE 2 1)"
    using pair_parse by (simp add: file_at_def fresh_def empty_db_def db_ok_def ns_of_def pair_inode_def typed_inode_def)
  have bsz: "st_block_size (RE 2 1) = int 1048576" by (simp add: st_block_size_def to_int32_id)
  have codec: "storage_codec (ec pair_cluster) (RE 2 1)" by (rule storage_codec_RE) simp
  have cache: "local_inode_cache opened ''/f'' = Some pair_inode" using run_opened_parts by simp
  obtain F where out: "open_out False ''/d/o'' (local damaged) = (Some 1, F)"
    using run_closed_parts by (simp add: damaged_def) (metis prod.collapse)
  have ok: "files_ok (local damaged)" using run_closed_parts by (simp add: files_ok_def damaged_def)
  have enough: "\<forall>v i s. nn_slave_ls pair_cluster ''/f'' (namenodes closed) = Inr (succ_response empty_response, v) \<longrightarrow>
      inode_parse text_json v = Inr i \<longrightarrow> s \<in> set (sub i) \<longrightarrow>
      getDecodeBlocks (RE 2 1) \<le> int (length (filter (\<lambda>p. fst p \<in> {''b:1''}) (decode_one_sub s)))"
  proof (intro allI impI)
    fix v i s
    assume "nn_slave_ls pair_cluster ''/f'' (namenodes closed) = Inr (succ_response empty_response, v)"
      and "inode_parse text_json v = Inr i" and s: "s \<in> set (sub i)"
    then have "map (\<lambda>s. map fst (decode_one_sub s)) (sub i) = [[''a:1'', ''b:1'']]" using run_closed_parts by simp
    with s have "map fst (decode_one_sub s) = [''a:1'', ''b:1'']" by auto
    then show "getDecodeBlocks (RE 2 1) \<le> int (length (filter (\<lambda>p. fst p \<in> {''b:1''}) (decode_one_sub s)))"
      by (auto simp: map_eq_Cons_conv)
  qed
  have frags: "\<forall>j \<le> length (concat [''abc'']) div 1048576. \<forall>vec. st_encode (ec pair_cluster) (RE 2 1) (blk 1048576 (concat [''abc'']) j) = Inr vec \<longrightarrow>
      set vec \<subseteq> {''abc''} \<and> (\<forall>f \<in> set vec. length f < 2 ^ 31)"
    by (simp add: blk_def)
  have later: "(meanwhile text_json map_kv pair_cluster (simplify_path ''/f'') {''abc''} {''b:1''})\<^sup>*\<^sup>*
      (namenodes closed, disks closed) (namenodes damaged, disks damaged)"
  proof (rule r_into_rtranclp)
    have "answerable pair_cluster {''abc''} empty_disk" by (rule answerable_empty) (simp add: pair_cluster_def)
    then show "meanwhile text_json map_kv pair_cluster (simplify_path ''/f'') {''abc''} {''b:1''}
        (namenodes closed, disks closed) (namenodes damaged, disks damaged)"
      by (simp add: damaged_def meanwhile.damage unshared_empty_disk)
  qed
  have "ns_of text_json (\<lambda>m. m) (store (namenodes closed)) = ns_of text_json (\<lambda>m. m) (store (namenodes opened)) \<or>
      (\<exists>w5. sdk_get pair_cluster ''/f'' ''/d/o'' damaged = (Inr (), w5) \<and> fs_data (local w5) ''/d/o'' = Some (concat [''abc'']))"
    by (rule session_survives [OF map_meta_reliable _ _ _ _ eval(1) _ eval(2,3) nn fresh_untouched eval(4) run(1) cache
        _ _ _ bsz _ _ codec _ _ _ _ frags run(2,3) enough later _ ok out, of "leader_env 2" "leader_env 2",
        THEN conjunct2, THEN conjunct2])
      (simp_all add: pair_inode_def typed_inode_def pair_cluster_def)
  moreover have "ns_of text_json (\<lambda>m. m) (store (namenodes closed)) \<noteq> ns_of text_json (\<lambda>m. m) (store (namenodes opened))"
  proof
    assume "ns_of text_json (\<lambda>m. m) (store (namenodes closed)) = ns_of text_json (\<lambda>m. m) (store (namenodes opened))"
    then have "Some 3 = Some (0 :: u64)" using run_closed_parts run_opened_parts by (simp only:)
    then show False by simp
  qed
  ultimately show ?thesis by (simp add: damaged_def)
qed

end
