(* ===== verification/Mount.thy ===== *)
theory Mount
  imports Sdk
begin

text \<open>
  The constructor of the client (\<^verbatim>\<open>src/client/sdk.cpp\<close>), which picks the namenodes it talks to, and the
  mounted file system (\<^verbatim>\<open>src/client/fuse.cpp\<close>): the class \<open>FUSE\<close>, which connects to the first datanode
  that is online and repeats a call after a failure, and the callbacks, which turn exceptions into
  error numbers.  An exception that leaves a callback ends the process.  The command line client
  (\<^verbatim>\<open>src/client/main.cpp\<close>) makes one client and one call.
\<close>

section \<open>Connecting\<close>

text \<open>
  What a datanode answers to \<open>get_namenodes\<close>, a namenode to \<open>get_master\<close>, which addresses a channel can
  be opened for, and the random numbers.
\<close>

record connect_env =
  namenodes_at :: "string \<Rightarrow> node list"
  master_at :: "string \<Rightarrow> (response \<times> string) res"
  channel_ok :: "string \<Rightarrow> bool"
  rand_at :: "nat \<Rightarrow> nat"

definition get_slave_namenode :: "connect_env \<Rightarrow> string list \<Rightarrow> ('n world, string) eff" where
  "get_slave_namenode P nns =
     bindE (getE calls) (\<lambda>t.
       if nns = [] then throwE (Abort ''SIGFPE'')
       else retE (nns ! (rand_at P t mod length nns)))"

text \<open>The result has the addresses of the master and of the namenode that is read from.\<close>

definition sdk_new :: "'n cluster \<Rightarrow> connect_env \<Rightarrow> string \<Rightarrow> string \<Rightarrow> ('n world, string \<times> string) eff" where
  "sdk_new N P datanode namenode =
     thenE (modifyE (\<lambda>w. w\<lparr>dn_stubs := [], pathlocks := Map.empty, remoteLocks := [], local_inode_cache := Map.empty\<rparr>))
    (thenE (get_dn_stub datanode)
    (bindE (rpc N (liftE (get_namenodes (namenodes_at P datanode)))) (\<lambda>resp.
     thenE (liftE (check_response (map_option fst resp)))
       (let nns = snd (the resp)
        in bindE (if namenode = [] then get_slave_namenode P nns else retE namenode) (\<lambda>slave.
             if \<not> channel_ok P slave then throwE (StdException ''namenode_slave channel init failed'')
             else bindE (rpc N (liftE (master_at P slave))) (\<lambda>mresp.
               thenE (liftE (check_response (map_option fst mresp)))
                 (let master = snd (the mresp)
                  in if \<not> channel_ok P master then throwE (StdException ''namenode_master channel init failed'')
                     else if master = slave then
                       bindE (get_slave_namenode P (filter (\<lambda>n. n \<noteq> slave) nns)) (\<lambda>slave'.
                         if \<not> channel_ok P slave' then throwE (StdException ''namenode_slave channel init failed'')
                         else retE (master, slave'))
                     else retE (master, slave))))))))"

section \<open>The class FUSE\<close>

text \<open>The state says whether \<^verbatim>\<open>sdk\<close> is set.\<close>

type_synonym 'n fuse = "bool \<times> 'n world"

definition with_sdk :: "('n world, 'a) eff \<Rightarrow> ('n fuse, 'a) eff" where
  "with_sdk m s = (if fst s then case m (snd s) of (x, w) \<Rightarrow> (x, (True, w)) else (Inl (Undefined ''null pointer''), s))"

definition init_node :: "'n cluster \<Rightarrow> connect_env \<Rightarrow> node \<Rightarrow> ('n fuse, unit) eff" where
  "init_node N P n s =
     (case sdk_new N P (node_to_string n) [] (snd s) of
        (Inr _, w) \<Rightarrow> (Inr (), (True, w))
      | (Inl e, w) \<Rightarrow> (Inl e, (fst s, w)))"

text \<open>One batch: the first online node is connected to, and the result says whether there was one.\<close>

definition try_batch :: "'n cluster \<Rightarrow> connect_env \<Rightarrow> node list \<Rightarrow> ('n fuse, bool) eff" where
  "try_batch N P batch =
     bindE (getE (\<lambda>s. calls (snd s))) (\<lambda>t.
     bindE (liftE (node_discovery (echoes N t) batch)) (\<lambda>batch'.
       case find (\<lambda>n. nodeStatus n = ONLINE) batch' of
         None \<Rightarrow> retE False
       | Some n \<Rightarrow> bindE (init_node N P n) (\<lambda>_. retE True)))"

definition offline_error :: exn where
  "offline_error = StdException ''all nodes offline''"

fun init_loop :: "'n cluster \<Rightarrow> connect_env \<Rightarrow> node list \<Rightarrow> node list \<Rightarrow> ('n fuse, unit) eff" where
  "init_loop N P batch [] =
     (if batch = [] then throwE offline_error
      else bindE (try_batch N P batch) (\<lambda>found. if found then retE () else throwE offline_error))"
| "init_loop N P batch (n # nodes) =
     (if length batch = 3 then
        bindE (try_batch N P batch) (\<lambda>found. if found then retE () else init_loop N P [n] nodes)
      else init_loop N P (batch @ [n]) nodes)"

definition fuse_init :: "'n cluster \<Rightarrow> connect_env \<Rightarrow> node list \<Rightarrow> ('n fuse, unit) eff" where
  "fuse_init N P nodes = init_loop N P [] nodes"

text \<open>The destructor of \<^verbatim>\<open>SDK\<close> deletes the stubs; \<open>deinit\<close> calls it when there is a client.\<close>

definition sdk_delete :: "'n world \<Rightarrow> 'n world" where
  "sdk_delete w = w\<lparr>dn_stubs := []\<rparr>"

definition fuse_deinit :: "('n fuse, unit) eff" where
  "fuse_deinit = modifyE (\<lambda>(set, w). (False, if set then sdk_delete w else w))"

definition fuse_reinit :: "'n cluster \<Rightarrow> connect_env \<Rightarrow> node list \<Rightarrow> ('n fuse, unit) eff" where
  "fuse_reinit N P nodes = thenE fuse_deinit (fuse_init N P nodes)"

text \<open>
  The two shapes of a method: a \<open>MessageException\<close> is printed and dropped, or printed and thrown
  again; any other exception leads to one more try on a new client.
\<close>

definition retry ::
    "(error_message \<Rightarrow> ('n fuse, 'a) eff) \<Rightarrow> 'n cluster \<Rightarrow> connect_env \<Rightarrow> node list \<Rightarrow> ('n world, 'a) eff \<Rightarrow> ('n fuse, 'a) eff" where
  "retry on_message N P nodes m =
     catchE (with_sdk m) (\<lambda>e. case e of
        MessageException msg \<Rightarrow> on_message msg
      | _ \<Rightarrow> thenE (fuse_reinit N P nodes) (with_sdk m))"

definition retry_drop :: "'n cluster \<Rightarrow> connect_env \<Rightarrow> node list \<Rightarrow> ('n world, unit) eff \<Rightarrow> ('n fuse, unit) eff" where
  "retry_drop N P nodes m = retry (\<lambda>_. retE ()) N P nodes m"

definition retry_throw :: "'n cluster \<Rightarrow> connect_env \<Rightarrow> node list \<Rightarrow> ('n world, 'a) eff \<Rightarrow> ('n fuse, 'a) eff" where
  "retry_throw N P nodes m = retry (\<lambda>msg. throwE (MessageException msg)) N P nodes m"

definition fuse_open :: "'n cluster \<Rightarrow> nat \<Rightarrow> connect_env \<Rightarrow> node list \<Rightarrow> string \<Rightarrow> int \<Rightarrow> ('n fuse, unit) eff" where
  "fuse_open N fuel P nodes dst flags = retry_drop N P nodes (sdk_open N fuel dst flags)"

definition fuse_mkdir :: "'n cluster \<Rightarrow> connect_env \<Rightarrow> node list \<Rightarrow> string \<Rightarrow> ('n fuse, unit) eff" where
  "fuse_mkdir N P nodes dst = retry_drop N P nodes (sdk_mkdir N dst)"

definition fuse_rm :: "'n cluster \<Rightarrow> connect_env \<Rightarrow> node list \<Rightarrow> string \<Rightarrow> ('n fuse, unit) eff" where
  "fuse_rm N P nodes dst = retry_drop N P nodes (sdk_rm N dst)"

definition fuse_truncate :: "'n cluster \<Rightarrow> nat \<Rightarrow> connect_env \<Rightarrow> node list \<Rightarrow> string \<Rightarrow> u64 \<Rightarrow> ('n fuse, unit) eff" where
  "fuse_truncate N fuel P nodes dst len = retry_drop N P nodes (sdk_truncate N fuel dst len)"

definition fuse_ls :: "'n cluster \<Rightarrow> connect_env \<Rightarrow> node list \<Rightarrow> string \<Rightarrow> ('n fuse, inode) eff" where
  "fuse_ls N P nodes dst = retry_throw N P nodes (sdk_ls N dst)"

definition fuse_read :: "'n cluster \<Rightarrow> connect_env \<Rightarrow> node list \<Rightarrow> string \<Rightarrow> u64 \<Rightarrow> u64 \<Rightarrow> ('n fuse, string) eff" where
  "fuse_read N P nodes dst offset len = retry_throw N P nodes (read_data N dst offset len)"

definition fuse_create :: "'n cluster \<Rightarrow> nat \<Rightarrow> connect_env \<Rightarrow> node list \<Rightarrow> string \<Rightarrow> ('n fuse, unit) eff" where
  "fuse_create N fuel P nodes dst = retry_throw N P nodes (sdk_create N fuel dst)"

definition fuse_write :: "'n cluster \<Rightarrow> connect_env \<Rightarrow> node list \<Rightarrow> string \<Rightarrow> u64 \<Rightarrow> string \<Rightarrow> ('n fuse, unit) eff" where
  "fuse_write N P nodes dst offset s = retry_throw N P nodes (write_data N dst offset s)"

definition fuse_close :: "'n cluster \<Rightarrow> nat \<Rightarrow> connect_env \<Rightarrow> node list \<Rightarrow> string \<Rightarrow> ('n fuse, unit) eff" where
  "fuse_close N fuel P nodes dst = retry_throw N P nodes (sdk_close N fuel dst)"

definition fuse_fsync :: "'n cluster \<Rightarrow> nat \<Rightarrow> connect_env \<Rightarrow> node list \<Rightarrow> string \<Rightarrow> ('n fuse, unit) eff" where
  "fuse_fsync N fuel P nodes dst = retry_throw N P nodes (sdk_fsync N fuel dst)"

section \<open>The callbacks\<close>

definition ENOENT :: int where "ENOENT = 2"
definition EIO :: int where "EIO = 5"
definition EEXIST :: int where "EEXIST = 17"

text \<open>An exception that leaves a callback meets no handler in the C library.\<close>

definition callback :: "('s, 'a) eff \<Rightarrow> ('s, 'a) eff" where
  "callback m = catchE m (\<lambda>e. throwE (Abort ''terminate''))"

record stat =
  st_mode :: int
  st_nlink :: int
  st_size :: int

text \<open>\<^verbatim>\<open>S_IFDIR | 0755\<close> and \<^verbatim>\<open>S_IFREG | 0644\<close>.\<close>

definition stat_of :: "inode \<Rightarrow> stat" where
  "stat_of i =
     (if is_directory i then \<lparr>st_mode = 16877, st_nlink = 2, st_size = 0\<rparr>
      else \<lparr>st_mode = 33188, st_nlink = 1, st_size = sint (filesize i)\<rparr>)"

definition spkdfs_getattr :: "'n cluster \<Rightarrow> connect_env \<Rightarrow> node list \<Rightarrow> string \<Rightarrow> ('n fuse, int \<times> stat option) eff" where
  "spkdfs_getattr N P nodes path =
     callback (catchE (bindE (fuse_ls N P nodes path) (\<lambda>i. retE (0, Some (stat_of i)))) (\<lambda>e. case e of
        MessageException _ \<Rightarrow> retE (- ENOENT, None)
      | _ \<Rightarrow> throwE e))"

text \<open>The names handed to \<^verbatim>\<open>filler\<close>; \<^verbatim>\<open>back\<close> of an empty name is undefined.\<close>

definition dir_name :: "string \<Rightarrow> string res" where
  "dir_name str =
     (if str = [] then Inl (Undefined ''back of an empty string'')
      else Inr (if last str = slash then butlast str else str))"

definition spkdfs_readdir :: "'n cluster \<Rightarrow> connect_env \<Rightarrow> node list \<Rightarrow> string \<Rightarrow> ('n fuse, int \<times> string list) eff" where
  "spkdfs_readdir N P nodes path =
     callback (bindE (fuse_ls N P nodes path) (\<lambda>i.
       if \<not> is_directory i then throwE (StdException ''not directory error'')
       else bindE (liftE (rmapM dir_name (sub i))) (\<lambda>names. retE (0, ''.'' # ''..'' # names))))"

fun mkdir_errno :: "exn \<Rightarrow> int" where
  "mkdir_errno (MessageException m) =
     (case err_code m of
        PATH_EXISTS_EXCEPTION \<Rightarrow> EEXIST
      | PATH_NOT_EXISTS_EXCEPTION \<Rightarrow> ENOENT
      | _ \<Rightarrow> EIO)"
| "mkdir_errno _ = EIO"

definition spkdfs_mkdir :: "'n cluster \<Rightarrow> connect_env \<Rightarrow> node list \<Rightarrow> string \<Rightarrow> ('n fuse, int) eff" where
  "spkdfs_mkdir N P nodes path =
     callback (catchE (bindE (fuse_mkdir N P nodes path) (\<lambda>_. retE 0)) (\<lambda>e. retE (mkdir_errno e)))"

text \<open>The \<^verbatim>\<open>throw\<close> in the first handler of \<open>rm\<close> leaves the function; the handler below is not tried.\<close>

definition spkdfs_rm :: "'n cluster \<Rightarrow> connect_env \<Rightarrow> node list \<Rightarrow> string \<Rightarrow> ('n fuse, int) eff" where
  "spkdfs_rm N P nodes path =
     callback (catchE (bindE (fuse_rm N P nodes path) (\<lambda>_. retE 0)) (\<lambda>e. case e of
        MessageException m \<Rightarrow>
          (case err_code m of
             PATH_EXISTS_EXCEPTION \<Rightarrow> retE EEXIST
           | PATH_NOT_EXISTS_EXCEPTION \<Rightarrow> retE ENOENT
           | _ \<Rightarrow> throwE e)
      | _ \<Rightarrow> retE EIO))"

definition spkdfs_truncate :: "'n cluster \<Rightarrow> nat \<Rightarrow> connect_env \<Rightarrow> node list \<Rightarrow> string \<Rightarrow> u64 \<Rightarrow> ('n fuse, int) eff" where
  "spkdfs_truncate N fuel P nodes path len =
     callback (catchE (bindE (fuse_truncate N fuel P nodes path len) (\<lambda>_. retE 0)) (\<lambda>_. retE (- ENOENT)))"

definition spkdfs_open :: "'n cluster \<Rightarrow> nat \<Rightarrow> connect_env \<Rightarrow> node list \<Rightarrow> string \<Rightarrow> int \<Rightarrow> ('n fuse, int) eff" where
  "spkdfs_open N fuel P nodes path flags =
     callback (bindE (fuse_open N fuel P nodes path flags) (\<lambda>_. retE 0))"

text \<open>
  \<^verbatim>\<open>memcpy\<close> copies as many bytes as were asked for; the string has its bytes and a terminator.  The
  result has the return value and the bytes in the buffer.
\<close>

definition spkdfs_read :: "'n cluster \<Rightarrow> connect_env \<Rightarrow> node list \<Rightarrow> string \<Rightarrow> u64 \<Rightarrow> u64 \<Rightarrow> ('n fuse, int \<times> string) eff" where
  "spkdfs_read N P nodes path len offset =
     callback (catchE (bindE (fuse_read N P nodes path offset len) (\<lambda>s.
        if length s + 1 < unat len then throwE (Undefined ''memcpy beyond the string'')
        else retE (to_int32 (uint len), take (unat len) (s @ [CHR 0x00])))) (\<lambda>_. retE (- ENOENT, [])))"

definition spkdfs_write :: "'n cluster \<Rightarrow> connect_env \<Rightarrow> node list \<Rightarrow> string \<Rightarrow> string \<Rightarrow> u64 \<Rightarrow> ('n fuse, int) eff" where
  "spkdfs_write N P nodes path data offset =
     callback (catchE (bindE (fuse_write N P nodes path offset data) (\<lambda>_. retE (to_int32 (int (length data))))) (\<lambda>_. retE (- EIO)))"

definition spkdfs_close :: "'n cluster \<Rightarrow> nat \<Rightarrow> connect_env \<Rightarrow> node list \<Rightarrow> string \<Rightarrow> ('n fuse, int) eff" where
  "spkdfs_close N fuel P nodes path =
     callback (catchE (bindE (fuse_close N fuel P nodes path) (\<lambda>_. retE 0)) (\<lambda>_. retE (- EIO)))"

definition spkdfs_fsync :: "'n cluster \<Rightarrow> nat \<Rightarrow> connect_env \<Rightarrow> node list \<Rightarrow> string \<Rightarrow> ('n fuse, int) eff" where
  "spkdfs_fsync N fuel P nodes path =
     callback (catchE (bindE (fuse_fsync N fuel P nodes path) (\<lambda>_. retE 0)) (\<lambda>_. retE (- EIO)))"

definition spkdfs_create :: "'n cluster \<Rightarrow> nat \<Rightarrow> connect_env \<Rightarrow> node list \<Rightarrow> string \<Rightarrow> ('n fuse, int) eff" where
  "spkdfs_create N fuel P nodes path =
     callback (catchE (bindE (fuse_create N fuel P nodes path) (\<lambda>_. retE 0)) (\<lambda>_. retE (- EIO)))"

definition spkdfs_utimens :: "('n fuse, int) eff" where
  "spkdfs_utimens = retE 0"

section \<open>The mount program\<close>

text \<open>The constructor of \<^verbatim>\<open>FUSE\<close>.\<close>

definition fuse_new :: "'n cluster \<Rightarrow> connect_env \<Rightarrow> string \<Rightarrow> ('n fuse, node list) eff" where
  "fuse_new N P ips =
     bindE (liftE (parse_nodes ips)) (\<lambda>nodes. thenE (fuse_init N P nodes) (retE nodes))"

text \<open>The requests of the kernel and the table of the callbacks; the result has the number a callback returns.\<close>

datatype fuse_request =
    Getattr string | MkdirReq string | Unlink string | Rmdir string | TruncateReq string u64 | OpenReq string int
  | ReadReq string u64 u64 | WriteReq string string u64 | Release string | FsyncReq string | Readdir string
  | CreateReq string | Utimens string

definition spkdfs_oper :: "'n cluster \<Rightarrow> nat \<Rightarrow> connect_env \<Rightarrow> node list \<Rightarrow> fuse_request \<Rightarrow> ('n fuse, int) eff" where
  "spkdfs_oper N fuel P nodes req =
     (case req of
        Getattr p \<Rightarrow> bindE (spkdfs_getattr N P nodes p) (\<lambda>x. retE (fst x))
      | MkdirReq p \<Rightarrow> spkdfs_mkdir N P nodes p
      | Unlink p \<Rightarrow> spkdfs_rm N P nodes p
      | Rmdir p \<Rightarrow> spkdfs_rm N P nodes p
      | TruncateReq p len \<Rightarrow> spkdfs_truncate N fuel P nodes p len
      | OpenReq p flags \<Rightarrow> spkdfs_open N fuel P nodes p flags
      | ReadReq p len offset \<Rightarrow> bindE (spkdfs_read N P nodes p len offset) (\<lambda>x. retE (fst x))
      | WriteReq p data offset \<Rightarrow> spkdfs_write N P nodes p data offset
      | Release p \<Rightarrow> spkdfs_close N fuel P nodes p
      | FsyncReq p \<Rightarrow> spkdfs_fsync N fuel P nodes p
      | Readdir p \<Rightarrow> bindE (spkdfs_readdir N P nodes p) (\<lambda>x. retE (fst x))
      | CreateReq p \<Rightarrow> spkdfs_create N fuel P nodes p
      | Utimens p \<Rightarrow> spkdfs_utimens)"

text \<open>
  \<^verbatim>\<open>main\<close>: \<open>opts\<close> are the options as the library parsed them, the addresses and whether help was asked
  for; \<open>reqs\<close> are the requests \<^verbatim>\<open>fuse_main\<close> serves until it returns \<open>ret\<close>.
\<close>

definition fuse_program ::
    "'n cluster \<Rightarrow> nat \<Rightarrow> connect_env \<Rightarrow> (string \<times> bool) option \<Rightarrow> fuse_request list \<Rightarrow> int \<Rightarrow> ('n fuse, int) eff" where
  "fuse_program N fuel P opts reqs ret =
     (case opts of
        None \<Rightarrow> retE 1
      | Some (ips, help) \<Rightarrow>
          if help then retE 0
          else bindE (callback (fuse_new N P ips)) (\<lambda>nodes.
            thenE (forE reqs (\<lambda>req. bindE (spkdfs_oper N fuel P nodes req) (\<lambda>_. retE ()))) (retE ret)))"

section \<open>The command line client\<close>

text \<open>\<^verbatim>\<open>src/client/main.cpp\<close>: an argument that is missing is a null pointer.\<close>

definition arg :: "string list \<Rightarrow> nat \<Rightarrow> string res" where
  "arg argv i = (if i < length argv then Inr (argv ! i) else Inl (Undefined ''null pointer''))"

definition ls_lines :: "inode \<Rightarrow> string list" where
  "ls_lines i =
     (if is_directory i then sub i
      else [fullpath i @ '' '' @ string_of_int (uint (filesize i)) @ '' '' @
            (case storage_type_ptr i of None \<Rightarrow> ''UNKNOWN'' | Some st \<Rightarrow> st_to_string st)])"

text \<open>The result has the exit status and the lines of the output.\<close>

definition cli_main ::
    "'n cluster \<Rightarrow> nat \<Rightarrow> connect_env \<Rightarrow> string \<Rightarrow> string \<Rightarrow> string \<Rightarrow> string \<Rightarrow> string list \<Rightarrow> ('n world, int \<times> string list) eff" where
  "cli_main N fuel P command datanode namenode storage_type argv =
     callback (thenE (sdk_new N P datanode namenode)
       (if command = ''put'' then
          bindE (liftE (arg argv 1)) (\<lambda>src. bindE (liftE (arg argv 2)) (\<lambda>dst.
            thenE (sdk_put N fuel src dst storage_type) (retE (0, [''success'']))))
        else if command = ''get'' then
          bindE (liftE (arg argv 1)) (\<lambda>src. bindE (liftE (arg argv 2)) (\<lambda>dst.
            thenE (sdk_get N src dst) (retE (0, [''success'']))))
        else if command = ''ls'' then
          bindE (liftE (arg argv 1)) (\<lambda>path. bindE (sdk_ls N path) (\<lambda>inode. retE (0, ls_lines inode)))
        else if command = ''mkdir'' then
          bindE (liftE (arg argv 1)) (\<lambda>path. thenE (sdk_mkdir N path) (retE (0, [''success''])))
        else if command = ''rm'' then
          bindE (liftE (arg argv 1)) (\<lambda>path. thenE (sdk_rm N path) (retE (0, [''success''])))
        else retE (0, [])))"

text \<open>A cluster whose only namenode is its master.\<close>

definition demo_env :: connect_env where
  "demo_env =
     (let m = default_node\<lparr>ip := ''a'', port := 1\<rparr>
      in \<lparr>namenodes_at = (\<lambda>_. [m]), master_at = (\<lambda>_. Inr (succ_response empty_response, node_to_string m)),
          channel_ok = (\<lambda>_. True), rand_at = (\<lambda>_. 7)\<rparr>)"

text \<open>The empty file \<open>_create\<close> copies lies in a directory nothing makes.\<close>

definition no_seed :: "'n cluster \<Rightarrow> 'n world \<Rightarrow> bool" where
  "no_seed N w \<longleftrightarrow>
     \<not> fs_exists (local w) (get_tmp_index_path N [] 0) \<and> \<not> fs_is_directory (local w) (path_parent (get_tmp_index_path N [] 0))"

section \<open>Facts\<close>

text \<open>What a batch comes to when the echo calls have one outcome: the first node that answers.\<close>

lemma find_discovered:
  "find (\<lambda>n. nodeStatus n = ONLINE) (map (\<lambda>n. n\<lparr>nodeStatus := (if net n = RpcOk then ONLINE else OFFLINE)\<rparr>) ns) =
     map_option (\<lambda>n. n\<lparr>nodeStatus := ONLINE\<rparr>) (find (\<lambda>n. net n = RpcOk) ns)"
  by (induction ns) auto

lemma init_node_status: "init_node N P (n\<lparr>nodeStatus := x\<rparr>) = init_node N P n"
  by (simp add: init_node_def [abs_def] node_to_string_def)

lemma try_batch_eq:
  assumes "\<forall>t. echoes N t = net" and "\<forall>n \<in> set batch. net n \<noteq> ChannelInitFailed"
  shows "try_batch N P batch =
    (case find (\<lambda>n. net n = RpcOk) batch of None \<Rightarrow> retE False | Some n \<Rightarrow> bindE (init_node N P n) (\<lambda>_. retE True))"
  unfolding try_batch_def
  by (rule ext) (simp add: bindE_def getE_def liftE_def assms(1) node_discovery_total [OF assms(2)] find_discovered init_node_status
      split: option.splits)

lemma find_append: "find Q (xs @ ys) = (case find Q xs of None \<Rightarrow> find Q ys | Some x \<Rightarrow> Some x)"
  by (induction xs) auto

lemma init_loop_eq:
  assumes "\<forall>t. echoes N t = net" and "\<forall>n \<in> set (batch @ nodes). net n \<noteq> ChannelInitFailed"
  shows "init_loop N P batch nodes =
    (case find (\<lambda>n. net n = RpcOk) (batch @ nodes) of None \<Rightarrow> throwE offline_error | Some n \<Rightarrow> init_node N P n)"
  using assms(2)
proof (induction nodes arbitrary: batch)
  case Nil
  then have tb: "try_batch N P batch =
      (case find (\<lambda>n. net n = RpcOk) batch of None \<Rightarrow> retE False | Some n \<Rightarrow> bindE (init_node N P n) (\<lambda>_. retE True))"
    by (intro try_batch_eq assms(1)) simp
  show ?case
    by (auto simp: tb bindE_def retE_def throwE_def fun_eq_iff split: option.splits prod.splits sum.splits)
next
  case (Cons n nodes)
  then have tb: "try_batch N P batch =
      (case find (\<lambda>n. net n = RpcOk) batch of None \<Rightarrow> retE False | Some n \<Rightarrow> bindE (init_node N P n) (\<lambda>_. retE True))"
    by (intro try_batch_eq assms(1)) simp
  have fresh: "init_loop N P [n] nodes =
      (case find (\<lambda>n. net n = RpcOk) (n # nodes) of None \<Rightarrow> throwE offline_error | Some n \<Rightarrow> init_node N P n)"
    using Cons.prems Cons.IH [of "[n]"] by simp
  have more: "init_loop N P (batch @ [n]) nodes =
      (case find (\<lambda>n. net n = RpcOk) (batch @ n # nodes) of None \<Rightarrow> throwE offline_error | Some n \<Rightarrow> init_node N P n)"
    using Cons.prems Cons.IH [of "batch @ [n]"] by simp
  show ?case
  proof (cases "length batch = 3")
    case True
    then show ?thesis
      by (auto simp: tb fresh find_append bindE_def retE_def fun_eq_iff split: option.splits prod.splits sum.splits)
  next
    case False
    then show ?thesis by (simp only: init_loop.simps more if_False)
  qed
qed

lemma rpc_pure_local: "rpc N (liftE x) w = (r, w') \<Longrightarrow> local w' = local w"
  by (auto simp: rpc_def liftE_def Let_def split: call_fate.splits sum.splits)

lemma sdk_new_local: "sdk_new N P datanode namenode w = (r, w') \<Longrightarrow> local w' = local w"
  by (auto simp: sdk_new_def get_dn_stub_def get_slave_namenode_def Let_def thenE_def bindE_def modifyE_def getE_def liftE_def
      retE_def throwE_def dest!: rpc_pure_local split: prod.splits sum.splits if_splits)

lemma fuse_init_local: "fuse_init N P nodes s = (r, s') \<Longrightarrow> local (snd s') = local (snd s)"
proof -
  have node: "init_node N P n s = (r, s') \<Longrightarrow> local (snd s') = local (snd s)" for n s and r :: "unit res" and s'
    by (auto simp: init_node_def dest: sdk_new_local split: prod.splits sum.splits)
  have batch: "try_batch N P b s = (r, s') \<Longrightarrow> local (snd s') = local (snd s)" for b s r s'
    by (auto simp: try_batch_def bindE_def getE_def liftE_def retE_def dest: node split: prod.splits sum.splits option.splits)
  have "init_loop N P b nodes s = (r, s') \<Longrightarrow> local (snd s') = local (snd s)" for b
  proof (induction nodes arbitrary: b s)
    case Nil
    then show ?case by (auto simp: bindE_def retE_def throwE_def dest: batch split: prod.splits sum.splits if_splits)
  next
    case (Cons n nodes)
    show ?case
    proof (cases "length b = 3")
      case True
      with Cons show ?thesis
        by (auto simp: bindE_def retE_def dest: batch split: prod.splits sum.splits if_splits)
    next
      case False
      with Cons show ?thesis by simp
    qed
  qed
  then show "fuse_init N P nodes s = (r, s') \<Longrightarrow> local (snd s') = local (snd s)" by (simp add: fuse_init_def)
qed

lemma create_file_fails:
  assumes "no_seed N w"
  shows "create_file N fuel path w = (Inl (StdException (''Failed to open file'' @ get_tmp_index_path N [] 0)), w)"
proof -
  let ?p = "get_tmp_index_path N [] 0"
  have "st_from_string guess_storage_type = Inr (RS 7 5 16)" by code_simp
  moreover have "snd (open_out False ?p (local w)) = local w" "\<not> fs_exists (local w) ?p"
    using assms by (auto simp: no_seed_def open_out_def fs_exists_def)
  ultimately show ?thesis
    by (simp add: create_file_def Let_def on_local_def onE_def thenE_def bindE_def sdk_put_def liftE_def getE_def throwE_def)
qed

lemma sdk_create_fails:
  "no_seed N w \<Longrightarrow> sdk_create N fuel path w = (Inl (StdException (''Failed to open file'' @ get_tmp_index_path N [] 0)), w)"
  by (simp add: sdk_create_def sdk_open_def O_CREAT_def O_WRONLY_def whenE_def thenE_def bindE_def create_file_fails)

section \<open>Properties\<close>

text \<open>
C36: The mount connects to the first datanode that answers: however the list is cut into batches of
three, \<open>init\<close> is the connection to the first node of the whole list whose echo succeeds, and it throws
\<open>all nodes offline\<close> exactly when there is none.
\<close>

theorem mount_first_online:
  assumes "\<forall>t. echoes N t = net" and "\<forall>n \<in> set nodes. net n \<noteq> ChannelInitFailed"
  shows "fuse_init N P nodes s =
    (case find (\<lambda>n. net n = RpcOk) nodes of
       None \<Rightarrow> (Inl (StdException ''all nodes offline''), s)
     | Some n \<Rightarrow> init_node N P n s)"
  using init_loop_eq [OF assms(1), of "[]" nodes] assms(2)
  by (simp add: fuse_init_def throwE_def offline_error_def split: option.splits)

theorem mount_first_online_witness:
  "fuse_init (demo_cluster\<lparr>echoes := \<lambda>_ n. if ip n = ''d'' then RpcOk else RpcFailed\<rparr>) demo_env
     [default_node\<lparr>ip := ''a''\<rparr>, default_node\<lparr>ip := ''b''\<rparr>, default_node\<lparr>ip := ''c''\<rparr>, default_node\<lparr>ip := ''d''\<rparr>] (False, demo_world) =
   init_node (demo_cluster\<lparr>echoes := \<lambda>_ n. if ip n = ''d'' then RpcOk else RpcFailed\<rparr>) demo_env (default_node\<lparr>ip := ''d''\<rparr>)
     (False, demo_world)"
  by (subst mount_first_online [where net = "\<lambda>n. if ip n = ''d'' then RpcOk else RpcFailed"]) simp_all

text \<open>
A mounted file system reports success for directories that were not made: whenever the namenode
refuses a \<open>mkdir\<close> or an \<open>rm\<close>, for whatever reason, the callback returns 0, because the class \<open>FUSE\<close>
drops the exception its callbacks want to turn into an error number.
\<close>

lemma refused_reported_as_success:
  assumes "fate N (calls w) = Delivered" and "nn_master N (Mkdir path) (namenodes w) = (Inr r, n)"
    and "nn_master N (Rm path) (namenodes w) = (Inr r', n')" and "\<not> success r" and "\<not> success r'"
  shows "fst (spkdfs_mkdir N P nodes path (True, w)) = Inr 0 \<and> fst (spkdfs_rm N P nodes path (True, w)) = Inr 0"
  using assms
  by (simp add: spkdfs_mkdir_def spkdfs_rm_def fuse_mkdir_def fuse_rm_def retry_drop_def retry_def callback_def with_sdk_def
      sdk_mkdir_def sdk_rm_def sdk_call_def rpc_def Let_def onE_def catchE_def bindE_def liftE_def retE_def)

text \<open>
C38: A cluster with a single namenode kills its clients: when the only namenode of the list is the
master, the constructor takes a random number modulo the length of an empty list, and the command
line client dies of it whatever the command.
\<close>

theorem single_namenode_crashes:
  assumes "fate N (calls w) = Delivered" and "fate N (Suc (calls w)) = Delivered" and "namenodes_at P datanode = [m]"
    and "master_at P (node_to_string m) = Inr (succ_response empty_response, node_to_string m)"
    and "channel_ok P (node_to_string m)"
  shows "fst (sdk_new N P datanode [] w) = Inl (Abort ''SIGFPE'') \<and>
    fst (cli_main N fuel P command datanode [] storage_type argv w) = Inl (Abort ''SIGFPE'')"
proof -
  have "nodes_to_string [m] = Inr (node_to_string m)" by (simp add: nodes_to_string_def Let_def)
  then have "get_namenodes [m] = Inr (succ_response empty_response, [node_to_string m])"
    by (simp add: get_namenodes_def list_nodes_def)
  with assms have new: "fst (sdk_new N P datanode [] w) = Inl (Abort ''SIGFPE'')"
    by (simp add: sdk_new_def get_dn_stub_def get_slave_namenode_def rpc_def Let_def bindE_def thenE_def modifyE_def getE_def
        liftE_def retE_def throwE_def succ_response_def)
  then obtain w' where "sdk_new N P datanode [] w = (Inl (Abort ''SIGFPE''), w')" by (metis prod.collapse)
  with new show ?thesis by (simp add: cli_main_def callback_def catchE_def thenE_def bindE_def)
qed

theorem single_namenode_crashes_witness:
  "fst (sdk_new demo_cluster demo_env ''a:2'' [] demo_world) = Inl (Abort ''SIGFPE'') \<and>
   fst (cli_main demo_cluster 1 demo_env ''ls'' ''a:2'' [] ''RS<3,2,64>'' [''client'', ''/''] demo_world) = Inl (Abort ''SIGFPE'')"
  by (rule single_namenode_crashes [where m = "default_node\<lparr>ip := ''a'', port := 1\<rparr>"]) (simp_all add: demo_cluster_def demo_env_def Let_def)

text \<open>
C40: No file can be created through the mount on a machine where it was never created before: \<open>_create\<close> copies
an empty file from the directory of the empty path, which no operation makes.  The callback answers
\<open>-EIO\<close>, after a reconnection that cannot help, or the process dies in it.
\<close>

theorem mounted_create_fails:
  assumes "no_seed N w"
  shows "case fst (spkdfs_create N fuel P nodes path (True, w)) of Inr e \<Rightarrow> e = - EIO | Inl x \<Rightarrow> \<not> catchable x"
proof -
  obtain r s where re: "fuse_reinit N P nodes (True, w) = (r, s)" by (cases "fuse_reinit N P nodes (True, w)")
  then have "local (snd s) = local w"
    by (auto simp: fuse_reinit_def fuse_deinit_def sdk_delete_def thenE_def bindE_def modifyE_def dest: fuse_init_local)
  then have "no_seed N (snd s)" using assms by (simp add: no_seed_def)
  then show ?thesis
    using sdk_create_fails [OF assms] sdk_create_fails [of N "snd s"] re
    by (auto simp: spkdfs_create_def fuse_create_def retry_throw_def retry_def with_sdk_def callback_def catchE_def bindE_def
        thenE_def retE_def throwE_def split: sum.splits prod.splits exn.splits)
qed

theorem mounted_create_fails_witness:
  "case fst (spkdfs_create demo_cluster 9 demo_env [] ''/f'' (True, demo_world)) of Inr e \<Rightarrow> e = - EIO | Inl x \<Rightarrow> \<not> catchable x"
proof (rule mounted_create_fails)
  show "no_seed demo_cluster demo_world" by code_simp
qed

end
