(* ===== verification/Spec2Isabelle.thy ===== *)
theory Spec2Isabelle
  imports Prelude Service Paths Json Utils Node Inode RocksDB RaftNN Namenode Namespace Restart Files Datanode PathLocks RaftDN Server
    Process Blocks Sdk FileTransfer Traffic LocalCopies WriteBack Sessions Durability Mount
begin

text \<open>
  \<^bold>\<open>spkdfs, a replicated file system with erasure coding.\<close>

  Every node of the cluster runs one process, a \<^verbatim>\<open>Server\<close>.  All servers share a raft group (\<^verbatim>\<open>RaftDN\<close>) whose log
  carries the list of namenodes; a server that finds itself in the list runs a namenode, a member of a second
  raft group (\<^verbatim>\<open>RaftNN\<close>) that replicates the namespace in a \<^verbatim>\<open>RocksDB\<close> store.  Every server stores blocks as files
  (\<^verbatim>\<open>DatanodeServiceImpl\<close>).  A client (\<^verbatim>\<open>SDK\<close>) cuts files into blocks, spreads the fragments of each block over
  datanodes, and commits their placements at the namenode with \<open>put\<close> and \<open>put_ok\<close>; the mount program (\<^verbatim>\<open>FUSE\<close>) and
  the command line client sit on top of it.  Source files are given relative to the repository's root.

  \<^bold>\<open>Theories and sources.\<close>

  \<^item> \<open>Prelude\<close>: results and their combinators, text numerals, streams split at delimiters, 32-bit integers, and
    the collections \<open>res_simps\<close>, \<open>str_simps\<close> and \<open>width_simps\<close>.
  \<^item> \<open>Service\<close>: \<^verbatim>\<open>include/common/exception.h\<close>, the responses of \<^verbatim>\<open>src/common/service.proto\<close>, and \<^verbatim>\<open>fail_response\<close>.
    The type \<open>exn\<close> has what can leave a function: a \<open>MessageException\<close>, another exception, a failed assertion or
    signal (\<open>Abort\<close>), undefined behaviour (\<open>Undefined\<close>), and not returning (\<open>Hang\<close>).  Only the first two can be caught.
  \<^item> \<open>Effects\<close>: code that changes a state and may throw, as functions from states to results and states.
  \<^item> \<open>Paths\<close>, \<open>Json\<close>, \<open>Utils\<close>, \<open>Files\<close>: path normalisation, the JSON values the code builds and reads, block index
    arithmetic, the clock, the own address and the timer thread of \<^verbatim>\<open>src/common/utils.cpp\<close>, and a file system with
    hard links for \<^verbatim>\<open>std::filesystem\<close> and the file streams.
  \<^item> \<open>Node\<close>, \<open>Inode\<close>: \<^verbatim>\<open>src/common/node.cpp\<close> and \<^verbatim>\<open>src/common/inode.cpp\<close> with their headers.
  \<^item> \<open>RocksDB\<close>, \<open>RaftNN\<close>, \<open>Namenode\<close>: \<^verbatim>\<open>src/node/rocksdb.cpp\<close>, \<^verbatim>\<open>src/node/raft_nn.cpp\<close>, \<^verbatim>\<open>src/node/namenode.cpp\<close>, one
    definition for every method; \<open>Namespace\<close> composes a handler with the log entry it proposes, \<open>Restart\<close> gives a replica
    its log again.
  \<^item> \<open>RaftDN\<close>, \<open>Server\<close>, \<open>Datanode\<close>, \<open>Process\<close>: \<^verbatim>\<open>src/node/raft_dn.cpp\<close>, \<^verbatim>\<open>src/node/server.cpp\<close>, \<^verbatim>\<open>src/node/datanode.cpp\<close>,
    and the constructors, loops, destructor and \<^verbatim>\<open>main\<close> of the node's program.
  \<^item> \<open>PathLocks\<close>: \<^verbatim>\<open>src/common/pathlocks.cpp\<close>, with a step relation for threads.
  \<^item> \<open>Blocks\<close>, \<open>Sdk\<close>: \<^verbatim>\<open>src/client/sdk.cpp\<close>; the record \<open>world\<close> has the fields of the client, its files, the disks of the
    datanodes and the state of the namenodes, the record \<open>cluster\<close> what the client is given.  \<open>FileTransfer\<close>,
    \<open>LocalCopies\<close>, \<open>WriteBack\<close> and \<open>Sessions\<close> have the theorems on whole files, on reading open files, on writing
    and syncing them, and on sessions from \<open>open\<close> to \<open>close\<close>.
  \<^item> \<open>Traffic\<close>, \<open>Durability\<close>: other clients.  Their requests and renewals at the namenode, the blocks they store and the
    loss or change of files on datanodes are step relations (\<open>competing\<close>, \<open>meanwhile\<close>) between two operations of
    one client.
  \<^item> \<open>Mount\<close>: the constructor of the client, \<^verbatim>\<open>src/client/fuse.cpp\<close> and \<^verbatim>\<open>src/client/main.cpp\<close>.

  \<^bold>\<open>State and effects.\<close>  A class is a record, an enumeration a datatype.  A method that reads is a function to a
  result; one that changes state also returns the state left behind, also when it throws.  \<^verbatim>\<open>int\<close> is \<open>int\<close> with
  \<open>to_int32\<close> where a product or a conversion can leave its range, \<^verbatim>\<open>uint64_t\<close> is a word of 64 bits.  Files are
  byte lists under inode numbers, so that the hard links of \<open>write_data\<close> alias the copies of the blocks.  A remote
  call has a fate: answered, never executed, or executed with the answer lost; all theorems on the client hold for
  every sequence of fates they do not restrict.

  \<^bold>\<open>Interfaces.\<close>  What the code relies on of libraries and of other components is a locale, interpreted on the
  definitions of this development: \<open>json_codec\<close> and \<open>json_strict\<close> (the JSON library, by a printer and parser of its own),
  \<open>storage_codec\<close> (the class \<^verbatim>\<open>StorageType\<close>, for replication outright and for Reed-Solomon under \<open>mds_code\<close>),
  \<open>kv_store\<close>, \<open>kv_reliable\<close>, \<open>kv_snapshots\<close>, \<open>meta_reliable\<close> and \<open>strict_store\<close> (the store), \<open>deterministic_log\<close> (the state
  machine under a replicated log), \<open>block_store\<close> (a datanode), \<open>file_service\<close> and \<open>atomic_file_service\<close> (the
  namenode as the client sees it; the namenode's handlers are a sublocale for every reliable store).

  \<^bold>\<open>What is shown.\<close>

  \<^item> Namenode: every operation on the store refines an operation on a map from paths to inodes; a request is
    atomic; replicas that apply one log stay equal, also when one was restored from a snapshot, and when one restarts
    with its store and applies the whole log a second time; every
    interleaving of requests, lock renewals and commits keeps the store well formed; requests that respect the
    conditions the handlers do not check keep the tree consistent and are always answered; what \<open>ls\<close> shows after
    each operation; a \<open>put\<close> locks others out, whatever they request meanwhile.
  \<^item> Blocks and files: any \<open>k\<close> fragments give the block back; a spread block decodes; \<open>encode_one\<close> returns while
    calls are answered now and then; what \<open>put\<close> stored, \<open>get\<close> returns, through client, datanodes and namenode,
    after any traffic on other paths and any damage that leaves each block enough fragments;
    reading an open file is exact with any mix of local copies; a session that opens an
    empty file, writes it piece by piece and closes it commits exactly the bytes written or nothing, and what it committed survives in the same way.
  \<^item> Cluster: the leader's choice of namenodes equals a simple reference; the watch over them ends and reports a
    loss only after four failures in a row; the local namenode follows the list; membership changes go through
    the old group exactly with a majority; a node runs until it is asked to quit and stops everything.
  \<^item> Texts: nodes, storage types, placements, inodes and lists of nodes survive printing and parsing; a stored
    document is read exactly if it has the types of the schema.
  \<^item> Flaws, stated as theorems on the code as it is: a removed directory stays listed; a commit below a missing
    directory ends every replica; a lock used in both modes is released in the wrong one; a failed start sticks;
    the loop that spreads fragments can run forever; overwriting within a block appends; no file can be created
    through the mount on a fresh machine; a refused request is reported as a success; a cluster with one
    namenode kills its clients.

  \<^bold>\<open>Bounds and fuel.\<close>  \<open>encode_loop\<close>, \<open>put_blocks\<close>, \<open>run_loop\<close> and \<open>waiting_for_rpc\<close> take a bound on their iterations and
  return \<open>Hang\<close> when it is used up, because the loops of the code may not end; \<open>encode_one_ends\<close>, \<open>run_loop_ends\<close> and
  \<open>waiting_ends\<close> say which bounds are enough.  All other loops are total functions: \<open>fill_namenodes\<close> and \<open>nn_scan\<close>
  by a measure, the rest by their structure.  Theorems on offsets and files hold below 2 GB, the range of the
  \<^verbatim>\<open>int\<close> arithmetic of the block indices; no write may end on a block boundary in the theorem on writing, where the
  code computes a wrong length.

  \<^bold>\<open>Not modelled.\<close>  The consensus library (braft), the service library (brpc), RocksDB, liberasurecode, the JSON and
  hash libraries and FUSE are not under \<^verbatim>\<open>src\<close>: they are parameters, with what the code relies on as hypotheses.
  Methods that are one call of such a library (\<open>shutdown\<close>, \<open>add_node\<close>, \<open>remove_node\<close>, \<open>apply\<close>, conversions to peer ids)
  have no definition of their own.  Threads of one client are interleaved only in the locks, and other clients act
  between two operations of a client, not inside one.  Logging, crash dumps, the text of \<^verbatim>\<open>what()\<close>, the benchmark and the build
  files have no model.
\<close>

end
